(* ===== verification/Prelude.thy ===== *)
theory Prelude
  imports Main "HOL-Library.Word" "HOL-Library.Char_ord" "HOL-Library.List_Lexorder"
begin

section \<open>Shared vocabulary of the development\<close>

text \<open>
  Machine integers, the faults a C++ operation can end in, the result type every fallible
  operation returns, and the few functions of the C and C++ standard libraries that several
  components call (\<open>tolower\<close>, \<open>toupper\<close>, \<open>std::string::substr\<close>,
  \<open>std::string::find_first_not_of\<close>, decimal output of integers), with the lemmas
  about them that the component theories share.
\<close>

type_synonym u32 = "32 word"
type_synonym u64 = "64 word"
type_synonym i32 = "32 word"

text \<open>
  How an operation of the program can fail: it throws an exception derived from
  \<open>std::exception\<close> (with the text of \<open>what()\<close>) or another exception, a failed
  \<open>assert\<close> aborts it, it dereferences a null pointer, it blocks for ever, or the C++ standard
  or POSIX gives the execution no meaning. \<open>ThreadExit\<close> is not an error: a context without a
  successor returned, which ends the thread.
\<close>

datatype fault =
    StdException string
  | OtherException
  | AssertAbort string
  | NullDeref string
  | Blocked string
  | ThreadExit
  | Undefined string

type_synonym 'a result = "fault + 'a"

text \<open>The collections that simplify the shared combinators and unfold the operations.\<close>

named_theorems result_simps
named_theorems frame_simps

subsection \<open>Sequencing of fallible operations\<close>

definition rbind :: "'a result \<Rightarrow> ('a \<Rightarrow> 'b result) \<Rightarrow> 'b result" where
  "rbind r f = (case r of Inl e \<Rightarrow> Inl e | Inr x \<Rightarrow> f x)"

lemma rbind_Inr [simp]: "rbind (Inr x) f = f x"
  by (simp add: rbind_def)

lemma rbind_Inl [simp]: "rbind (Inl e) f = Inl e"
  by (simp add: rbind_def)

lemma rbind_eq_Inr [result_simps]:
  "rbind r f = Inr y \<longleftrightarrow> (\<exists>x. r = Inr x \<and> f x = Inr y)"
  by (cases r) auto

lemma rbind_eq_Inl [result_simps]:
  "rbind r f = Inl e \<longleftrightarrow> r = Inl e \<or> (\<exists>x. r = Inr x \<and> f x = Inl e)"
  by (cases r) auto

lemma rbind_assoc: "rbind (rbind r f) g = rbind r (\<lambda>x. rbind (f x) g)"
  by (cases r) auto

lemma rbind_return [simp]: "rbind r Inr = r"
  by (cases r) auto

lemma rbind_cong [fundef_cong]:
  "r = r' \<Longrightarrow> (\<And>x. r' = Inr x \<Longrightarrow> f x = f' x) \<Longrightarrow> rbind r f = rbind r' f'"
  by (cases r') auto

text \<open>
  A C++ range-based \<open>for\<close> whose body changes the state and may fail: the first fault
  leaves the loop.
\<close>

primrec rfold :: "('a \<Rightarrow> 's \<Rightarrow> 's result) \<Rightarrow> 'a list \<Rightarrow> 's \<Rightarrow> 's result" where
  "rfold f [] s = Inr s"
| "rfold f (x # xs) s = rbind (f x s) (rfold f xs)"

lemma rfold_append: "rfold f (xs @ ys) s = rbind (rfold f xs s) (rfold f ys)"
  by (induction xs arbitrary: s) (auto simp: rbind_assoc intro: rbind_cong)

lemma rfold_cong [fundef_cong]:
  "xs = ys \<Longrightarrow> s = t \<Longrightarrow> (\<And>x u. x \<in> set ys \<Longrightarrow> f x u = g x u) \<Longrightarrow> rfold f xs s = rfold g ys t"
proof (induction xs arbitrary: ys s t)
  case (Cons x xs)
  then have "f x s = g x t" and "\<And>u. rfold f xs u = rfold g xs u"
    by auto
  with Cons.prems show ?case by (cases "g x t") auto
qed simp

lemma rfold_invariant:
  assumes "P s" and "\<And>x u. x \<in> set xs \<Longrightarrow> P u \<Longrightarrow> \<exists>v. f x u = Inr v \<and> P v"
  shows "\<exists>v. rfold f xs s = Inr v \<and> P v"
  using assms
proof (induction xs arbitrary: s)
  case (Cons x xs)
  from Cons.prems(2) [of x s] Cons.prems(1) obtain u where "f x s = Inr u" and "P u" by auto
  moreover have "\<exists>v. rfold f xs u = Inr v \<and> P v"
    using Cons.IH [OF \<open>P u\<close>] Cons.prems(2) by auto
  ultimately show ?case by simp
qed simp

lemma rfold_preserves:
  assumes "rfold f xs s = Inr t" and "P s"
    and "\<And>x u v. x \<in> set xs \<Longrightarrow> P u \<Longrightarrow> f x u = Inr v \<Longrightarrow> P v"
  shows "P t"
  using assms
proof (induction xs arbitrary: s)
  case (Cons x xs)
  then obtain u where u: "f x s = Inr u" and t: "rfold f xs u = Inr t"
    by (auto simp: result_simps)
  have "P u" using Cons.prems(2,3) u by auto
  then show ?case using Cons.IH [OF t] Cons.prems(3) by auto
qed simp

lemma rfold_Inl: "rfold f xs s = Inl e \<Longrightarrow> \<exists>x \<in> set xs. \<exists>u. f x u = Inl e"
  by (induction xs arbitrary: s) (auto simp: result_simps)

text \<open>A loop whose body cannot fail is a fold.\<close>

lemma rfold_Inr [simp]: "rfold (\<lambda>x s. Inr (g x s)) xs s = Inr (fold g xs s)"
  by (induction xs arbitrary: s) auto

subsection \<open>Characters and strings of the C library\<close>

text \<open>\<open>tolower\<close> and \<open>toupper\<close> in the C locale.\<close>

definition tolower :: "char \<Rightarrow> char" where
  "tolower c = (let n = (of_char c :: nat) in if 65 \<le> n \<and> n \<le> 90 then char_of (n + 32) else c)"

definition toupper :: "char \<Rightarrow> char" where
  "toupper c = (let n = (of_char c :: nat) in if 97 \<le> n \<and> n \<le> 122 then char_of (n - 32) else c)"

lemma of_char_tolower:
  "of_char (tolower c) =
     (let n = (of_char c :: nat) in if 65 \<le> n \<and> n \<le> 90 then n + 32 else n)"
  by (auto simp: tolower_def Let_def)

lemma of_char_toupper:
  "of_char (toupper c) =
     (let n = (of_char c :: nat) in if 97 \<le> n \<and> n \<le> 122 then n - 32 else n)"
  by (auto simp: toupper_def Let_def)

lemma tolower_idem [simp]: "tolower (tolower c) = tolower c"
proof -
  have "(of_char (tolower (tolower c)) :: nat) = of_char (tolower c)"
    by (auto simp: of_char_tolower Let_def)
  then show ?thesis by simp
qed

lemma toupper_idem [simp]: "toupper (toupper c) = toupper c"
proof -
  have "(of_char (toupper (toupper c)) :: nat) = of_char (toupper c)"
    by (auto simp: of_char_toupper Let_def)
  then show ?thesis by simp
qed

lemma toupper_tolower [simp]: "toupper (tolower c) = toupper c"
proof -
  have "(of_char (toupper (tolower c)) :: nat) = of_char (toupper c)"
    by (auto simp: of_char_toupper of_char_tolower Let_def)
  then show ?thesis by simp
qed

text \<open>
  \<open>std::string::find_first_not_of\<close>: the index of the first character outside a set, and
  \<open>None\<close> for \<open>npos\<close>.
\<close>

fun find_first_not_of :: "string \<Rightarrow> string \<Rightarrow> nat option" where
  "find_first_not_of cs [] = None"
| "find_first_not_of cs (c # s) =
     (if c \<in> set cs then map_option Suc (find_first_not_of cs s) else Some 0)"

lemma find_first_not_of_None [simp]:
  "find_first_not_of cs s = None \<longleftrightarrow> set s \<subseteq> set cs"
  by (induction s) auto

lemma takeWhile_notin [simp]: "c \<notin> set s \<Longrightarrow> takeWhile (\<lambda>x. x \<noteq> c) s = s"
  by (induction s) auto

lemma takeWhile_upto [simp]: "c \<notin> set s \<Longrightarrow> takeWhile (\<lambda>x. x \<noteq> c) (s @ c # t) = s"
  by (induction s) auto

lemma dropWhile_upto [simp]: "c \<notin> set s \<Longrightarrow> dropWhile (\<lambda>x. x \<noteq> c) (s @ c # t) = c # t"
  by (induction s) auto

text \<open>
  A signed index handed to a \<open>size_t\<close> parameter, and \<open>std::string::substr\<close>, which
  throws when the position is past the end and cuts the count at the end otherwise.
\<close>

definition to_size :: "int \<Rightarrow> int" where
  "to_size x = uint (word_of_int x :: u64)"

definition substr :: "string \<Rightarrow> int \<Rightarrow> int \<Rightarrow> string result" where
  "substr s pos n =
     (if int (length s) < to_size pos then Inl (StdException ''basic_string::substr'')
      else Inr (take (nat (min (to_size n) (int (length s) - to_size pos)))
                     (drop (nat (to_size pos)) s)))"

lemma to_size_le: "0 \<le> x \<Longrightarrow> to_size x \<le> x"
  by (simp add: to_size_def uint_word_of_int zmod_le_nonneg_dividend)

lemma to_size_small: "0 \<le> x \<Longrightarrow> x < 2 ^ 64 \<Longrightarrow> to_size x = x"
  by (simp add: to_size_def uint_word_of_int)

lemma to_size_minus_one: "to_size (- 1) = 2 ^ 64 - 1"
  by code_simp

lemma substr_total: "0 \<le> pos \<Longrightarrow> pos \<le> int (length s) \<Longrightarrow> \<exists>t. substr s pos n = Inr t"
  using to_size_le [of pos] by (simp add: substr_def)

lemma substr_in_range:
  assumes "0 \<le> pos" and "0 \<le> n" and "pos + n \<le> int (length s)" and "int (length s) < 2 ^ 64"
  shows "substr s pos n = Inr (take (nat n) (drop (nat pos) s))"
  using assms by (simp add: substr_def to_size_small)

text \<open>Decimal output of an unsigned integer by \<open>operator<<\<close>, and of a signed one.\<close>

definition digit :: "nat \<Rightarrow> char" where
  "digit d = char_of (48 + d)"

fun dec_nat :: "nat \<Rightarrow> string" where
  "dec_nat n = (if n < 10 then [digit n] else dec_nat (n div 10) @ [digit (n mod 10)])"

declare dec_nat.simps [simp del]

definition dec_int :: "int \<Rightarrow> string" where
  "dec_int x = (if x < 0 then CHR ''-'' # dec_nat (nat (- x)) else dec_nat (nat x))"

definition undec :: "string \<Rightarrow> nat" where
  "undec s = foldl (\<lambda>n c. 10 * n + (of_char c - 48)) 0 s"

lemma of_char_digit: "d < 10 \<Longrightarrow> of_char (digit d) = 48 + d"
  by (simp add: digit_def)

lemma undec_dec_nat [simp]: "undec (dec_nat n) = n"
proof (induction n rule: dec_nat.induct)
  case (1 n)
  show ?case
  proof (cases "n < 10")
    case True
    then show ?thesis
      by (subst dec_nat.simps) (simp add: undec_def of_char_digit)
  next
    case False
    with "1.IH" have "undec (dec_nat (n div 10)) = n div 10" by simp
    with False show ?thesis
      by (subst dec_nat.simps) (simp add: undec_def of_char_digit)
  qed
qed

lemma dec_nat_inject [simp]: "dec_nat m = dec_nat n \<longleftrightarrow> m = n"
  by (metis undec_dec_nat)

lemma dec_nat_digits: "c \<in> set (dec_nat n) \<Longrightarrow> \<exists>d < 10. c = digit d"
proof (induction n rule: dec_nat.induct)
  case (1 n)
  then show ?case
    by (subst (asm) (2) dec_nat.simps)
      (auto split: if_splits intro: exI [of _ "n mod 10"])
qed

lemma length_dec_nat: "n < 10 ^ k \<Longrightarrow> 0 < k \<Longrightarrow> length (dec_nat n) \<le> k"
proof (induction n arbitrary: k rule: dec_nat.induct)
  case (1 n)
  show ?case
  proof (cases "n < 10")
    case True
    with "1.prems" show ?thesis by (subst dec_nat.simps) simp
  next
    case False
    from "1.prems" obtain j where k: "k = Suc j" by (cases k) auto
    with False "1.prems" have "0 < j" by (cases j) auto
    moreover from k "1.prems" have "n div 10 < 10 ^ j" by auto
    ultimately have "length (dec_nat (n div 10)) \<le> j" using False "1.IH" by simp
    with False k show ?thesis by (subst dec_nat.simps) simp
  qed
qed

lemma dec_nat_no_nul: "CHR 0x00 \<notin> set (dec_nat n)"
proof
  assume "CHR 0x00 \<in> set (dec_nat n)"
  then obtain d where "d < 10" "CHR 0x00 = digit d" using dec_nat_digits by blast
  with of_char_digit [of d] have "(of_char (CHR 0x00) :: nat) = 48 + d" by simp
  then show False by simp
qed

lemma dec_int_no_nul [simp]: "CHR 0x00 \<notin> set (dec_int x)"
  by (auto simp: dec_int_def dec_nat_no_nul)

lemma length_dec_int: "0 \<le> x \<Longrightarrow> x < 10 ^ k \<Longrightarrow> 0 < k \<Longrightarrow> length (dec_int x) \<le> k"
  using length_dec_nat [of "nat x" k] by (simp add: dec_int_def nat_less_iff)

end
