(* ===== verification/Pattern.thy ===== *)
theory Pattern
  imports Prelude
begin

section \<open>The pattern language of the log formatter\<close>

text \<open>
  \<open>LogFormatter::init\<close> of \<open>src/log.cpp\<close>: the scanning loop over the pattern that fills
  \<open>parse_tab\<close>, and the translation of that table into the vector of format items. The
  loop is kept as the code has it, with its index \<open>i\<close>, the index \<open>last_idx\<close> of the
  first character not yet accounted for, and the inner loop that looks for the closing brace.
  The indices are the code's \<open>int\<close>s, read as integers: that is exact for patterns shorter
  than \<open>2^31 - 3\<close> characters. A count handed to \<open>substr\<close> is converted to
  \<open>size_t\<close>, which matters because the code can pass \<open>-1\<close>.
\<close>

type_synonym entry = "string \<times> string \<times> int"

subsection \<open>The scanning loop\<close>

function brace_end :: "string \<Rightarrow> int \<Rightarrow> int" where
  "brace_end p idx =
     (if idx < int (length p) \<and> p ! nat idx \<noteq> CHR ''}'' then brace_end p (idx + 1) else idx)"
  by pat_completeness auto
termination
  by (relation "measure (\<lambda>(p, idx). nat (int (length p) - idx))") auto

declare brace_end.simps [simp del]

lemma brace_end_ge: "idx \<le> brace_end p idx"
proof (induction p idx rule: brace_end.induct)
  case (1 p idx)
  then show ?case by (subst brace_end.simps) auto
qed

text \<open>
  The text between the last accounted position and a percent sign, or the end of the pattern,
  becomes an entry.
\<close>

definition flush_text :: "string \<Rightarrow> int \<Rightarrow> int \<Rightarrow> entry list \<Rightarrow> entry list result" where
  "flush_text p last_idx i tab =
     (if last_idx \<noteq> i
      then rbind (substr p last_idx (i - last_idx)) (\<lambda>s. Inr (tab @ [(s, [], 0)]))
      else Inr tab)"

function parse_loop :: "string \<Rightarrow> int \<Rightarrow> int \<Rightarrow> entry list \<Rightarrow> (entry list \<times> int) result" where
  "parse_loop p i last_idx tab =
     (let len = int (length p) in
      if \<not> i < len then Inr (tab, last_idx)
      else if p ! nat i \<noteq> CHR ''%'' then parse_loop p (i + 1) last_idx tab
      else rbind (flush_text p last_idx i tab) (\<lambda>tab.
        if i + 1 \<ge> len then parse_loop p (i + 1) last_idx tab
        else if p ! nat (i + 1) = CHR ''%''
          then parse_loop p (i + 1) (i + 2) (tab @ [(''%'', [], 0)])
        else if i + 2 \<ge> len \<or> p ! nat (i + 2) \<noteq> CHR ''{''
          then parse_loop p (i + 1) (i + 2) (tab @ [([p ! nat (i + 1)], [], 1)])
        else (let idx = brace_end p (i + 3) in
          if idx \<ge> len then parse_loop p (i + 1) (i + 2) tab
          else rbind (substr p (i + 2 + 1) (idx - (i + 2) - 1)) (\<lambda>fmt.
            parse_loop p (idx + 1) (idx + 1) (tab @ [([p ! nat (i + 1)], fmt, 1)])))))"
  by pat_completeness auto
termination
  apply (relation "measure (\<lambda>(p, i, last_idx, tab). nat (int (length p) - i))")
       apply auto
  subgoal for p i using brace_end_ge [of "i + 3" p] by linarith
  done

declare parse_loop.simps [simp del]

definition parse_pattern :: "string \<Rightarrow> entry list result" where
  "parse_pattern p =
     rbind (parse_loop p 0 0 []) (\<lambda>(tab, last_idx). flush_text p last_idx (int (length p)) tab)"

subsection \<open>Format items\<close>

text \<open>One constructor per class derived from \<open>FormatItem\<close>; the two that keep their
  constructor's argument carry it.\<close>

datatype format_item =
    MessageFormatItem
  | LevelFormatItem
  | ElapseFormatItem
  | LogNameFormatItem
  | ThreadIdFormatItem
  | ThreadNameFormatItem
  | FiberIdFormatItem
  | DateTimeFormatItem string
  | FilenameFormatItem
  | LineFormatItem
  | NewLineFormatItem
  | TabFormatItem
  | StringFormatItem string

text \<open>The table \<open>s_format_items\<close> from codes to constructors.\<close>

definition s_format_items :: "(string \<times> (string \<Rightarrow> format_item)) list" where
  "s_format_items =
     [(''m'', \<lambda>fmt. MessageFormatItem),
      (''p'', \<lambda>fmt. LevelFormatItem),
      (''r'', \<lambda>fmt. ElapseFormatItem),
      (''c'', \<lambda>fmt. LogNameFormatItem),
      (''t'', \<lambda>fmt. ThreadIdFormatItem),
      (''N'', \<lambda>fmt. ThreadNameFormatItem),
      (''n'', \<lambda>fmt. NewLineFormatItem),
      (''d'', \<lambda>fmt. DateTimeFormatItem fmt),
      (''f'', \<lambda>fmt. FilenameFormatItem),
      (''l'', \<lambda>fmt. LineFormatItem),
      (''T'', \<lambda>fmt. TabFormatItem),
      (''F'', \<lambda>fmt. FiberIdFormatItem)]"

text \<open>The second loop of \<open>init\<close>: one item per entry, and the error flag.\<close>

fun init_items :: "entry list \<Rightarrow> format_item list \<Rightarrow> bool \<Rightarrow> format_item list \<times> bool" where
  "init_items [] items err = (items, err)"
| "init_items ((code, fmt, kind) # tab) items err =
     (if kind = 0 then init_items tab (items @ [StringFormatItem code]) err
      else (case map_of s_format_items code of
              None \<Rightarrow> init_items tab (items @ [StringFormatItem ''<error type>'']) True
            | Some mk \<Rightarrow> init_items tab (items @ [mk fmt]) err))"

record log_formatter =
  f_pattern :: string
  f_items :: "format_item list"
  f_isError :: bool

definition mk_formatter :: "string \<Rightarrow> log_formatter result" where
  "mk_formatter p =
     rbind (parse_pattern p) (\<lambda>tab.
       case init_items tab [] False of (items, err) \<Rightarrow>
         Inr \<lparr>f_pattern = p, f_items = items, f_isError = err\<rparr>)"

text \<open>The pattern every new logger gets.\<close>

definition default_pattern :: string where
  "default_pattern = ''%d{%Y-%m-%d %H:%M:%S}%T%t%T%F%T[%p]%T[%c]%T%f:%l%T%m%n''"

end
