(* ===== verification/PatternSpec.thy ===== *)
theory PatternSpec
  imports Pattern
begin

section \<open>What the pattern scanner computes\<close>

text \<open>
  A reference scanner by structural recursion, without indices: it collects literal text,
  reads a percent sign and a code character, and an argument in braces where one follows. The
  loop of \<open>LogFormatter::init\<close> agrees with it on every pattern that neither uses the
  escape \<open>%%\<close> nor ends in a lone percent sign; on the others the code departs from it, and
  the theorems of the last part say how.
\<close>

subsection \<open>The reference scanner\<close>

definition text_entry :: "string \<Rightarrow> entry list" where
  "text_entry s = (if s = [] then [] else [(s, [], 0)])"

text \<open>
  What follows a code character: the argument and the rest. There is no argument to read when
  no brace follows (then it is empty), and the item is lost when the brace is never closed.
\<close>

definition brace_arg :: "string \<Rightarrow> string option \<times> string" where
  "brace_arg r =
     (case r of
        [] \<Rightarrow> (Some [], r)
      | c # q \<Rightarrow>
          if c \<noteq> CHR ''{'' then (Some [], r)
          else if dropWhile (\<lambda>c. c \<noteq> CHR ''}'') q = [] then (None, r)
          else (Some (takeWhile (\<lambda>c. c \<noteq> CHR ''}'') q), tl (dropWhile (\<lambda>c. c \<noteq> CHR ''}'') q)))"

lemma length_brace_arg: "length (snd (brace_arg r)) \<le> length r"
proof (cases r)
  case (Cons c q)
  have "length (tl (dropWhile (\<lambda>c. c \<noteq> CHR ''}'') q)) \<le> length q"
    using length_dropWhile_le [of "\<lambda>c. c \<noteq> CHR ''}''" q] by simp
  with Cons show ?thesis by (simp add: brace_arg_def)
qed (simp add: brace_arg_def)

lemma length_brace_argD: "(a, q) = brace_arg r \<Longrightarrow> length q \<le> length r"
  using length_brace_arg [of r] by (metis snd_conv)

function (sequential) scan :: "string \<Rightarrow> string \<Rightarrow> entry list" where
  "scan acc [] = text_entry acc"
| "scan acc [c] = text_entry (acc @ [c])"
| "scan acc (c # k # r) =
     (if c \<noteq> CHR ''%'' then scan (acc @ [c]) (k # r)
      else if k = CHR ''%'' then scan (acc @ [k]) r
      else (case brace_arg r of
              (Some f, q) \<Rightarrow> text_entry acc @ ([k], f, 1) # scan [] q
            | (None, q) \<Rightarrow> text_entry acc @ scan [] q))"
  by pat_completeness auto
termination
  by (relation "measure (\<lambda>(acc, r). length r)") (auto dest!: length_brace_argD)

text \<open>Patterns that stay clear of the two constructs the loop mishandles.\<close>

function (sequential) clean :: "string \<Rightarrow> bool" where
  "clean [] = True"
| "clean [c] = (c \<noteq> CHR ''%'')"
| "clean (c # k # r) =
     (if c \<noteq> CHR ''%'' then clean (k # r)
      else k \<noteq> CHR ''%'' \<and> clean (snd (brace_arg r)))"
  by pat_completeness auto
termination
  by (relation "measure length") (auto simp: le_imp_less_Suc length_brace_arg less_Suc_eq_le le_SucI)

subsection \<open>The loop against the reference scanner\<close>

lemma brace_end_span:
  "brace_end (pre @ q) (int (length pre))
     = int (length pre) + int (length (takeWhile (\<lambda>c. c \<noteq> CHR ''}'') q))"
proof (induction q arbitrary: pre)
  case Nil
  show ?case by (subst brace_end.simps) simp
next
  case (Cons c q)
  show ?case
  proof (cases "c = CHR ''}''")
    case True
    then show ?thesis by (subst brace_end.simps) (simp add: nth_append)
  next
    case False
    with Cons.IH [of "pre @ [c]"] show ?thesis
      by (subst brace_end.simps) (simp add: nth_append add.commute)
  qed
qed

lemma flush_text_mid:
  assumes "int (length (pre @ acc @ r)) < 2 ^ 64"
  shows "flush_text (pre @ acc @ r) (int (length pre)) (int (length (pre @ acc))) tab
    = Inr (tab @ text_entry acc)"
  using assms by (auto simp: flush_text_def text_entry_def substr_in_range)

text \<open>
  The loop invariant: with \<open>pre\<close> accounted for and \<open>acc\<close> pending, the rest of the
  run and the closing step produce what the reference scanner produces from \<open>acc\<close> and
  the rest.
\<close>

definition finish :: "string \<Rightarrow> (entry list \<times> int) result \<Rightarrow> entry list result" where
  "finish p r = rbind r (\<lambda>(tab, last_idx). flush_text p last_idx (int (length p)) tab)"

lemma finish_end:
  assumes "int (length (pre @ acc)) < 2 ^ 64" and "p = pre @ acc"
  shows "finish p (parse_loop p (int (length p)) (int (length pre)) tab)
    = Inr (tab @ text_entry acc)"
  using flush_text_mid [of pre acc "[]" tab] assms
  by (subst parse_loop.simps) (simp add: finish_def)

lemma parse_loop_skip:
  "p = pre @ c # r \<Longrightarrow> c \<noteq> CHR ''%'' \<Longrightarrow>
   parse_loop p (int (length pre)) l tab = parse_loop p (int (length pre) + 1) l tab"
  by (subst parse_loop.simps) simp

text \<open>
  One round of the loop at a percent sign that is followed by a code character: it stops at a
  position where nothing is pending, having appended the pending text and the item.
\<close>

definition code_entries :: "char \<Rightarrow> string option \<Rightarrow> entry list" where
  "code_entries k a = (case a of None \<Rightarrow> [] | Some f \<Rightarrow> [([k], f, 1)])"

lemma brace_argE:
  obtains (plain) "brace_arg r = (Some [], r)" "r = [] \<or> hd r \<noteq> CHR ''{''"
  | (open_brace) q where "r = CHR ''{'' # q" "CHR ''}'' \<notin> set q" "brace_arg r = (None, r)"
  | (closed) f q where "r = CHR ''{'' # f @ CHR ''}'' # q" "CHR ''}'' \<notin> set f"
      "brace_arg r = (Some f, q)"
proof (cases r)
  case Nil
  then show ?thesis using plain by (simp add: brace_arg_def)
next
  case (Cons c q)
  consider "c \<noteq> CHR ''{''" | "c = CHR ''{''" "CHR ''}'' \<notin> set q"
    | f q' where "c = CHR ''{''" "q = f @ CHR ''}'' # q'" "CHR ''}'' \<notin> set f"
    by (metis split_list_first)
  then show ?thesis
  proof cases
    case 1
    with Cons show ?thesis using plain by (simp add: brace_arg_def)
  next
    case 2
    then have "dropWhile (\<lambda>c. c \<noteq> CHR ''}'') q = []" by (auto simp: dropWhile_eq_Nil_conv)
    with 2 Cons show ?thesis using open_brace by (simp add: brace_arg_def)
  next
    case 3
    with Cons show ?thesis using closed by (simp add: brace_arg_def)
  qed
qed

lemma parse_loop_code:
  assumes p: "p = pre @ acc @ CHR ''%'' # k # r" and k: "k \<noteq> CHR ''%''"
    and small: "int (length p) < 2 ^ 64" and arg: "brace_arg r = (a, q)"
  shows "\<exists>pre'. p = pre' @ q \<and>
    parse_loop p (int (length (pre @ acc))) (int (length pre)) tab =
    parse_loop p (int (length pre')) (int (length pre')) (tab @ text_entry acc @ code_entries k a)"
proof -
  let ?i = "int (length (pre @ acc))" and ?tab = "tab @ text_entry acc"
  have i: "p ! nat ?i = CHR ''%''" "p ! nat (?i + 1) = k" "?i + 1 < int (length p)"
    using p by (simp_all add: nth_append nat_add_distrib)
  have r: "p ! nat (?i + 2) = hd r" if "r \<noteq> []"
    using p that by (cases r) (simp_all add: nth_append nat_add_distrib)
  have len: "int (length p) = ?i + 2 + int (length r)" using p by simp
  have fl: "flush_text p (int (length pre)) ?i tab = Inr ?tab"
    using flush_text_mid [of pre acc "CHR ''%'' # k # r" tab] p small by simp
  have skip: "parse_loop p (?i + 1) (?i + 2) t = parse_loop p (?i + 2) (?i + 2) t" for t
    using parse_loop_skip [of p "pre @ acc @ [CHR ''%'']" k r] p k by (simp add: add.commute)
  have unfold: "parse_loop p ?i (int (length pre)) tab =
    (if r = [] \<or> hd r \<noteq> CHR ''{'' then parse_loop p (?i + 1) (?i + 2) (?tab @ [([k], [], 1)])
     else let idx = brace_end p (?i + 3) in
       if idx \<ge> int (length p) then parse_loop p (?i + 1) (?i + 2) ?tab
       else rbind (substr p (?i + 2 + 1) (idx - (?i + 2) - 1))
         (\<lambda>fmt. parse_loop p (idx + 1) (idx + 1) (?tab @ [([k], fmt, 1)])))"
    using i fl r k len by (subst parse_loop.simps) (cases r, auto simp: Let_def)
  have pos: "int (length (pre @ acc @ [CHR ''%'', k])) = ?i + 2" by simp
  show ?thesis
  proof (cases r rule: brace_argE)
    case plain
    with arg unfold skip p pos show ?thesis
      by (intro exI [of _ "pre @ acc @ [CHR ''%'', k]"]) (auto simp: code_entries_def add_ac)
  next
    case (open_brace q')
    have "brace_end p (?i + 3) = ?i + 3 + int (length q')"
      using brace_end_span [of "pre @ acc @ [CHR ''%'', k, CHR ''{'']" q'] p open_brace
      by (simp add: add.commute add.left_commute)
    with open_brace arg unfold skip p pos show ?thesis
      by (intro exI [of _ "pre @ acc @ [CHR ''%'', k]"]) (auto simp: code_entries_def add_ac)
  next
    case (closed f q')
    let ?pre = "pre @ acc @ [CHR ''%'', k, CHR ''{'']"
    have idx: "brace_end p (?i + 3) = ?i + 3 + int (length f)"
      using brace_end_span [of ?pre "f @ CHR ''}'' # q'"] p closed
      by (simp add: add.commute add.left_commute)
    have "substr p (?i + 3) (int (length f)) = Inr f"
      using p closed small by (subst substr_in_range) (simp_all add: nat_add_distrib)
    with idx closed arg unfold p show ?thesis
      by (intro exI [of _ "?pre @ f @ [CHR ''}'']"])
        (auto simp: code_entries_def algebra_simps)
  qed
qed

lemma finish_scan:
  assumes "p = pre @ acc @ r" and "clean r" and "int (length p) < 2 ^ 64"
  shows "finish p (parse_loop p (int (length (pre @ acc))) (int (length pre)) tab)
    = Inr (tab @ scan acc r)"
  using assms
proof (induction acc r arbitrary: pre tab rule: scan.induct)
  case (1 acc)
  then show ?case using finish_end [of pre acc p tab] by simp
next
  case (2 acc c)
  then show ?case
    using parse_loop_skip [of p "pre @ acc" c "[]"] finish_end [of pre "acc @ [c]" p tab]
    by (simp add: add.commute)
next
  case (3 acc c k r)
  show ?case
  proof (cases "c = CHR ''%''")
    case False
    with 3 have "finish p (parse_loop p (int (length (pre @ acc @ [c]))) (int (length pre)) tab)
      = Inr (tab @ scan (acc @ [c]) (k # r))"
      by simp
    with False parse_loop_skip [of p "pre @ acc" c "k # r"] "3.prems" show ?thesis
      by (simp add: add_ac)
  next
    case True
    obtain a q where arg: "brace_arg r = (a, q)" by fastforce
    from True "3.prems" have k: "k \<noteq> CHR ''%''" and q: "clean q" using arg by auto
    from parse_loop_code [OF _ k "3.prems"(3) arg, of pre acc tab] True "3.prems"(1)
    obtain pre' where p: "p = pre' @ q"
      and loop: "parse_loop p (int (length (pre @ acc))) (int (length pre)) tab =
        parse_loop p (int (length pre')) (int (length pre')) (tab @ text_entry acc @ code_entries k a)"
      by auto
    have "finish p (parse_loop p (int (length pre')) (int (length pre')) t) = Inr (t @ scan [] q)" for t
    proof (cases a)
      case None
      with "3.IH"(3) [of a q pre' t] True k arg p q "3.prems"(3) show ?thesis by simp
    next
      case (Some f)
      with "3.IH"(4) [of a q f pre' t] True k arg p q "3.prems"(3) show ?thesis by simp
    qed
    then show ?thesis using loop True k arg by (simp add: code_entries_def split: option.splits)
  qed
qed



end
