(* ===== verification/FormatterProps.thy ===== *)
theory FormatterProps
  imports PatternSpec
begin

section \<open>Theorems about the formatter's construction\<close>

text \<open>
  Construction never throws; patterns printed from a token list are parsed back to it; the
  items and the error flag are characterised entry by entry; and the two constructs the scanner
  mishandles, the escape \<open>%%\<close> and a trailing percent sign, are described exactly.
\<close>

subsection \<open>Construction never throws\<close>

lemma flush_text_total:
  "0 \<le> l \<Longrightarrow> l \<le> int (length p) \<Longrightarrow> \<exists>t. flush_text p l i tab = Inr t"
  using substr_total [of l p "i - l"] by (auto simp: flush_text_def)

lemma parse_loop_total:
  assumes "0 \<le> i" and "0 \<le> l" and "l \<le> int (length p)"
  shows "\<exists>t l'. parse_loop p i l tab = Inr (t, l') \<and> 0 \<le> l' \<and> l' \<le> int (length p)"
  using assms
proof (induction p i l tab rule: parse_loop.induct)
  case (1 p i l tab)
  note IH = "1.IH" [OF refl]
  let ?len = "int (length p)"
  show ?case
  proof (cases "i < ?len \<and> p ! nat i = CHR ''%''")
    case False
    with "1.prems" IH(1) show ?thesis by (subst parse_loop.simps) (auto simp: Let_def)
  next
    case True
    then have i: "\<not> \<not> i < ?len" "\<not> p ! nat i \<noteq> CHR ''%''" by auto
    obtain t where t: "flush_text p l i tab = Inr t"
      using flush_text_total "1.prems" by blast
    note IH' = IH(2-) [OF i t]
    have idx: "i + 3 \<le> brace_end p (i + 3)" by (rule brace_end_ge)
    obtain f where f: "\<not> ?len \<le> brace_end p (i + 3) \<Longrightarrow>
        substr p (i + 2 + 1) (brace_end p (i + 3) - (i + 2) - 1) = Inr f"
      using substr_total [of "i + 2 + 1" p] idx "1.prems" by fastforce
    show ?thesis
      using i t IH' f idx "1.prems" by (subst parse_loop.simps) (auto simp: Let_def)
  qed
qed

lemma parse_pattern_total: "\<exists>tab. parse_pattern p = Inr tab"
  using parse_loop_total [of 0 0 p "[]"] flush_text_total
  by (fastforce simp: parse_pattern_def)

subsection \<open>Items and the error flag\<close>

definition known_code :: "string \<Rightarrow> bool" where
  "known_code c \<longleftrightarrow> map_of s_format_items c \<noteq> None"

fun item_of_entry :: "entry \<Rightarrow> format_item" where
  "item_of_entry (code, fmt, kind) =
     (if kind = 0 then StringFormatItem code
      else (case map_of s_format_items code of
              None \<Rightarrow> StringFormatItem ''<error type>'' | Some mk \<Rightarrow> mk fmt))"

fun bad_entry :: "entry \<Rightarrow> bool" where
  "bad_entry (code, fmt, kind) \<longleftrightarrow> kind \<noteq> 0 \<and> \<not> known_code code"

lemma init_items_map:
  "init_items tab items err = (items @ map item_of_entry tab, err \<or> (\<exists>e \<in> set tab. bad_entry e))"
  by (induction tab items err rule: init_items.induct)
    (auto simp: known_code_def split: option.splits)

lemma mk_formatter_eq:
  "parse_pattern p = Inr tab \<Longrightarrow>
   mk_formatter p = Inr \<lparr>f_pattern = p, f_items = map item_of_entry tab,
     f_isError = (\<exists>e \<in> set tab. bad_entry e)\<rparr>"
  by (simp add: mk_formatter_def init_items_map)

lemma known_code_iff:
  "known_code [c] \<longleftrightarrow> c \<in> set ''mprctNndflTF''"
  by (auto simp: known_code_def s_format_items_def)


lemma mk_formatter_ok: "\<exists>f. mk_formatter p = Inr f \<and> f_pattern f = p"
  using parse_pattern_total [of p] mk_formatter_eq by fastforce

subsection \<open>Round trip: tokens, their pattern, and back\<close>

datatype token = Lit string | Code char string

fun show_tokens :: "token list \<Rightarrow> string" where
  "show_tokens [] = []"
| "show_tokens (Lit s # ts) = s @ show_tokens ts"
| "show_tokens (Code k f # ts) =
     CHR ''%'' # k # (if f = [] then [] else CHR ''{'' # f @ ''}'') @ show_tokens ts"

fun entry_of_token :: "token \<Rightarrow> entry" where
  "entry_of_token (Lit s) = (s, [], 0)"
| "entry_of_token (Code k f) = ([k], f, 1)"

text \<open>
  Token lists a pattern can express: literals are non-empty, hold no percent sign and are not
  adjacent; a code is not the percent sign, its argument holds no closing brace, and a code
  without argument is not followed by an opening brace.
\<close>

fun starts_lit :: "token list \<Rightarrow> bool" where
  "starts_lit (Lit s # ts) = True"
| "starts_lit _ = False"

fun wf_tokens :: "token list \<Rightarrow> bool" where
  "wf_tokens [] = True"
| "wf_tokens (Lit s # ts) = (s \<noteq> [] \<and> CHR ''%'' \<notin> set s \<and> \<not> starts_lit ts \<and> wf_tokens ts)"
| "wf_tokens (Code k f # ts) =
     (k \<noteq> CHR ''%'' \<and> CHR ''}'' \<notin> set f \<and> wf_tokens ts \<and>
      (f = [] \<longrightarrow> (case ts of Lit s # _ \<Rightarrow> hd s \<noteq> CHR ''{'' | _ \<Rightarrow> True)))"

lemma scan_char: "c \<noteq> CHR ''%'' \<Longrightarrow> scan acc (c # r) = scan (acc @ [c]) r"
  by (cases r) auto

lemma scan_literal: "CHR ''%'' \<notin> set s \<Longrightarrow> scan acc (s @ r) = scan (acc @ s) r"
  by (induction s arbitrary: acc) (auto simp: scan_char)

lemma clean_char: "c \<noteq> CHR ''%'' \<Longrightarrow> clean (c # r) = clean r"
  by (cases r) auto

lemma clean_literal: "CHR ''%'' \<notin> set s \<Longrightarrow> clean (s @ r) = clean r"
  by (induction s) (auto simp: clean_char)

lemma show_tokens_hd:
  "wf_tokens (Code k [] # ts) \<Longrightarrow> show_tokens ts = [] \<or> hd (show_tokens ts) \<noteq> CHR ''{''"
  by (cases ts rule: show_tokens.cases) auto

lemma brace_arg_tokens:
  "wf_tokens (Code k f # ts) \<Longrightarrow>
   brace_arg ((if f = [] then [] else CHR ''{'' # f @ ''}'') @ show_tokens ts) = (Some f, show_tokens ts)"
  using show_tokens_hd [of k ts]
  by (cases "show_tokens ts") (auto simp: brace_arg_def)

lemma scan_tokens:
  "wf_tokens ts \<Longrightarrow> acc = [] \<or> \<not> starts_lit ts \<Longrightarrow>
   scan acc (show_tokens ts) = text_entry acc @ map entry_of_token ts \<and> clean (show_tokens ts)"
proof (induction ts arbitrary: acc rule: show_tokens.induct)
  case (2 s ts)
  from "2.prems" have s: "acc = []" "s \<noteq> []" "CHR ''%'' \<notin> set s" "\<not> starts_lit ts" "wf_tokens ts"
    by auto
  with "2.IH" [of s] show ?case
    by (simp add: scan_literal clean_literal text_entry_def)
next
  case (3 k f ts)
  then have ts: "wf_tokens ts" "k \<noteq> CHR ''%''" by auto
  with "3.IH" [of "[]"] brace_arg_tokens [OF "3.prems"(1)] show ?case
    by (simp add: text_entry_def)
qed (simp add: text_entry_def)



subsection \<open>The two mishandled constructs\<close>

lemma parse_loop_literal:
  assumes "p = pre @ s @ r" and "CHR ''%'' \<notin> set s"
  shows "parse_loop p (int (length pre)) l tab = parse_loop p (int (length (pre @ s))) l tab"
  using assms
proof (induction s arbitrary: pre)
  case (Cons c s)
  then have "c \<noteq> CHR ''%''" by auto
  with Cons Cons.IH [of "pre @ [c]"] parse_loop_skip [of p pre c "s @ r"] show ?case
    by (simp add: add_ac)
qed simp

lemma parse_loop_end: "int (length p) \<le> i \<Longrightarrow> parse_loop p i l tab = Inr (tab, l)"
  by (subst parse_loop.simps) simp

text \<open>
  A percent sign at the end of a pattern duplicates the text before it: the text becomes an
  entry when the percent sign is met, and once more, with the percent sign, after the loop,
  because that path leaves \<open>last_idx\<close> behind.
\<close>

theorem trailing_percent_duplicates:
  assumes "s \<noteq> []" and "CHR ''%'' \<notin> set s" and "int (length s) + 1 < 2 ^ 64"
  shows "parse_pattern (s @ ''%'') = Inr [(s, [], 0), (s @ ''%'', [], 0)]"
proof -
  let ?p = "s @ ''%''"
  have fl: "flush_text ?p 0 (int (length s)) [] = Inr [(s, [], 0)]"
    using flush_text_mid [of "[]" s "''%''" "[]"] assms by (simp add: text_entry_def)
  have "parse_loop ?p 0 0 [] = parse_loop ?p (int (length s)) 0 []"
    using parse_loop_literal [of ?p "[]" s "''%''"] assms by simp
  also have "\<dots> = Inr ([(s, [], 0)], 0)"
    by (subst parse_loop.simps) (simp add: fl parse_loop_end)
  finally show ?thesis
    using flush_text_mid [of "[]" ?p "[]" "[(s, [], 0)]"] assms
    by (simp add: parse_pattern_def text_entry_def add.commute)
qed

lemma trailing_percent_duplicates_witness:
  "parse_pattern ''100%'' = Inr [(''100'', [], 0), (''100%'', [], 0)]"
  using trailing_percent_duplicates [of "''100''"] by simp

text \<open>
  The escape for a literal percent sign does not work inside a pattern. The loop does not step
  over the second percent sign, so it reads that one as the start of a code: the whole rest of the
  pattern becomes one literal (\<open>substr\<close> gets the count \<open>-1\<close>), the character after
  the escape is taken for a code, and the text after it appears a second time.
\<close>

theorem escaped_percent_misparsed:
  assumes "CHR ''%'' \<notin> set a" and "CHR ''%'' \<notin> set (c # b)" and "b = [] \<or> hd b \<noteq> CHR ''{''"
    and "int (length (a @ c # b)) + 2 < 2 ^ 64"
  shows "parse_pattern (a @ ''%%'' @ c # b) =
    Inr (text_entry a @ [(''%'', [], 0), (c # b, [], 0), ([c], [], 1)] @ text_entry b)"
proof -
  let ?p = "a @ ''%%'' @ c # b" and ?i = "int (length a)"
  let ?t = "text_entry a @ [(''%'', [], 0)]"
  let ?t' = "?t @ [(c # b, [], 0), ([c], [], 1)]"
  have fl: "flush_text ?p 0 ?i [] = Inr (text_entry a)"
    using flush_text_mid [of "[]" a "''%%'' @ c # b" "[]"] assms by simp
  have "substr ?p (?i + 2) (- 1) = Inr (c # b)"
    using assms(4) by (simp add: substr_def to_size_small to_size_minus_one nat_add_distrib)
  then have fl': "flush_text ?p (?i + 2) (?i + 1) ?t = Inr (?t @ [(c # b, [], 0)])"
    by (simp add: flush_text_def)
  have c: "c \<noteq> CHR ''%''" using assms(2) by auto
  have nth: "?p ! nat ?i = CHR ''%''" "?p ! nat (?i + 1) = CHR ''%''" "?p ! nat (?i + 2) = c"
    "b \<noteq> [] \<Longrightarrow> ?p ! nat (?i + 3) = hd b"
    by (cases b; simp add: nth_append nat_add_distrib)+
  have "parse_loop ?p 0 0 [] = parse_loop ?p ?i 0 []"
    using parse_loop_literal [of ?p "[]" a "''%%'' @ c # b"] assms by simp
  also have "\<dots> = parse_loop ?p (?i + 1) (?i + 2) ?t"
    using nth fl by (subst parse_loop.simps) simp
  also have "\<dots> = parse_loop ?p (?i + 2) (?i + 3) ?t'"
    using nth fl' c assms(2,3) by (subst parse_loop.simps) (cases b; simp add: Let_def add_ac)
  also have "\<dots> = Inr (?t', ?i + 3)"
    using parse_loop_literal [of ?p "a @ ''%%''" "c # b" "[]"] assms(2)
    by (simp add: parse_loop_end add_ac)
  finally show ?thesis
    using flush_text_mid [of "a @ ''%%'' @ [c]" b "[]" ?t'] assms
    by (simp add: parse_pattern_def add_ac)
qed

lemma escaped_percent_misparsed_witness:
  "parse_pattern ''a%%bc'' =
    Inr [(''a'', [], 0), (''%'', [], 0), (''bc'', [], 0), (''b'', [], 1), (''c'', [], 0)]"
  using escaped_percent_misparsed [of "''a''" "CHR ''b''" "''c''"] by (simp add: text_entry_def)

end
