(* ===== verification/LogLevel.thy ===== *)
theory LogLevel
  imports Prelude
begin

section \<open>Severity levels\<close>

text \<open>
  \<open>LogLevel\<close> of \<open>include/log.hpp\<close> and \<open>src/log.cpp\<close>: the enumeration, its order
  (the code compares the underlying integers), \<open>ToString\<close> and \<open>FromString\<close>.
  Beside the enumerators the program builds one more value of the type, the cast
  \<open>(LogLevel::Level)100\<close> with which the configuration listener switches a deleted logger
  off; it is the constructor \<open>LEVEL_100\<close>.
\<close>

datatype level = UNKNOW | DEBUG | INFO | WARN | ERROR | FATAL | LEVEL_100

fun level_code :: "level \<Rightarrow> int" where
  "level_code UNKNOW = 0"
| "level_code DEBUG = 1"
| "level_code INFO = 2"
| "level_code WARN = 3"
| "level_code ERROR = 4"
| "level_code FATAL = 5"
| "level_code LEVEL_100 = 100"

lemma level_code_inject [simp]: "level_code a = level_code b \<longleftrightarrow> a = b"
  by (cases a; cases b) simp_all

instantiation level :: linorder
begin

definition less_eq_level :: "level \<Rightarrow> level \<Rightarrow> bool" where
  "less_eq_level a b \<longleftrightarrow> level_code a \<le> level_code b"

definition less_level :: "level \<Rightarrow> level \<Rightarrow> bool" where
  "less_level a b \<longleftrightarrow> level_code a < level_code b"

instance
  by standard (auto simp: less_eq_level_def less_level_def)

end

text \<open>The enumerators: what \<open>FromString\<close> can return.\<close>

definition enumerators :: "level list" where
  "enumerators = [UNKNOW, DEBUG, INFO, WARN, ERROR, FATAL]"

fun level_to_string :: "level \<Rightarrow> string" where
  "level_to_string DEBUG = ''DEBUG''"
| "level_to_string INFO = ''INFO''"
| "level_to_string WARN = ''WARN''"
| "level_to_string ERROR = ''ERROR''"
| "level_to_string FATAL = ''FATAL''"
| "level_to_string _ = ''UNKNOW''"

definition level_from_string :: "string \<Rightarrow> level" where
  "level_from_string s =
     (let str = map toupper s
      in if str = ''DEBUG'' then DEBUG
         else if str = ''INFO'' then INFO
         else if str = ''WARN'' then WARN
         else if str = ''ERROR'' then ERROR
         else if str = ''FATAL'' then FATAL
         else UNKNOW)"

lemma unknow_least [simp]: "UNKNOW \<le> l"
  by (cases l) (simp_all add: less_eq_level_def)

lemma level_100_greatest [simp]: "l \<le> LEVEL_100"
  by (cases l) (simp_all add: less_eq_level_def)

lemma level_100_le_iff [simp]: "LEVEL_100 \<le> l \<longleftrightarrow> l = LEVEL_100"
  by (cases l) (simp_all add: less_eq_level_def)

lemma level_from_string_enumerator: "level_from_string s \<in> set enumerators"
  by (simp add: level_from_string_def enumerators_def Let_def)

lemma level_from_to_string: "l \<in> set enumerators \<Longrightarrow> level_from_string (level_to_string l) = l"
  by (auto simp: enumerators_def level_from_string_def toupper_def Let_def)

lemma level_from_string_case_insensitive:
  "level_from_string (map tolower s) = level_from_string s"
  by (simp add: level_from_string_def comp_def)

text \<open>
  The textual form of a level is read back as the same level, in any mixture of upper and
  lower case, and nothing a configuration can spell is the level that switches a logger off.
\<close>

theorem level_roundtrip:
  assumes "l \<in> set enumerators" and "map toupper s = level_to_string l"
  shows "level_from_string s = l \<and> level_from_string s < LEVEL_100"
proof -
  have "level_from_string s = level_from_string (map toupper s)"
    by (simp add: level_from_string_def comp_def)
  with assms have "level_from_string s = l"
    by (simp add: level_from_to_string)
  with assms(1) show ?thesis
    by (auto simp: enumerators_def less_level_def)
qed

lemma level_roundtrip_witness:
  "level_from_string ''Warn'' = WARN \<and> level_from_string ''Warn'' < LEVEL_100"
  by (rule level_roundtrip) (simp add: enumerators_def, code_simp)

end
