(* ===== verification/Format.thy ===== *)
theory Format
  imports FormatterProps LogLevel
begin

section \<open>Log events and their formatting\<close>

text \<open>
  \<open>LogEvent\<close>, the \<open>format\<close> method of every class derived from \<open>FormatItem\<close>, and
  \<open>LogFormatter::format\<close>, from \<open>include/log.hpp\<close> and \<open>src/log.cpp\<close>. The
  output streams are strings; an item returns what it appends. The environment supplies what the C
  library takes from the machine: the local broken-down time of a time stamp and the conversions of
  \<open>strftime\<close> that depend on the locale. The numeric conversions, which are the ones the
  program's patterns use, are written out.
\<close>

subsection \<open>Events\<close>

text \<open>A logger is an address of the logger heap; the event keeps the logger it was made for.\<close>

type_synonym lid = nat

record log_event =
  e_logger :: lid
  e_level :: level
  e_file :: string
  e_line :: i32
  e_elapse :: u32
  e_threadId :: u32
  e_fiberId :: u32
  e_time :: u64
  e_tname :: string
  e_content :: string

definition mk_event ::
  "lid \<Rightarrow> level \<Rightarrow> string \<Rightarrow> i32 \<Rightarrow> u32 \<Rightarrow> u32 \<Rightarrow> u32 \<Rightarrow> u64 \<Rightarrow> string \<Rightarrow> log_event" where
  "mk_event logger level file line elapse threadId fiberId time tname =
     \<lparr>e_logger = logger, e_level = level, e_file = file, e_line = line, e_elapse = elapse,
      e_threadId = threadId, e_fiberId = fiberId, e_time = time, e_tname = tname, e_content = []\<rparr>"

text \<open>Streaming into \<open>getSS()\<close>.\<close>

definition event_append :: "string \<Rightarrow> log_event \<Rightarrow> log_event" where
  "event_append s ev = ev\<lparr>e_content := e_content ev @ s\<rparr>"

text \<open>
  \<open>LogEvent::format\<close>: the argument is the outcome of \<open>vasprintf\<close> on the format and
  its arguments, \<open>None\<close> for the return value \<open>-1\<close>.
\<close>

definition event_format :: "string option \<Rightarrow> log_event \<Rightarrow> log_event" where
  "event_format formatted ev = (case formatted of None \<Rightarrow> ev | Some buf \<Rightarrow> event_append buf ev)"

subsection \<open>Time\<close>

record tm =
  tm_year :: int
  tm_mon :: int
  tm_mday :: int
  tm_hour :: int
  tm_min :: int
  tm_sec :: int

record c_locale =
  localtime_r :: "u64 \<Rightarrow> tm"
  lc_conversion :: "char \<Rightarrow> tm \<Rightarrow> string"

definition two_digits :: "int \<Rightarrow> string" where
  "two_digits x = (if 0 \<le> x \<and> x < 10 then ''0'' @ dec_int x else dec_int x)"

definition strftime_conv :: "c_locale \<Rightarrow> tm \<Rightarrow> char \<Rightarrow> string" where
  "strftime_conv lc t c =
     (if c = CHR ''Y'' then dec_int (tm_year t + 1900)
      else if c = CHR ''m'' then two_digits (tm_mon t + 1)
      else if c = CHR ''d'' then two_digits (tm_mday t)
      else if c = CHR ''H'' then two_digits (tm_hour t)
      else if c = CHR ''M'' then two_digits (tm_min t)
      else if c = CHR ''S'' then two_digits (tm_sec t)
      else if c = CHR ''%'' then ''%''
      else lc_conversion lc c t)"

fun strftime_text :: "c_locale \<Rightarrow> tm \<Rightarrow> string \<Rightarrow> string" where
  "strftime_text lc t [] = []"
| "strftime_text lc t [c] = (if c = CHR ''%'' then lc_conversion lc (CHR 0x00) t else [c])"
| "strftime_text lc t (c # k # r) =
     (if c = CHR ''%'' then strftime_conv lc t k @ strftime_text lc t r
      else c # strftime_text lc t (k # r))"

text \<open>
  \<open>strftime(buf, maxsize, format, tm)\<close> followed by the output of \<open>buf\<close>: the format is
  read as a C string; when the text and its terminator do not fit, \<open>strftime\<close> returns 0 and
  leaves the buffer indeterminate, so that printing it has no meaning. The code ignores the
  return value.
\<close>

definition c_str :: "string \<Rightarrow> string" where
  "c_str s = takeWhile (\<lambda>c. c \<noteq> CHR 0x00) s"

definition strftime_buf :: "c_locale \<Rightarrow> nat \<Rightarrow> string \<Rightarrow> tm \<Rightarrow> string result" where
  "strftime_buf lc maxsize format t =
     (let s = strftime_text lc t (c_str format)
      in if length s + 1 \<le> maxsize then Inr (c_str s)
         else Inl (Undefined ''indeterminate buffer printed''))"

subsection \<open>The format items\<close>

text \<open>
  The parameters are the name of the event's own logger (\<open>event->getLogger()->getName()\<close>),
  the level handed down the call chain, and the event. \<open>LineFormatItem\<close> prints the signed
  line number, the others unsigned numbers.
\<close>

fun item_format ::
  "c_locale \<Rightarrow> string \<Rightarrow> level \<Rightarrow> log_event \<Rightarrow> format_item \<Rightarrow> string result" where
  "item_format lc lname level ev MessageFormatItem = Inr (e_content ev)"
| "item_format lc lname level ev LevelFormatItem = Inr (level_to_string level)"
| "item_format lc lname level ev ElapseFormatItem = Inr (dec_nat (unat (e_elapse ev)))"
| "item_format lc lname level ev (StringFormatItem s) = Inr s"
| "item_format lc lname level ev LogNameFormatItem = Inr lname"
| "item_format lc lname level ev ThreadIdFormatItem = Inr (dec_nat (unat (e_threadId ev)))"
| "item_format lc lname level ev ThreadNameFormatItem = Inr (e_tname ev)"
| "item_format lc lname level ev FiberIdFormatItem = Inr (dec_nat (unat (e_fiberId ev)))"
| "item_format lc lname level ev (DateTimeFormatItem format) =
     strftime_buf lc 50 format (localtime_r lc (e_time ev))"
| "item_format lc lname level ev FilenameFormatItem = Inr (e_file ev)"
| "item_format lc lname level ev LineFormatItem = Inr (dec_int (sint (e_line ev)))"
| "item_format lc lname level ev NewLineFormatItem = Inr [CHR 0x0A]"
| "item_format lc lname level ev TabFormatItem = Inr [CHR 0x09]"

text \<open>\<open>LogFormatter::format\<close>: every item appends to the same string stream.\<close>

definition formatter_format ::
  "c_locale \<Rightarrow> string \<Rightarrow> level \<Rightarrow> log_event \<Rightarrow> log_formatter \<Rightarrow> string result" where
  "formatter_format lc lname level ev f =
     rfold (\<lambda>item ss. rbind (item_format lc lname level ev item) (\<lambda>s. Inr (ss @ s))) (f_items f) []"

subsection \<open>Lemmas\<close>

lemma rfold_output_append:
  "rfold (\<lambda>i ss. rbind (g i) (\<lambda>s. Inr (ss @ s))) is acc =
   rbind (rfold (\<lambda>i ss. rbind (g i) (\<lambda>s. Inr (ss @ s))) is []) (\<lambda>s. Inr (acc @ s))"
proof (induction "is" arbitrary: acc)
  case (Cons i "is")
  show ?case
  proof (cases "g i")
    case (Inr s)
    show ?thesis
      by (simp add: Inr) (subst (1 2) Cons.IH, simp add: rbind_assoc)
  qed simp
qed simp

lemma formatter_format_Cons:
  "formatter_format lc n l ev \<lparr>f_pattern = p, f_items = i # is, f_isError = e\<rparr> =
   rbind (item_format lc n l ev i) (\<lambda>s.
     rbind (formatter_format lc n l ev \<lparr>f_pattern = p, f_items = is, f_isError = e\<rparr>) (\<lambda>t. Inr (s @ t)))"
  by (cases "item_format lc n l ev i")
    (simp_all add: formatter_format_def, subst rfold_output_append, simp)

text \<open>The date items of a formatter decide whether its output is determinate.\<close>

definition dates_fit :: "c_locale \<Rightarrow> log_event \<Rightarrow> format_item list \<Rightarrow> bool" where
  "dates_fit lc ev items \<longleftrightarrow>
     (\<forall>fmt. DateTimeFormatItem fmt \<in> set items \<longrightarrow>
        length (strftime_text lc (localtime_r lc (e_time ev)) (c_str fmt)) < 50)"

fun item_text :: "c_locale \<Rightarrow> string \<Rightarrow> level \<Rightarrow> log_event \<Rightarrow> format_item \<Rightarrow> string" where
  "item_text lc n l ev (DateTimeFormatItem fmt) =
     c_str (strftime_text lc (localtime_r lc (e_time ev)) (c_str fmt))"
| "item_text lc n l ev i = (case item_format lc n l ev i of Inr s \<Rightarrow> s | Inl _ \<Rightarrow> [])"

lemma item_format_eq:
  "item_format lc n l ev i =
     (if dates_fit lc ev [i] then Inr (item_text lc n l ev i)
      else Inl (Undefined ''indeterminate buffer printed''))"
  by (cases i) (auto simp: dates_fit_def strftime_buf_def Let_def)

lemma rfold_items:
  "rfold (\<lambda>i ss. rbind (item_format lc n l ev i) (\<lambda>s. Inr (ss @ s))) is acc =
     (if dates_fit lc ev is then Inr (acc @ concat (map (item_text lc n l ev) is))
      else Inl (Undefined ''indeterminate buffer printed''))"
proof (induction "is" arbitrary: acc)
  case (Cons i "is")
  have "dates_fit lc ev (i # is) \<longleftrightarrow> dates_fit lc ev [i] \<and> dates_fit lc ev is"
    by (auto simp: dates_fit_def)
  with Cons show ?case by (auto simp: item_format_eq)
qed (simp add: dates_fit_def)

text \<open>
  C34: formatting an event succeeds exactly when every date item of the pattern expands to at
  most 49 characters (the code prints a 50-byte buffer without looking at the result of
  \<open>strftime\<close>), and its output is then the concatenation of the items' texts in pattern order.
\<close>

theorem formatter_format_eq:
  "formatter_format lc lname level ev f =
     (if dates_fit lc ev (f_items f)
      then Inr (concat (map (item_text lc lname level ev) (f_items f)))
      else Inl (Undefined ''indeterminate buffer printed''))"
  by (simp add: formatter_format_def rfold_items)

lemma formatter_format_total:
  "dates_fit lc ev (f_items f) \<Longrightarrow> \<exists>s. formatter_format lc n l ev f = Inr s"
  by (simp add: formatter_format_def rfold_items)

text \<open>
  The code \<open>%d\<close> without an argument prints nothing, in every locale and at every time:
  the table hands the constructor the empty argument of the pattern, so the default format of
  \<open>DateTimeFormatItem\<close> is never used.
\<close>

theorem plain_date_prints_nothing:
  "rbind (mk_formatter ''%d'') (formatter_format lc lname level ev) = Inr []"
proof -
  have "mk_formatter ''%d'' = Inr \<lparr>f_pattern = ''%d'', f_items = [DateTimeFormatItem []], f_isError = False\<rparr>"
    by code_simp
  then show ?thesis by (simp add: formatter_format_def strftime_buf_def c_str_def)
qed

lemma two_digits_no_nul [simp]: "CHR 0x00 \<notin> set (two_digits x)"
  by (auto simp: two_digits_def)

lemma length_two_digits: "0 \<le> x \<Longrightarrow> x < 100 \<Longrightarrow> length (two_digits x) \<le> 2"
  using length_dec_int [of x 2] length_dec_int [of x 1] by (auto simp: two_digits_def)

lemma c_str_no_nul: "CHR 0x00 \<notin> set s \<Longrightarrow> c_str s = s"
  by (simp add: c_str_def)

text \<open>The date and time of the default pattern.\<close>

definition stamp :: "tm \<Rightarrow> string" where
  "stamp t = dec_int (tm_year t + 1900) @ ''-'' @ two_digits (tm_mon t + 1) @ ''-'' @
     two_digits (tm_mday t) @ '' '' @ two_digits (tm_hour t) @ '':'' @ two_digits (tm_min t) @ '':'' @
     two_digits (tm_sec t)"

text \<open>Years up to 9999 and the ranges the C standard gives the other fields.\<close>

definition tm_in_range :: "tm \<Rightarrow> bool" where
  "tm_in_range t \<longleftrightarrow>
     -1900 \<le> tm_year t \<and> tm_year t < 8100 \<and> 0 \<le> tm_mon t \<and> tm_mon t < 12 \<and>
     0 < tm_mday t \<and> tm_mday t < 32 \<and> 0 \<le> tm_hour t \<and> tm_hour t < 24 \<and>
     0 \<le> tm_min t \<and> tm_min t < 60 \<and> 0 \<le> tm_sec t \<and> tm_sec t < 61"

lemma stamp_length:
  assumes "tm_in_range t" shows "length (stamp t) \<le> 19"
proof -
  have "length (dec_int (tm_year t + 1900)) \<le> 4"
    using assms by (intro length_dec_int) (simp_all add: tm_in_range_def)
  moreover have "length (two_digits (tm_mon t + 1)) \<le> 2" "length (two_digits (tm_mday t)) \<le> 2"
    "length (two_digits (tm_hour t)) \<le> 2" "length (two_digits (tm_min t)) \<le> 2"
    "length (two_digits (tm_sec t)) \<le> 2"
    using assms by (auto intro!: length_two_digits simp: tm_in_range_def)
  ultimately show ?thesis by (simp add: stamp_def)
qed

lemma default_stamp:
  assumes "tm_in_range t"
  shows "strftime_buf lc 50 ''%Y-%m-%d %H:%M:%S'' t = Inr (stamp t)"
proof -
  have body: "strftime_text lc t (c_str ''%Y-%m-%d %H:%M:%S'') = stamp t"
    by (simp add: c_str_def strftime_conv_def stamp_def)
  have "c_str (stamp t) = stamp t"
    by (rule c_str_no_nul) (simp add: stamp_def)
  with body stamp_length [OF assms] show ?thesis
    by (simp add: strftime_buf_def Let_def)
qed

text \<open>
  The pattern every logger starts with is free of errors and prints the documented record:
  local date and time, thread id, fiber id, level, logger name, file and line, message, each
  separated by a tab, and a newline.
\<close>

theorem default_pattern_output:
  assumes "tm_in_range (localtime_r lc (e_time ev))"
  shows "\<exists>f. mk_formatter default_pattern = Inr f \<and> \<not> f_isError f \<and>
    formatter_format lc lname level ev f = Inr
      (stamp (localtime_r lc (e_time ev)) @ [CHR 0x09] @ dec_nat (unat (e_threadId ev)) @ [CHR 0x09] @
       dec_nat (unat (e_fiberId ev)) @ [CHR 0x09] @ ''['' @ level_to_string level @ '']'' @ [CHR 0x09] @
       ''['' @ lname @ '']'' @ [CHR 0x09] @ e_file ev @ '':'' @ dec_int (sint (e_line ev)) @ [CHR 0x09] @
       e_content ev @ [CHR 0x0A])"
proof -
  have "mk_formatter default_pattern = Inr \<lparr>f_pattern = default_pattern, f_items =
      [DateTimeFormatItem ''%Y-%m-%d %H:%M:%S'', TabFormatItem, ThreadIdFormatItem, TabFormatItem,
       FiberIdFormatItem, TabFormatItem, StringFormatItem ''['', LevelFormatItem, StringFormatItem '']'',
       TabFormatItem, StringFormatItem ''['', LogNameFormatItem, StringFormatItem '']'', TabFormatItem,
       FilenameFormatItem, StringFormatItem '':'', LineFormatItem, TabFormatItem, MessageFormatItem,
       NewLineFormatItem], f_isError = False\<rparr>"
    by code_simp
  with assms show ?thesis by (simp add: formatter_format_def default_stamp)
qed

lemma default_pattern_output_witness:
  "\<exists>f. mk_formatter default_pattern = Inr f \<and> \<not> f_isError f \<and>
    formatter_format \<lparr>localtime_r = (\<lambda>_. \<lparr>tm_year = 124, tm_mon = 1, tm_mday = 29, tm_hour = 8,
        tm_min = 5, tm_sec = 9\<rparr>), lc_conversion = (\<lambda>_ _. [])\<rparr> ''root'' INFO
      (event_append ''hello'' (mk_event 0 INFO ''a.cpp'' 7 0 42 3 0 ''main'')) f = Inr
      (''2024-02-29 08:05:09'' @ [CHR 0x09] @ ''42'' @ [CHR 0x09, CHR ''3'', CHR 0x09] @ ''[INFO]'' @
       [CHR 0x09] @ ''[root]'' @ [CHR 0x09] @ ''a.cpp:7'' @ [CHR 0x09] @ ''hello'' @ [CHR 0x0A])"
proof -
  let ?lc = "\<lparr>localtime_r = (\<lambda>_. \<lparr>tm_year = 124, tm_mon = 1, tm_mday = 29, tm_hour = 8,
        tm_min = 5, tm_sec = 9\<rparr>), lc_conversion = (\<lambda>_ _. [])\<rparr>"
  let ?ev = "event_append ''hello'' (mk_event 0 INFO ''a.cpp'' 7 0 42 3 0 ''main'')"
  have "tm_in_range (localtime_r ?lc (e_time ?ev))" by (simp add: tm_in_range_def)
  note out = default_pattern_output [OF this, of "''root''" INFO]
  have eq: "stamp (localtime_r ?lc (e_time ?ev)) @ [CHR 0x09] @ dec_nat (unat (e_threadId ?ev)) @
      [CHR 0x09] @ dec_nat (unat (e_fiberId ?ev)) @ [CHR 0x09] @ ''['' @ level_to_string INFO @ '']'' @
      [CHR 0x09] @ ''['' @ ''root'' @ '']'' @ [CHR 0x09] @ e_file ?ev @ '':'' @
      dec_int (sint (e_line ?ev)) @ [CHR 0x09] @ e_content ?ev @ [CHR 0x0A] =
    ''2024-02-29 08:05:09'' @ [CHR 0x09] @ ''42'' @ [CHR 0x09, CHR ''3'', CHR 0x09] @ ''[INFO]'' @
       [CHR 0x09] @ ''[root]'' @ [CHR 0x09] @ ''a.cpp:7'' @ [CHR 0x09] @ ''hello'' @ [CHR 0x0A]"
    by code_simp
  show ?thesis by (rule out [unfolded eq])
qed

end
