(* ===== verification/Appender.thy ===== *)
theory Appender
  imports Format
begin

section \<open>Appenders, file streams and the file system\<close>

text \<open>
  \<open>LogAppender\<close>, \<open>StdoutAppender\<close> and \<open>FileAppender\<close> of
  \<open>include/log.hpp\<close> and \<open>src/log.cpp\<close>. A file appender keeps its
  \<open>std::ofstream\<close> open between calls and opens it again when the clock has moved on. The
  stream is modelled with the two facts the code depends on: whether its buffer is attached to a
  file, and whether its error state is set. The file system maps names to file objects, so that a
  file that was unlinked or renamed while open keeps receiving what the open stream writes. What is
  handed to a stream is taken as written: buffering is not modelled.
\<close>

subsection \<open>The environment of a call\<close>

text \<open>The clock (\<open>time(0)\<close>), which names can be opened, whether writing succeeds, and the locale.\<close>

record env =
  clock :: u64
  can_open :: "string \<Rightarrow> bool"
  disk_ok :: bool
  lc :: c_locale

subsection \<open>Files\<close>

record fsys =
  dir :: "string \<Rightarrow> nat option"
  inodes :: "nat \<Rightarrow> string"
  next_inode :: nat

definition empty_fs :: fsys where
  "empty_fs = \<lparr>dir = (\<lambda>_. None), inodes = (\<lambda>_. []), next_inode = 0\<rparr>"

text \<open>What other programs may do to a log file: remove or rename it.\<close>

definition fs_unlink :: "string \<Rightarrow> fsys \<Rightarrow> fsys" where
  "fs_unlink name fs = fs\<lparr>dir := (dir fs)(name := None)\<rparr>"

record ofstream =
  s_file :: "nat option"
  s_fail :: bool

definition new_ofstream :: ofstream where
  "new_ofstream = \<lparr>s_file = None, s_fail = False\<rparr>"

text \<open>\<open>close\<close> sets the error state when nothing is open, and never clears it.\<close>

definition ofstream_close :: "ofstream \<Rightarrow> ofstream" where
  "ofstream_close s =
     (case s_file s of None \<Rightarrow> s\<lparr>s_fail := True\<rparr> | Some _ \<Rightarrow> s\<lparr>s_file := None\<rparr>)"

text \<open>
  \<open>open(name, std::ios::app)\<close>: fails, setting the error state, when the stream's buffer is
  still attached or the system refuses; otherwise it clears the error state and creates the file when
  it does not exist.
\<close>

definition ofstream_open :: "env \<Rightarrow> string \<Rightarrow> fsys \<Rightarrow> ofstream \<Rightarrow> fsys \<times> ofstream" where
  "ofstream_open env name fs s =
     (if s_file s \<noteq> None \<or> \<not> can_open env name then (fs, s\<lparr>s_fail := True\<rparr>)
      else (case dir fs name of
              Some i \<Rightarrow> (fs, \<lparr>s_file = Some i, s_fail = False\<rparr>)
            | None \<Rightarrow>
                (let i = next_inode fs in
                 (fs\<lparr>dir := (dir fs)(name \<mapsto> i), inodes := (inodes fs)(i := []), next_inode := i + 1\<rparr>,
                  \<lparr>s_file = Some i, s_fail = False\<rparr>))))"

text \<open>Output: nothing happens in the error state; a failed write sets it.\<close>

definition ofstream_write :: "env \<Rightarrow> string \<Rightarrow> fsys \<Rightarrow> ofstream \<Rightarrow> fsys \<times> ofstream" where
  "ofstream_write env txt fs s =
     (if s_fail s then (fs, s)
      else (case s_file s of
              None \<Rightarrow> (fs, s\<lparr>s_fail := txt \<noteq> []\<rparr>)
            | Some i \<Rightarrow>
                if disk_ok env then (fs\<lparr>inodes := (inodes fs)(i := inodes fs i @ txt)\<rparr>, s)
                else (fs, s\<lparr>s_fail := True\<rparr>)))"

subsection \<open>The appender classes\<close>

record file_part =
  m_filename :: string
  m_filestream :: ofstream
  m_last_time :: u64

text \<open>
  The base class's fields, and the derived class's part: \<open>None\<close> for a
  \<open>StdoutAppender\<close>, \<open>Some\<close> for a \<open>FileAppender\<close>.
\<close>

record appender =
  a_level :: level
  a_formatter :: "log_formatter option"
  a_type :: int
  a_has_formatter :: bool
  a_file :: "file_part option"

definition new_stdout_appender :: appender where
  "new_stdout_appender =
     \<lparr>a_level = DEBUG, a_formatter = None, a_type = 2, a_has_formatter = False, a_file = None\<rparr>"

definition new_file_appender :: "string \<Rightarrow> appender" where
  "new_file_appender name =
     \<lparr>a_level = DEBUG, a_formatter = None, a_type = 1, a_has_formatter = False,
      a_file = Some \<lparr>m_filename = name, m_filestream = new_ofstream, m_last_time = 0\<rparr>\<rparr>"

definition app_set_level :: "level \<Rightarrow> appender \<Rightarrow> appender" where
  "app_set_level l a = a\<lparr>a_level := l\<rparr>"

definition app_getFileName :: "appender \<Rightarrow> string" where
  "app_getFileName a = (case a_file a of None \<Rightarrow> [] | Some fp \<Rightarrow> m_filename fp)"

text \<open>
  The two overloads of \<open>setFormatter\<close>: a formatter handed over as a pointer does not count
  as the appender's own. An invalid pattern prints a complaint, which is returned for the caller to
  put on the console, and is installed all the same.
\<close>

definition app_setFormatter_ptr :: "log_formatter option \<Rightarrow> appender \<Rightarrow> appender" where
  "app_setFormatter_ptr val a = a\<lparr>a_formatter := val\<rparr>"

definition app_setFormatter_str :: "string \<Rightarrow> appender \<Rightarrow> (string \<times> appender) result" where
  "app_setFormatter_str val a =
     rbind (mk_formatter val) (\<lambda>new_val.
       Inr (if f_isError new_val
            then ''LogAppender setFormatter value = '' @ val @ '' invalid formatter'' @ [CHR 0x0A]
            else [],
            a\<lparr>a_formatter := Some new_val, a_has_formatter := True\<rparr>))"

definition file_reopen :: "env \<Rightarrow> fsys \<Rightarrow> file_part \<Rightarrow> fsys \<times> file_part \<times> bool" where
  "file_reopen env fs fp =
     (let s = m_filestream fp;
          s' = (if \<not> s_fail s then ofstream_close s else s);
          (fs', s'') = ofstream_open env (m_filename fp) fs s'
      in (fs', fp\<lparr>m_filestream := s''\<rparr>, \<not> s_fail s''))"

text \<open>\<open>m_formatter->format(ptr, level, event)\<close>, for a call that passed the level test.\<close>

definition app_format :: "env \<Rightarrow> string option \<Rightarrow> level \<Rightarrow> log_event \<Rightarrow> appender \<Rightarrow> string result" where
  "app_format env lname level ev a =
     (case a_formatter a of
        None \<Rightarrow> Inl (NullDeref ''m_formatter'')
      | Some f \<Rightarrow>
          (case lname of
             Some n \<Rightarrow> formatter_format (lc env) n level ev f
           | None \<Rightarrow>
               if LogNameFormatItem \<in> set (f_items f) then Inl (NullDeref ''event->getLogger()'')
               else formatter_format (lc env) [] level ev f))"

text \<open>
  \<open>StdoutAppender::log\<close> and \<open>FileAppender::log\<close>. The result is the text for the console,
  the file system and the appender. \<open>lname\<close> is the name of the event's logger, \<open>None\<close>
  when the event has none.
\<close>

definition stdout_log ::
  "env \<Rightarrow> string option \<Rightarrow> level \<Rightarrow> log_event \<Rightarrow> appender \<Rightarrow> string result" where
  "stdout_log env lname level ev a =
     (if level \<ge> a_level a then app_format env lname level ev a else Inr [])"

definition file_log ::
  "env \<Rightarrow> string option \<Rightarrow> level \<Rightarrow> log_event \<Rightarrow> appender \<Rightarrow> file_part \<Rightarrow> fsys \<Rightarrow>
   (fsys \<times> file_part) result" where
  "file_log env lname level ev a fp fs =
     (if level \<ge> a_level a then
        (let now = clock env;
             (fs', fp') =
               (if now \<noteq> m_last_time fp
                then (let (fs1, fp1, _) = file_reopen env fs (fp\<lparr>m_last_time := now\<rparr>) in (fs1, fp1))
                else (fs, fp))
         in rbind (app_format env lname level ev a) (\<lambda>s.
              (let (fs'', st) = ofstream_write env s fs' (m_filestream fp')
               in Inr (fs'', fp'\<lparr>m_filestream := st\<rparr>))))
      else Inr (fs, fp))"

text \<open>The virtual call \<open>app->log(self, level, event)\<close>.\<close>

definition appender_log ::
  "env \<Rightarrow> string option \<Rightarrow> level \<Rightarrow> log_event \<Rightarrow> appender \<Rightarrow> fsys \<Rightarrow>
   (string \<times> fsys \<times> appender) result" where
  "appender_log env lname level ev a fs =
     (case a_file a of
        None \<Rightarrow> rbind (stdout_log env lname level ev a) (\<lambda>s. Inr (s, fs, a))
      | Some fp \<Rightarrow> rbind (file_log env lname level ev a fp fs)
          (\<lambda>(fs', fp'). Inr ([], fs', a\<lparr>a_file := Some fp'\<rparr>)))"

subsection \<open>Lemmas\<close>

text \<open>Once an appender has a formatter, its log call never dereferences a null pointer.\<close>

definition no_null :: "'a result \<Rightarrow> bool" where
  "no_null r \<longleftrightarrow> (\<forall>w. r \<noteq> Inl (NullDeref w))"

lemma no_null_Inr [simp]: "no_null (Inr x)"
  by (simp add: no_null_def)

lemma no_null_Undefined [simp]: "no_null (Inl (Undefined w))"
  by (simp add: no_null_def)

lemma no_null_rbind [intro]:
  "no_null r \<Longrightarrow> (\<And>x. r = Inr x \<Longrightarrow> no_null (f x)) \<Longrightarrow> no_null (rbind r f)"
  by (cases r) (auto simp: no_null_def)

lemma no_null_format [simp]: "no_null (formatter_format L n l ev f)"
  by (simp add: formatter_format_def rfold_items)

lemma no_null_app_format [simp]:
  "a_formatter a \<noteq> None \<Longrightarrow> no_null (app_format env (Some n) l ev a)"
  by (auto simp: app_format_def)

lemma no_null_appender_log:
  "a_formatter a \<noteq> None \<Longrightarrow> no_null (appender_log env (Some n) l ev a fs)"
  by (auto simp: appender_log_def stdout_log_def file_log_def Let_def rbind_assoc
      split: option.split prod.split intro!: no_null_rbind)

lemma file_reopen_keeps [simp]: "m_filename (fst (snd (file_reopen env fs fp))) = m_filename fp"
  by (simp add: file_reopen_def Let_def case_prod_unfold)

lemma file_log_keeps: "file_log env n l ev a fp fs = Inr (fs', fp') \<Longrightarrow> m_filename fp' = m_filename fp"
  by (auto simp: file_log_def result_simps Let_def case_prod_unfold split: if_splits)

lemma appender_log_keeps:
  "appender_log env n l ev a fs = Inr (s, fs', a') \<Longrightarrow>
   a_formatter a' = a_formatter a \<and> a_level a' = a_level a \<and> a_type a' = a_type a \<and>
   a_has_formatter a' = a_has_formatter a \<and> (a_file a' = None \<longleftrightarrow> a_file a = None) \<and>
   app_getFileName a' = app_getFileName a"
  by (auto simp: appender_log_def result_simps app_getFileName_def dest: file_log_keeps split: option.splits)

lemma appender_log_below:
  "l < a_level a \<Longrightarrow> appender_log env n l ev a fs = Inr ([], fs, a)"
  by (auto simp: appender_log_def stdout_log_def file_log_def split: option.split)

text \<open>The file a stream is attached to, when it can write.\<close>

definition writable :: "ofstream \<Rightarrow> nat option" where
  "writable s = (if s_fail s then None else s_file s)"

lemma file_reopen_ok:
  assumes "can_open env (m_filename fp)"
    and "s_file (m_filestream fp) = None \<or> \<not> s_fail (m_filestream fp)"
  obtains i fs' where "dir fs' (m_filename fp) = Some i"
    and "file_reopen env fs fp = (fs', fp\<lparr>m_filestream := \<lparr>s_file = Some i, s_fail = False\<rparr>\<rparr>, True)"
    and "\<forall>n. n \<noteq> m_filename fp \<longrightarrow> dir fs' n = dir fs n"
    and "inodes fs' i = (case dir fs (m_filename fp) of Some j \<Rightarrow> inodes fs j | None \<Rightarrow> [])"
    and "dir fs (m_filename fp) \<noteq> None \<longrightarrow> fs' = fs"
proof -
  let ?s = "if \<not> s_fail (m_filestream fp) then ofstream_close (m_filestream fp) else m_filestream fp"
  have detached: "s_file ?s = None"
    using assms by (auto simp: ofstream_close_def split: option.split)
  show ?thesis
  proof (cases "dir fs (m_filename fp)")
    case None
    with assms(1) detached show ?thesis
      by (intro that [of "fs\<lparr>dir := (dir fs)(m_filename fp \<mapsto> next_inode fs),
            inodes := (inodes fs)(next_inode fs := []), next_inode := next_inode fs + 1\<rparr>" "next_inode fs"])
        (simp_all add: file_reopen_def ofstream_open_def Let_def del: split_paired_All)
  next
    case (Some i)
    with assms(1) detached show ?thesis
      by (intro that [of fs i]) (simp_all add: file_reopen_def ofstream_open_def Let_def)
  qed
qed

text \<open>
  C37: a file appender survives log rotation. Whenever the clock has moved since its last record,
  the record is appended to the file that carries the configured name at that moment (created when
  it does not exist, also when the old file was unlinked or renamed while the appender had it open),
  provided opening and writing succeed and the stream is not stuck in an earlier error.
\<close>

theorem file_log_follows_name:
  assumes "l \<ge> a_level a" and "clock env \<noteq> m_last_time fp"
    and "can_open env (m_filename fp)" and "disk_ok env"
    and "s_file (m_filestream fp) = None \<or> \<not> s_fail (m_filestream fp)"
    and "app_format env n l ev a = Inr s"
  shows "\<exists>fs' fp' i. file_log env n l ev a fp fs = Inr (fs', fp') \<and>
    dir fs' (m_filename fp) = Some i \<and>
    inodes fs' i = (case dir fs (m_filename fp) of Some j \<Rightarrow> inodes fs j | None \<Rightarrow> []) @ s \<and>
    m_filestream fp' = \<lparr>s_file = Some i, s_fail = False\<rparr> \<and> m_last_time fp' = clock env \<and>
    (\<forall>m. m \<noteq> m_filename fp \<longrightarrow> dir fs' m = dir fs m)"
proof -
  let ?fp = "fp\<lparr>m_last_time := clock env\<rparr>"
  obtain i fs' where r: "dir fs' (m_filename ?fp) = Some i"
    "file_reopen env fs ?fp = (fs', ?fp\<lparr>m_filestream := \<lparr>s_file = Some i, s_fail = False\<rparr>\<rparr>, True)"
    "\<forall>n. n \<noteq> m_filename ?fp \<longrightarrow> dir fs' n = dir fs n"
    "inodes fs' i = (case dir fs (m_filename ?fp) of Some j \<Rightarrow> inodes fs j | None \<Rightarrow> [])"
    by (rule file_reopen_ok [of env ?fp fs]) (use assms in auto)
  with assms show ?thesis
    by (auto simp: file_log_def ofstream_write_def Let_def)
qed

text \<open>A small setting for the witnesses: a message-only formatter and an environment.\<close>

definition msg_formatter :: log_formatter where
  "msg_formatter = \<lparr>f_pattern = ''%m'', f_items = [MessageFormatItem], f_isError = False\<rparr>"

definition env_at :: "u64 \<Rightarrow> bool \<Rightarrow> env" where
  "env_at t ok = \<lparr>clock = t, can_open = (\<lambda>_. True), disk_ok = ok,
     lc = \<lparr>localtime_r = (\<lambda>_. \<lparr>tm_year = 124, tm_mon = 0, tm_mday = 1, tm_hour = 0, tm_min = 0,
       tm_sec = 0\<rparr>), lc_conversion = (\<lambda>_ _. [])\<rparr>\<rparr>"

definition msg_event :: "string \<Rightarrow> log_event" where
  "msg_event s = event_append s (mk_event 0 INFO ''a.cpp'' 1 0 1 0 0 ''main'')"

definition log_txt_part :: file_part where
  "log_txt_part = \<lparr>m_filename = ''log.txt'', m_filestream = new_ofstream, m_last_time = 0\<rparr>"

lemma app_format_msg [simp]:
  "app_format env (Some n) l (msg_event s) (new_file_appender f\<lparr>a_formatter := Some msg_formatter\<rparr>) = Inr s"
  by (simp add: app_format_def msg_formatter_def formatter_format_def msg_event_def event_append_def
      mk_event_def)

lemma file_log_follows_name_witness:
  "\<exists>fs' fp' i. file_log (env_at 5 True) (Some ''root'') INFO (msg_event ''hi'')
      (new_file_appender ''log.txt''\<lparr>a_formatter := Some msg_formatter\<rparr>) log_txt_part empty_fs =
        Inr (fs', fp') \<and> dir fs' ''log.txt'' = Some i \<and> inodes fs' i = ''hi''"
proof -
  let ?a = "new_file_appender ''log.txt''\<lparr>a_formatter := Some msg_formatter\<rparr>"
  have "a_level ?a \<le> INFO" by (simp add: new_file_appender_def less_eq_level_def)
  moreover have "clock (env_at 5 True) \<noteq> m_last_time log_txt_part"
    by (simp add: env_at_def log_txt_part_def)
  moreover have "can_open (env_at 5 True) (m_filename log_txt_part)" "disk_ok (env_at 5 True)"
    by (simp_all add: env_at_def)
  moreover have "s_file (m_filestream log_txt_part) = None \<or> \<not> s_fail (m_filestream log_txt_part)"
    by (simp add: log_txt_part_def new_ofstream_def)
  ultimately obtain fs' fp' i where
    "file_log (env_at 5 True) (Some ''root'') INFO (msg_event ''hi'') ?a log_txt_part empty_fs = Inr (fs', fp')"
    and "dir fs' (m_filename log_txt_part) = Some i"
    and "inodes fs' i =
      (case dir empty_fs (m_filename log_txt_part) of Some j \<Rightarrow> inodes empty_fs j | None \<Rightarrow> []) @ ''hi''"
    using file_log_follows_name [where a = ?a and l = INFO and env = "env_at 5 True" and
        fp = log_txt_part and n = "Some ''root''" and ev = "msg_event ''hi''" and s = "''hi''" and
        fs = empty_fs] app_format_msg by metis
  moreover have "m_filename log_txt_part = ''log.txt''" "dir empty_fs ''log.txt'' = None"
    by (simp_all add: log_txt_part_def empty_fs_def)
  ultimately show ?thesis by auto
qed

subsection \<open>A stream that is stuck\<close>

definition stuck :: "ofstream \<Rightarrow> bool" where
  "stuck s \<longleftrightarrow> s_fail s \<and> s_file s \<noteq> None"

lemma stuck_reopen:
  "stuck (m_filestream fp) \<Longrightarrow> file_reopen env fs fp = (fs, fp, False)"
  by (cases fp) (auto simp: file_reopen_def ofstream_open_def stuck_def Let_def)

lemma stuck_file_log:
  assumes "stuck (m_filestream fp)" and "file_log env n l ev a fp fs = Inr (fs', fp')"
  shows "fs' = fs \<and> stuck (m_filestream fp')"
proof (cases "l \<ge> a_level a")
  case True
  have "stuck (m_filestream (fp\<lparr>m_last_time := clock env\<rparr>))" using assms by simp
  note reopen = stuck_reopen [OF this, of env fs]
  from assms True reopen show ?thesis
    by (auto simp: file_log_def ofstream_write_def stuck_def Let_def result_simps split: if_splits)
next
  case False
  with assms show ?thesis by (simp add: file_log_def)
qed

lemma failed_write_sticks:
  assumes "l \<ge> a_level a" and "\<not> disk_ok env" and "writable (m_filestream fp) \<noteq> None"
    and "clock env = m_last_time fp"
    and "file_log env n l ev a fp fs = Inr (fs', fp')"
  shows "fs' = fs \<and> stuck (m_filestream fp')"
  using assms
  by (auto simp: file_log_def ofstream_write_def stuck_def writable_def Let_def result_simps
      split: if_splits option.splits)

text \<open>Calls of one appender, one after the other.\<close>

definition file_log_run ::
  "appender \<Rightarrow> (env \<times> string option \<times> level \<times> log_event) list \<Rightarrow> fsys \<times> file_part \<Rightarrow>
   (fsys \<times> file_part) result" where
  "file_log_run a calls =
     rfold (\<lambda>(env, n, l, ev) (fs, fp). file_log env n l ev a fp fs) calls"

text \<open>
  One failed write silences a file appender for good. The write sets the stream's error state
  while its buffer stays attached to the file; from then on \<open>reopen\<close> skips \<open>close\<close>
  (it closes only a good stream), so \<open>open\<close> fails on the attached buffer, and no later call,
  however often the clock advances and however healthy the disk is again, changes any file.
\<close>

theorem failed_write_silences:
  assumes "l \<ge> a_level a" and "\<not> disk_ok env" and "writable (m_filestream fp) \<noteq> None"
    and "clock env = m_last_time fp" and "file_log env n l ev a fp fs = Inr (fs1, fp1)"
    and "file_log_run a calls (fs1, fp1) = Inr (fs2, fp2)"
  shows "fs2 = fs"
proof -
  have "(\<lambda>(fs', fp'). fs' = fs \<and> stuck (m_filestream fp')) (fs2, fp2)"
    using assms(6) unfolding file_log_run_def
  proof (rule rfold_preserves)
    show "case (fs1, fp1) of (fs', fp') \<Rightarrow> fs' = fs \<and> stuck (m_filestream fp')"
      using failed_write_sticks [OF assms(1-5)] by simp
  qed (auto dest: stuck_file_log)
  then show ?thesis by simp
qed

lemma failed_write_silences_witness:
  "\<exists>fp1 fs2 fp2.
     file_log (env_at 5 False) (Some ''root'') INFO (msg_event ''lost'')
       (new_file_appender ''log.txt''\<lparr>a_formatter := Some msg_formatter\<rparr>)
       \<lparr>m_filename = ''log.txt'', m_filestream = \<lparr>s_file = Some 0, s_fail = False\<rparr>, m_last_time = 5\<rparr>
       empty_fs = Inr (empty_fs, fp1) \<and>
     file_log_run (new_file_appender ''log.txt''\<lparr>a_formatter := Some msg_formatter\<rparr>)
       [(env_at 6 True, Some ''root'', INFO, msg_event ''also lost'')] (empty_fs, fp1) = Inr (fs2, fp2) \<and>
     fs2 = empty_fs"
proof -
  let ?a = "new_file_appender ''log.txt''\<lparr>a_formatter := Some msg_formatter\<rparr>"
  let ?fp = "\<lparr>m_filename = ''log.txt'', m_filestream = \<lparr>s_file = Some 0, s_fail = False\<rparr>, m_last_time = 5\<rparr>"
  let ?fp1 = "\<lparr>m_filename = ''log.txt'', m_filestream = \<lparr>s_file = Some 0, s_fail = True\<rparr>, m_last_time = 5\<rparr>"
  have lvl: "a_level ?a \<le> INFO" by (simp add: new_file_appender_def less_eq_level_def)
  have one: "file_log (env_at 5 False) (Some ''root'') INFO (msg_event ''lost'') ?a ?fp empty_fs
      = Inr (empty_fs, ?fp1)"
    using lvl by (simp add: file_log_def ofstream_write_def) (simp add: env_at_def)
  obtain fp2 where two: "file_log_run ?a [(env_at 6 True, Some ''root'', INFO, msg_event ''also lost'')]
      (empty_fs, ?fp1) = Inr (empty_fs, fp2)"
    using lvl by (simp add: file_log_run_def file_log_def file_reopen_def ofstream_open_def
        ofstream_write_def Let_def env_at_def)
  have "\<not> disk_ok (env_at 5 False)" "writable (m_filestream ?fp) \<noteq> None"
    "clock (env_at 5 False) = m_last_time ?fp"
    by (simp_all add: env_at_def writable_def)
  with failed_write_silences [OF lvl _ _ _ one two] one two show ?thesis by blast
qed

end
