(* ===== verification/StdMap.thy ===== *)
theory StdMap
  imports Prelude
begin

section \<open>Ordered maps of the C++ library\<close>

text \<open>
  \<open>std::map\<close> as the program uses it: an association list in strictly increasing key
  order, so that iterating over the map visits the keys in the order the C++ container does.
  \<open>mput\<close> is \<open>m[k] = v\<close>, \<open>mdel\<close> is \<open>erase\<close>, \<open>mput_new\<close> is
  the insertion of \<open>std::set\<close>, which keeps an equivalent element that is already there;
  \<open>map_of\<close> is \<open>find\<close>. The interface the clients rely on is the locale
  \<open>ordered_map\<close>; its laws are discharged for these functions at the end.
\<close>

type_synonym ('k, 'v) stdmap = "('k \<times> 'v) list"

fun mput :: "'k::linorder \<Rightarrow> 'v \<Rightarrow> ('k, 'v) stdmap \<Rightarrow> ('k, 'v) stdmap" where
  "mput k v [] = [(k, v)]"
| "mput k v ((k', v') # m) =
     (if k < k' then (k, v) # (k', v') # m
      else if k = k' then (k, v) # m
      else (k', v') # mput k v m)"

fun mdel :: "'k::linorder \<Rightarrow> ('k, 'v) stdmap \<Rightarrow> ('k, 'v) stdmap" where
  "mdel k [] = []"
| "mdel k ((k', v') # m) = (if k = k' then m else (k', v') # mdel k m)"

definition mput_new :: "'k::linorder \<Rightarrow> 'v \<Rightarrow> ('k, 'v) stdmap \<Rightarrow> ('k, 'v) stdmap" where
  "mput_new k v m = (case map_of m k of None \<Rightarrow> mput k v m | Some _ \<Rightarrow> m)"

definition mwf :: "('k::linorder, 'v) stdmap \<Rightarrow> bool" where
  "mwf m \<longleftrightarrow> sorted_wrt (<) (map fst m)"

lemma mwf_Nil [simp]: "mwf []"
  by (simp add: mwf_def)

lemma mwf_Cons [simp]: "mwf ((k, v) # m) \<longleftrightarrow> (\<forall>x \<in> set m. k < fst x) \<and> mwf m"
  by (auto simp: mwf_def)

lemma mwf_distinct: "mwf m \<Longrightarrow> distinct (map fst m)"
  by (simp add: mwf_def strict_sorted_iff)

lemma keys_mput [simp]: "fst ` set (mput k v m) = insert k (fst ` set m)"
  by (induction k v m rule: mput.induct) auto

lemma mput_all_keys: "(\<forall>x \<in> set (mput k v m). P (fst x)) \<longleftrightarrow> P k \<and> (\<forall>x \<in> set m. P (fst x))"
  by (induction k v m rule: mput.induct) auto

lemma mwf_mput [simp, intro]: "mwf m \<Longrightarrow> mwf (mput k v m)"
  by (induction k v m rule: mput.induct) (auto simp: mput_all_keys)

lemma map_of_mput [simp]: "mwf m \<Longrightarrow> map_of (mput k v m) = (map_of m)(k \<mapsto> v)"
proof (induction k v m rule: mput.induct)
  case (2 k v k' v' m)
  then show ?case by (auto simp: fun_upd_twist fun_eq_iff)
qed simp

lemma mdel_subset: "set (mdel k m) \<subseteq> set m"
  by (induction k m rule: mdel.induct) auto

lemma mwf_mdel [simp, intro]: "mwf m \<Longrightarrow> mwf (mdel k m)"
proof (induction k m rule: mdel.induct)
  case (2 k k' v' m)
  then show ?case using mdel_subset [of k m] by auto
qed simp

lemma map_of_None_key: "\<forall>x \<in> set m. k < fst x \<Longrightarrow> map_of m k = None"
  for k :: "'k::linorder"
  by (force simp: map_of_eq_None_iff)

lemma map_of_mdel [simp]: "mwf m \<Longrightarrow> map_of (mdel k m) = (map_of m)(k := None)"
proof (induction k m rule: mdel.induct)
  case (2 k k' v' m)
  show ?case
  proof (cases "k = k'")
    case True
    with "2.prems" have "map_of m k = None" by (intro map_of_None_key) auto
    with True show ?thesis by (auto simp: fun_eq_iff)
  next
    case False
    with 2 show ?thesis by (auto simp: fun_eq_iff)
  qed
qed simp

lemma mwf_mput_new [simp, intro]: "mwf m \<Longrightarrow> mwf (mput_new k v m)"
  by (auto simp: mput_new_def split: option.split)

lemma map_of_mput_new:
  "mwf m \<Longrightarrow> map_of (mput_new k v m) =
     (map_of m)(k := (case map_of m k of None \<Rightarrow> Some v | Some w \<Rightarrow> Some w))"
  by (auto simp: mput_new_def fun_eq_iff split: option.split)

lemma mput_same [simp]: "mwf m \<Longrightarrow> map_of m k = Some v \<Longrightarrow> mput k v m = m"
proof (induction k v m rule: mput.induct)
  case (2 k v k' v' m)
  show ?case
  proof (cases "k < k'")
    case True
    with "2.prems" have "map_of m k = None" by (intro map_of_None_key) force
    with True "2.prems" show ?thesis by (auto split: if_splits)
  next
    case False
    with 2 show ?thesis by (auto split: if_splits)
  qed
qed simp

text \<open>
  Two well-formed maps with the same lookups are the same list: iteration order is determined
  by the contents.
\<close>

lemma stdmap_ext:
  fixes m n :: "('k::linorder, 'v) stdmap"
  assumes "mwf m" and "mwf n" and "map_of m = map_of n"
  shows "m = n"
proof -
  have keys: "sorted_list_of_set (dom (map_of l)) = map fst l" if "mwf l"
    for l :: "('k, 'v) stdmap"
    using that by (simp add: dom_map_of_conv_image_fst mwf_def
        sorted_list_of_set.idem_if_sorted_distinct strict_sorted_iff flip: set_map)
  have "map fst m = map fst n"
    using keys [OF assms(1)] keys [OF assms(2)] assms(3) by simp
  moreover have "l = map (\<lambda>k. (k, the (map_of l k))) (map fst l)" if "mwf l"
    for l :: "('k, 'v) stdmap"
    using mwf_distinct [OF that] by (auto simp: comp_def intro!: map_idI [symmetric])
  ultimately show ?thesis using assms by metis
qed

subsection \<open>The interface its clients rely on\<close>

locale ordered_map =
  fixes get :: "'m \<Rightarrow> 'k \<Rightarrow> 'v option"
    and put :: "'k \<Rightarrow> 'v \<Rightarrow> 'm \<Rightarrow> 'm"
    and del :: "'k \<Rightarrow> 'm \<Rightarrow> 'm"
    and ok :: "'m \<Rightarrow> bool"
  assumes get_put: "ok m \<Longrightarrow> get (put k v m) = (get m)(k \<mapsto> v)"
    and get_del: "ok m \<Longrightarrow> get (del k m) = (get m)(k := None)"
    and ok_put: "ok m \<Longrightarrow> ok (put k v m)"
    and ok_del: "ok m \<Longrightarrow> ok (del k m)"
    and ext: "ok m \<Longrightarrow> ok n \<Longrightarrow> get m = get n \<Longrightarrow> m = n"
begin

lemma put_del: "ok m \<Longrightarrow> get m k = None \<Longrightarrow> del k (put k v m) = m"
  by (rule ext) (auto simp: ok_del ok_put get_del get_put fun_eq_iff)

lemma put_put: "ok m \<Longrightarrow> put k w (put k v m) = put k w m"
  by (rule ext) (auto simp: ok_put get_put)

lemma put_commute: "ok m \<Longrightarrow> k \<noteq> l \<Longrightarrow> put k v (put l w m) = put l w (put k v m)"
  by (rule ext) (auto simp: ok_put get_put fun_upd_twist)

lemma del_del: "ok m \<Longrightarrow> del k (del k m) = del k m"
  by (rule ext) (auto simp: ok_del get_del)

lemma del_missing: "ok m \<Longrightarrow> get m k = None \<Longrightarrow> del k m = m"
  by (rule ext) (auto simp: ok_del get_del fun_eq_iff)

end

interpretation om: ordered_map map_of mput mdel mwf
  by unfold_locales (auto intro: stdmap_ext)

end
