(* ===== verification/Logger.thy ===== *)
theory Logger
  imports Appender StdMap
begin

section \<open>Loggers and the logger manager\<close>

text \<open>
  \<open>Logger\<close>, \<open>LoggerManager\<close>, the logging macros and \<open>LogEventWrap\<close> of
  \<open>include/log.hpp\<close> and \<open>src/log.cpp\<close>. Loggers and appenders are shared objects, so
  they live in two heaps and are named by their addresses; formatters are never changed after their
  construction and are kept by value. Each operation is one critical section of the code's mutexes
  (the lock discipline itself is in \<open>Sync\<close>).
\<close>

subsection \<open>State\<close>

type_synonym aid = nat

record logger =
  l_name :: string
  l_level :: level
  l_appenders :: "aid list"
  l_formatter :: "log_formatter option"
  l_root :: "lid option"

record log_sys =
  loggers :: "lid \<Rightarrow> logger option"
  appenders :: "aid \<Rightarrow> appender option"
  next_lid :: lid
  next_aid :: aid
  m_root :: lid
  m_loggers :: "(string, lid) stdmap"
  cout :: string
  fsys_of :: fsys

definition print :: "string \<Rightarrow> log_sys \<Rightarrow> log_sys" where
  "print s st = st\<lparr>cout := cout st @ s\<rparr>"

definition put_logger :: "lid \<Rightarrow> logger \<Rightarrow> log_sys \<Rightarrow> log_sys" where
  "put_logger l lg st = st\<lparr>loggers := (loggers st)(l \<mapsto> lg)\<rparr>"

definition put_appender :: "aid \<Rightarrow> appender \<Rightarrow> log_sys \<Rightarrow> log_sys" where
  "put_appender a ap st = st\<lparr>appenders := (appenders st)(a \<mapsto> ap)\<rparr>"

text \<open>A dereference of a pointer to a logger or an appender, followed by a use of the object.\<close>

definition with_logger :: "lid \<Rightarrow> log_sys \<Rightarrow> (logger \<Rightarrow> 'a result) \<Rightarrow> 'a result" where
  "with_logger l st k = (case loggers st l of None \<Rightarrow> Inl (NullDeref ''logger'') | Some lg \<Rightarrow> k lg)"

definition with_appender :: "aid \<Rightarrow> log_sys \<Rightarrow> (appender \<Rightarrow> 'a result) \<Rightarrow> 'a result" where
  "with_appender a st k = (case appenders st a of None \<Rightarrow> Inl (NullDeref ''appender'') | Some ap \<Rightarrow> k ap)"

subsection \<open>Allocation\<close>

definition new_logger :: "string \<Rightarrow> log_sys \<Rightarrow> (lid \<times> log_sys) result" where
  "new_logger name st =
     rbind (mk_formatter default_pattern) (\<lambda>f.
       let l = next_lid st;
           lg = \<lparr>l_name = name, l_level = DEBUG, l_appenders = [], l_formatter = Some f, l_root = None\<rparr>
       in Inr (l, put_logger l lg st\<lparr>next_lid := l + 1\<rparr>))"

definition new_appender :: "appender \<Rightarrow> log_sys \<Rightarrow> aid \<times> log_sys" where
  "new_appender ap st = (next_aid st, put_appender (next_aid st) ap st\<lparr>next_aid := next_aid st + 1\<rparr>)"

subsection \<open>Operations of a logger\<close>

definition addAppender :: "lid \<Rightarrow> aid \<Rightarrow> log_sys \<Rightarrow> log_sys result" where
  "addAppender l a st =
     with_logger l st (\<lambda>lg. with_appender a st (\<lambda>ap.
       let st' = (if a_formatter ap = None
                  then put_appender a (app_setFormatter_ptr (l_formatter lg) ap) st else st)
       in Inr (put_logger l (lg\<lparr>l_appenders := l_appenders lg @ [a]\<rparr>) st')))"

definition delAppender :: "lid \<Rightarrow> aid \<Rightarrow> log_sys \<Rightarrow> log_sys result" where
  "delAppender l a st =
     with_logger l st (\<lambda>lg. Inr (put_logger l (lg\<lparr>l_appenders := removeAll a (l_appenders lg)\<rparr>) st))"

definition clearAppender :: "lid \<Rightarrow> log_sys \<Rightarrow> log_sys result" where
  "clearAppender l st =
     with_logger l st (\<lambda>lg. Inr (put_logger l (lg\<lparr>l_appenders := []\<rparr>) st))"

text \<open>The loop of both overloads of \<open>Logger::setFormatter\<close> over the attached appenders.\<close>

definition inherit_formatter :: "log_formatter option \<Rightarrow> aid list \<Rightarrow> log_sys \<Rightarrow> log_sys result" where
  "inherit_formatter val =
     rfold (\<lambda>a st. with_appender a st (\<lambda>ap.
       Inr (if \<not> a_has_formatter ap then put_appender a (app_setFormatter_ptr val ap) st else st)))"

definition setFormatter_ptr :: "lid \<Rightarrow> log_formatter option \<Rightarrow> log_sys \<Rightarrow> log_sys result" where
  "setFormatter_ptr l val st =
     with_logger l st (\<lambda>lg.
       inherit_formatter val (l_appenders lg) (put_logger l (lg\<lparr>l_formatter := val\<rparr>) st))"

definition complaint :: "string \<Rightarrow> string \<Rightarrow> string" where
  "complaint name val =
     ''Logger setFormatter name = '' @ name @ '' value = '' @ val @ '' invalid formatter'' @ [CHR 0x0A]"

definition setFormatter_str :: "lid \<Rightarrow> string \<Rightarrow> log_sys \<Rightarrow> log_sys result" where
  "setFormatter_str l val st =
     rbind (mk_formatter val) (\<lambda>new_val.
       with_logger l st (\<lambda>lg.
         let st' = (if f_isError new_val
                    then print (complaint (l_name lg) val) st else st)
         in rbind (inherit_formatter (Some new_val) (l_appenders lg) st') (\<lambda>st''.
              Inr (put_logger l (lg\<lparr>l_formatter := Some new_val\<rparr>) st''))))"

definition logger_getFormatter :: "lid \<Rightarrow> log_sys \<Rightarrow> log_formatter option result" where
  "logger_getFormatter l st = with_logger l st (\<lambda>lg. Inr (l_formatter lg))"

definition logger_setLevel :: "lid \<Rightarrow> level \<Rightarrow> log_sys \<Rightarrow> log_sys result" where
  "logger_setLevel l lvl st =
     with_logger l st (\<lambda>lg. Inr (put_logger l (lg\<lparr>l_level := lvl\<rparr>) st))"

definition logger_getLevel :: "lid \<Rightarrow> log_sys \<Rightarrow> level result" where
  "logger_getLevel l st = with_logger l st (\<lambda>lg. Inr (l_level lg))"

text \<open>Calls on an appender held by a pointer.\<close>

definition appender_setLevel :: "aid \<Rightarrow> level \<Rightarrow> log_sys \<Rightarrow> log_sys result" where
  "appender_setLevel a lvl st =
     with_appender a st (\<lambda>ap. Inr (put_appender a (app_set_level lvl ap) st))"

definition appender_setFormatter_ptr :: "aid \<Rightarrow> log_formatter option \<Rightarrow> log_sys \<Rightarrow> log_sys result" where
  "appender_setFormatter_ptr a val st =
     with_appender a st (\<lambda>ap. Inr (put_appender a (app_setFormatter_ptr val ap) st))"

definition appender_setFormatter_str :: "aid \<Rightarrow> string \<Rightarrow> log_sys \<Rightarrow> log_sys result" where
  "appender_setFormatter_str a val st =
     with_appender a st (\<lambda>ap. rbind (app_setFormatter_str val ap) (\<lambda>(msg, ap').
       Inr (put_appender a ap' (print msg st))))"

subsection \<open>Logging\<close>

text \<open>The name \<open>event->getLogger()->getName()\<close>, \<open>None\<close> when the event has no logger.\<close>

definition event_lname :: "log_event \<Rightarrow> log_sys \<Rightarrow> string option" where
  "event_lname ev st = map_option l_name (loggers st (e_logger ev))"

definition log_to ::
  "env \<Rightarrow> level \<Rightarrow> log_event \<Rightarrow> aid \<Rightarrow> log_sys \<Rightarrow> log_sys result" where
  "log_to env level ev a st =
     with_appender a st (\<lambda>ap.
       rbind (appender_log env (event_lname ev st) level ev ap (fsys_of st)) (\<lambda>(s, fs', ap').
         Inr (put_appender a ap' (print s st\<lparr>fsys_of := fs'\<rparr>))))"

text \<open>
  \<open>Logger::log\<close>. A logger without appenders hands the event to its root logger; the chain of
  root pointers decides whether the call returns, so the result is \<open>None\<close> when it does not.
\<close>

partial_function (option) logger_log ::
  "env \<Rightarrow> lid \<Rightarrow> level \<Rightarrow> log_event \<Rightarrow> log_sys \<Rightarrow> log_sys result option" where
  "logger_log env l level ev st =
     (case loggers st l of
        None \<Rightarrow> Some (Inl (NullDeref ''logger''))
      | Some lg \<Rightarrow>
          if level \<ge> l_level lg then
            if l_appenders lg \<noteq> [] then Some (rfold (log_to env level ev) (l_appenders lg) st)
            else (case l_root lg of
                    None \<Rightarrow> Some (Inr st)
                  | Some r \<Rightarrow> logger_log env r level ev st)
          else Some (Inr st))"

definition logger_debug :: "env \<Rightarrow> lid \<Rightarrow> log_event \<Rightarrow> log_sys \<Rightarrow> log_sys result option" where
  "logger_debug env l ev st = logger_log env l DEBUG ev st"

definition logger_info :: "env \<Rightarrow> lid \<Rightarrow> log_event \<Rightarrow> log_sys \<Rightarrow> log_sys result option" where
  "logger_info env l ev st = logger_log env l INFO ev st"

definition logger_warn :: "env \<Rightarrow> lid \<Rightarrow> log_event \<Rightarrow> log_sys \<Rightarrow> log_sys result option" where
  "logger_warn env l ev st = logger_log env l WARN ev st"

definition logger_fatal :: "env \<Rightarrow> lid \<Rightarrow> log_event \<Rightarrow> log_sys \<Rightarrow> log_sys result option" where
  "logger_fatal env l ev st = logger_log env l FATAL ev st"

text \<open>The destructor of \<open>LogEventWrap\<close> logs the event it wraps.\<close>

definition wrap_destroy :: "env \<Rightarrow> log_event \<Rightarrow> log_sys \<Rightarrow> log_sys result option" where
  "wrap_destroy env ev st = logger_log env (e_logger ev) (e_level ev) ev st"

text \<open>Where a macro is used: the source position and the calling thread and fiber.\<close>

record call_site =
  c_file :: string
  c_line :: i32
  c_thread :: u32
  c_fiber :: u32
  c_tname :: string

definition macro_event :: "env \<Rightarrow> call_site \<Rightarrow> lid \<Rightarrow> level \<Rightarrow> log_event" where
  "macro_event env c l level =
     mk_event l level (c_file c) (c_line c) 0 (c_thread c) (c_fiber c) (clock env) (c_tname c)"

text \<open>
  \<open>YECC_LOG_LEVEL(logger, level) << msg\<close> and \<open>YECC_LOG_FMT_LEVEL(logger, level, fmt, ...)\<close>.
\<close>

definition YECC_LOG_LEVEL ::
  "env \<Rightarrow> call_site \<Rightarrow> lid \<Rightarrow> level \<Rightarrow> string \<Rightarrow> log_sys \<Rightarrow> log_sys result option" where
  "YECC_LOG_LEVEL env c l level msg st =
     (case loggers st l of
        None \<Rightarrow> Some (Inl (NullDeref ''logger''))
      | Some lg \<Rightarrow>
          if l_level lg \<le> level
          then wrap_destroy env (event_append msg (macro_event env c l level)) st
          else Some (Inr st))"

definition YECC_LOG_FMT_LEVEL ::
  "env \<Rightarrow> call_site \<Rightarrow> lid \<Rightarrow> level \<Rightarrow> string option \<Rightarrow> log_sys \<Rightarrow> log_sys result option" where
  "YECC_LOG_FMT_LEVEL env c l level formatted st =
     (case loggers st l of
        None \<Rightarrow> Some (Inl (NullDeref ''logger''))
      | Some lg \<Rightarrow>
          if l_level lg \<le> level
          then wrap_destroy env (event_format formatted (macro_event env c l level)) st
          else Some (Inr st))"

subsection \<open>The logger manager\<close>

text \<open>
  \<open>LoggerManager::LoggerManager\<close>, on a system with no logger and no appender yet:
  the root logger with a console appender. \<open>init\<close> is empty.
\<close>

definition empty_sys :: "fsys \<Rightarrow> log_sys" where
  "empty_sys fs = \<lparr>loggers = (\<lambda>_. None), appenders = (\<lambda>_. None), next_lid = 0, next_aid = 0,
     m_root = 0, m_loggers = [], cout = [], fsys_of = fs\<rparr>"

definition mk_LoggerManager :: "fsys \<Rightarrow> log_sys result" where
  "mk_LoggerManager fs =
     rbind (new_logger ''root'' (empty_sys fs)) (\<lambda>(l, st).
       let st = st\<lparr>m_root := l\<rparr>;
           (a, st) = new_appender new_stdout_appender st
       in addAppender l a st)"

definition getRoot :: "log_sys \<Rightarrow> lid" where
  "getRoot st = m_root st"

definition getLogger :: "string \<Rightarrow> log_sys \<Rightarrow> (lid \<times> log_sys) result" where
  "getLogger name st =
     (case map_of (m_loggers st) name of
        Some l \<Rightarrow> Inr (l, st)
      | None \<Rightarrow>
          rbind (new_logger name st) (\<lambda>(l, st').
            with_logger l st' (\<lambda>lg.
              let st'' = put_logger l (lg\<lparr>l_root := Some (m_root st')\<rparr>) st'
              in Inr (l, st''\<lparr>m_loggers := mput name l (m_loggers st'')\<rparr>))))"

text \<open>
  \<open>LoggerMgr::GetInstance()\<close>: the static of \<open>SingletonPtr\<close> is constructed by the first
  call and returned by all of them.
\<close>

definition LoggerMgr_GetInstance :: "fsys \<Rightarrow> log_sys option \<Rightarrow> log_sys result" where
  "LoggerMgr_GetInstance fs inst = (case inst of None \<Rightarrow> mk_LoggerManager fs | Some st \<Rightarrow> Inr st)"

text \<open>\<open>Singleton::GetInstance\<close>, with the static object of any class in place.\<close>

definition Singleton_GetInstance :: "'a \<Rightarrow> 'a option \<Rightarrow> 'a" where
  "Singleton_GetInstance fresh inst = (case inst of None \<Rightarrow> fresh | Some v \<Rightarrow> v)"

text \<open>
  \<open>YECC_ROOT_LOG\<close> and \<open>YECC_LOG_NAME(name)\<close>, with the manager as the static has it, and as it is
  afterwards.
\<close>

definition YECC_ROOT_LOG :: "fsys \<Rightarrow> log_sys option \<Rightarrow> (lid \<times> log_sys) result" where
  "YECC_ROOT_LOG fs inst = rbind (LoggerMgr_GetInstance fs inst) (\<lambda>st. Inr (getRoot st, st))"

definition YECC_LOG_NAME :: "string \<Rightarrow> fsys \<Rightarrow> log_sys option \<Rightarrow> (lid \<times> log_sys) result" where
  "YECC_LOG_NAME name fs inst = rbind (LoggerMgr_GetInstance fs inst) (getLogger name)"

end
