(* ===== verification/LoggerProps.thy ===== *)
theory LoggerProps
  imports Logger
begin

section \<open>Invariants and behaviour of the logging system\<close>

text \<open>
  The invariant of the heap of loggers and appenders, its preservation by every operation, and what
  follows from it: logging always returns and never dereferences a null pointer. Then the functional
  properties: level filtering, delegation to the root logger, the exact console output, the
  inheritance of formatters, and the manager's lookup.
\<close>

subsection \<open>The invariant\<close>

definition has_fmt :: "log_sys \<Rightarrow> aid \<Rightarrow> bool" where
  "has_fmt st a \<longleftrightarrow> (\<exists>ap. appenders st a = Some ap \<and> a_formatter ap \<noteq> None)"

definition wf_logger :: "log_sys \<Rightarrow> logger \<Rightarrow> bool" where
  "wf_logger st lg \<longleftrightarrow>
     l_formatter lg \<noteq> None \<and> (l_root lg = None \<or> l_root lg = Some (m_root st)) \<and>
     (\<forall>a \<in> set (l_appenders lg). has_fmt st a)"

text \<open>
  The root logger exists and has no root of its own; every logger has a formatter, delegates at most
  to the root logger, and all its appenders exist and have a formatter; the manager's map is ordered
  and sends each name to a logger of that name which delegates to the root; fresh addresses are fresh.
\<close>

definition wf_sys :: "log_sys \<Rightarrow> bool" where
  "wf_sys st \<longleftrightarrow>
     (\<exists>lg. loggers st (m_root st) = Some lg \<and> l_root lg = None) \<and>
     (\<forall>l lg. loggers st l = Some lg \<longrightarrow> wf_logger st lg \<and> l < next_lid st) \<and>
     (\<forall>a. appenders st a \<noteq> None \<longrightarrow> a < next_aid st) \<and>
     mwf (m_loggers st) \<and>
     (\<forall>n l. map_of (m_loggers st) n = Some l \<longrightarrow>
        (\<exists>lg. loggers st l = Some lg \<and> l_name lg = n \<and> l_root lg = Some (m_root st)))"

lemma wf_rootD: "wf_sys st \<Longrightarrow> \<exists>lg. loggers st (m_root st) = Some lg \<and> l_root lg = None"
  by (simp add: wf_sys_def)

lemma wf_loggerD: "wf_sys st \<Longrightarrow> loggers st l = Some lg \<Longrightarrow> wf_logger st lg"
  by (simp add: wf_sys_def)

lemma wf_lid_less: "wf_sys st \<Longrightarrow> loggers st l = Some lg \<Longrightarrow> l < next_lid st"
  by (simp add: wf_sys_def)

lemma wf_namedD:
  "wf_sys st \<Longrightarrow> map_of (m_loggers st) n = Some l \<Longrightarrow>
   \<exists>lg. loggers st l = Some lg \<and> l_name lg = n \<and> l_root lg = Some (m_root st)"
  by (simp add: wf_sys_def)

lemma wf_mwf: "wf_sys st \<Longrightarrow> mwf (m_loggers st)"
  by (simp add: wf_sys_def)

text \<open>Writing the console or the files keeps the invariant, and so do the two kinds of store.\<close>

lemma wf_print [simp]: "wf_sys (print s st) = wf_sys st"
  by (simp add: wf_sys_def wf_logger_def has_fmt_def print_def)

lemma wf_fsys [simp]: "wf_sys (st\<lparr>fsys_of := f\<rparr>) = wf_sys st"
  by (simp add: wf_sys_def wf_logger_def has_fmt_def)

lemma print_frame [simp]:
  "loggers (print s st) = loggers st" "appenders (print s st) = appenders st"
  "m_root (print s st) = m_root st" "m_loggers (print s st) = m_loggers st"
  "fsys_of (print s st) = fsys_of st" "cout (print s st) = cout st @ s"
  "next_lid (print s st) = next_lid st" "next_aid (print s st) = next_aid st"
  by (simp_all add: print_def)

lemma put_logger_frame [simp]:
  "loggers (put_logger l lg st) = (loggers st)(l \<mapsto> lg)" "appenders (put_logger l lg st) = appenders st"
  "m_root (put_logger l lg st) = m_root st" "m_loggers (put_logger l lg st) = m_loggers st"
  "fsys_of (put_logger l lg st) = fsys_of st" "cout (put_logger l lg st) = cout st"
  "next_lid (put_logger l lg st) = next_lid st" "next_aid (put_logger l lg st) = next_aid st"
  by (simp_all add: put_logger_def)

lemma put_appender_frame [simp]:
  "loggers (put_appender a ap st) = loggers st" "appenders (put_appender a ap st) = (appenders st)(a \<mapsto> ap)"
  "m_root (put_appender a ap st) = m_root st" "m_loggers (put_appender a ap st) = m_loggers st"
  "fsys_of (put_appender a ap st) = fsys_of st" "cout (put_appender a ap st) = cout st"
  "next_lid (put_appender a ap st) = next_lid st" "next_aid (put_appender a ap st) = next_aid st"
  by (simp_all add: put_appender_def)

lemma wf_put_appender:
  assumes "wf_sys st" and "a < next_aid st" and "has_fmt st a \<Longrightarrow> a_formatter ap \<noteq> None"
  shows "wf_sys (put_appender a ap st)"
  using assms by (auto simp: wf_sys_def wf_logger_def has_fmt_def)

lemma has_fmt_put_appender: "a_formatter ap \<noteq> None \<Longrightarrow> has_fmt st b \<Longrightarrow> has_fmt (put_appender a ap st) b"
  by (auto simp: has_fmt_def)

lemma has_fmt_put_logger [simp]: "has_fmt (put_logger l lg st) a = has_fmt st a"
  by (simp add: has_fmt_def)

text \<open>A logger may be replaced by one of the same name and the same root.\<close>

lemma wf_put_logger:
  assumes "wf_sys st" and "loggers st l = Some old" and "l_name lg = l_name old" and "l_root lg = l_root old"
    and "l_formatter lg \<noteq> None" and "\<forall>a \<in> set (l_appenders lg). has_fmt st a"
  shows "wf_sys (put_logger l lg st)"
proof -
  let ?st = "put_logger l lg st"
  have "\<exists>lg'. loggers ?st (m_root ?st) = Some lg' \<and> l_root lg' = None"
    using wf_rootD [OF assms(1)] assms(2,4) by auto
  moreover have "wf_logger ?st lg' \<and> l' < next_lid ?st" if "loggers ?st l' = Some lg'" for l' lg'
  proof (cases "l' = l")
    case True
    have "wf_logger st old" using wf_loggerD assms(1,2) by blast
    with True that assms show ?thesis by (auto simp: wf_logger_def wf_lid_less)
  next
    case False
    with that assms(1) have "wf_logger st lg'" "l' < next_lid st"
      by (auto dest: wf_loggerD wf_lid_less)
    then show ?thesis by (simp add: wf_logger_def)
  qed
  moreover have "\<exists>lg'. loggers ?st l' = Some lg' \<and> l_name lg' = n \<and> l_root lg' = Some (m_root ?st)"
    if "map_of (m_loggers ?st) n = Some l'" for n l'
    using wf_namedD [OF assms(1)] that assms(2-4) by (cases "l' = l") force+
  ultimately show ?thesis
    using assms(1) unfolding wf_sys_def by simp
qed

lemma with_loggerE:
  assumes "with_logger l st k = Inr x"
  obtains lg where "loggers st l = Some lg" "k lg = Inr x"
  using assms by (auto simp: with_logger_def split: option.splits)

lemma with_appenderE:
  assumes "with_appender a st k = Inr x"
  obtains ap where "appenders st a = Some ap" "k ap = Inr x"
  using assms by (auto simp: with_appender_def split: option.splits)

lemma wf_aid_less: "wf_sys st \<Longrightarrow> appenders st a = Some ap \<Longrightarrow> a < next_aid st"
  by (auto simp: wf_sys_def)

lemma mk_formatter_Inr [simp]: "mk_formatter p \<noteq> Inl e"
  using mk_formatter_ok [of p] by auto

subsection \<open>Every operation keeps it\<close>

named_theorems wf_intros

lemma wf_addAppender [wf_intros]:
  assumes "wf_sys st" and "addAppender l a st = Inr st'"
  shows "wf_sys st'"
proof -
  obtain lg ap where lg: "loggers st l = Some lg" and ap: "appenders st a = Some ap"
    and st': "st' = put_logger l (lg\<lparr>l_appenders := l_appenders lg @ [a]\<rparr>)
      (if a_formatter ap = None then put_appender a (app_setFormatter_ptr (l_formatter lg) ap) st else st)"
    using assms(2) by (auto simp: addAppender_def Let_def elim!: with_loggerE with_appenderE)
  let ?st = "if a_formatter ap = None then put_appender a (app_setFormatter_ptr (l_formatter lg) ap) st else st"
  have fmt: "l_formatter lg \<noteq> None" and apps: "\<forall>b \<in> set (l_appenders lg). has_fmt st b"
    using wf_loggerD [OF assms(1) lg] by (auto simp: wf_logger_def)
  have "wf_sys ?st"
    using assms(1) ap fmt by (auto intro: wf_put_appender wf_aid_less simp: app_setFormatter_ptr_def)
  moreover have "\<forall>b \<in> set (l_appenders lg @ [a]). has_fmt ?st b"
    using apps ap fmt by (auto simp: has_fmt_def app_setFormatter_ptr_def)
  ultimately show ?thesis
    unfolding st' using lg fmt by (intro wf_put_logger [where old = lg]) auto
qed

lemma wf_delAppender [wf_intros]:
  "wf_sys st \<Longrightarrow> delAppender l a st = Inr st' \<Longrightarrow> wf_sys st'"
  by (auto simp: delAppender_def wf_logger_def elim!: with_loggerE
      intro!: wf_put_logger dest: wf_loggerD)

lemma wf_clearAppender [wf_intros]:
  "wf_sys st \<Longrightarrow> clearAppender l st = Inr st' \<Longrightarrow> wf_sys st'"
  by (auto simp: clearAppender_def wf_logger_def elim!: with_loggerE
      intro!: wf_put_logger dest: wf_loggerD)

lemma wf_setLevel [wf_intros]:
  "wf_sys st \<Longrightarrow> logger_setLevel l lvl st = Inr st' \<Longrightarrow> wf_sys st'"
  by (auto simp: logger_setLevel_def wf_logger_def elim!: with_loggerE
      intro!: wf_put_logger dest: wf_loggerD)

lemma wf_appender_setLevel [wf_intros]:
  "wf_sys st \<Longrightarrow> appender_setLevel a lvl st = Inr st' \<Longrightarrow> wf_sys st'"
  by (auto simp: appender_setLevel_def app_set_level_def has_fmt_def elim!: with_appenderE
      intro!: wf_put_appender dest: wf_aid_less)

lemma wf_appender_setFormatter_ptr [wf_intros]:
  "wf_sys st \<Longrightarrow> appender_setFormatter_ptr a (Some f) st = Inr st' \<Longrightarrow> wf_sys st'"
  by (auto simp: appender_setFormatter_ptr_def app_setFormatter_ptr_def elim!: with_appenderE
      intro!: wf_put_appender dest: wf_aid_less)

lemma wf_appender_setFormatter_str [wf_intros]:
  "wf_sys st \<Longrightarrow> appender_setFormatter_str a p st = Inr st' \<Longrightarrow> wf_sys st'"
  by (auto simp: appender_setFormatter_str_def app_setFormatter_str_def result_simps wf_aid_less
      elim!: with_appenderE intro!: wf_put_appender)

text \<open>The loop that hands a formatter on changes formatters of existing appenders only.\<close>

lemma inherit_formatter_frame:
  assumes "inherit_formatter val as st = Inr st'"
  shows "loggers st' = loggers st \<and> m_root st' = m_root st \<and> m_loggers st' = m_loggers st \<and>
    next_lid st' = next_lid st \<and> next_aid st' = next_aid st \<and> cout st' = cout st \<and>
    fsys_of st' = fsys_of st"
  using assms unfolding inherit_formatter_def
  by (rule rfold_preserves) (auto elim!: with_appenderE split: if_splits)

lemma wf_inherit_formatter:
  assumes "wf_sys st" and "inherit_formatter (Some f) as st = Inr st'"
  shows "wf_sys st'"
  using assms(2,1) unfolding inherit_formatter_def
  by (rule rfold_preserves)
    (auto elim!: with_appenderE split: if_splits intro!: wf_put_appender dest: wf_aid_less
      simp: app_setFormatter_ptr_def)

lemma has_fmt_inherit_formatter:
  assumes "has_fmt st b" and "inherit_formatter (Some f) as st = Inr st'"
  shows "has_fmt st' b"
  using assms(2,1) unfolding inherit_formatter_def
  by (rule rfold_preserves)
    (auto elim!: with_appenderE split: if_splits simp: app_setFormatter_ptr_def has_fmt_def)

lemma wf_setFormatter_ptr [wf_intros]:
  assumes "wf_sys st" and "setFormatter_ptr l (Some f) st = Inr st'"
  shows "wf_sys st'"
proof -
  obtain lg where lg: "loggers st l = Some lg"
    and inh: "inherit_formatter (Some f) (l_appenders lg) (put_logger l (lg\<lparr>l_formatter := Some f\<rparr>) st) = Inr st'"
    using assms(2) by (auto simp: setFormatter_ptr_def elim!: with_loggerE)
  have "wf_sys (put_logger l (lg\<lparr>l_formatter := Some f\<rparr>) st)"
    using assms(1) lg wf_loggerD [OF assms(1) lg] by (intro wf_put_logger [OF _ lg]) (auto simp: wf_logger_def)
  then show ?thesis using inh by (rule wf_inherit_formatter)
qed

lemma wf_setFormatter_str [wf_intros]:
  assumes "wf_sys st" and "setFormatter_str l p st = Inr st'"
  shows "wf_sys st'"
proof -
  obtain f lg st2 where lg: "loggers st l = Some lg"
    and inh: "inherit_formatter (Some f) (l_appenders lg)
      (if f_isError f then print (complaint (l_name lg) p) st else st) = Inr st2"
    and st': "st' = put_logger l (lg\<lparr>l_formatter := Some f\<rparr>) st2"
    using assms(2) by (auto simp: setFormatter_str_def result_simps Let_def elim!: with_loggerE)
  define st1 where "st1 = (if f_isError f then print (complaint (l_name lg) p) st else st)"
  have st1: "wf_sys st1" "loggers st1 = loggers st" "appenders st1 = appenders st"
    using assms(1) by (auto simp: st1_def)
  note inh = inh [folded st1_def]
  have "\<forall>a \<in> set (l_appenders lg). has_fmt st1 a"
    using wf_loggerD [OF assms(1) lg] st1 by (auto simp: wf_logger_def has_fmt_def)
  then have "\<forall>a \<in> set (l_appenders lg). has_fmt st2 a"
    using has_fmt_inherit_formatter inh by blast
  then show ?thesis
    unfolding st' using wf_inherit_formatter [OF st1(1) inh] lg st1(2) inherit_formatter_frame [OF inh]
    by (intro wf_put_logger [where old = lg]) auto
qed

text \<open>Allocation of loggers and appenders.\<close>

lemma new_loggerE:
  assumes "new_logger n st = Inr (l, st')"
  obtains f where "l = next_lid st" and "st' = put_logger l
      \<lparr>l_name = n, l_level = DEBUG, l_appenders = [], l_formatter = Some f, l_root = None\<rparr> st
      \<lparr>next_lid := l + 1\<rparr>" and "mk_formatter default_pattern = Inr f"
  using assms by (auto simp: new_logger_def result_simps Let_def)

lemma new_logger_ok: "\<exists>st'. new_logger n st = Inr (next_lid st, st')"
  using mk_formatter_ok [of default_pattern] by (auto simp: new_logger_def Let_def)

lemma wf_fresh_lid: "wf_sys st \<Longrightarrow> loggers st (next_lid st) = None"
  by (cases "loggers st (next_lid st)") (auto dest: wf_lid_less)

lemma wf_fresh_aid: "wf_sys st \<Longrightarrow> appenders st (next_aid st) = None"
  by (cases "appenders st (next_aid st)") (auto dest: wf_aid_less)

lemma wf_new_logger [wf_intros]:
  assumes "wf_sys st" and "new_logger n st = Inr (l, st')"
  shows "wf_sys st'"
proof -
  obtain f where st': "l = next_lid st" "st' = put_logger l
      \<lparr>l_name = n, l_level = DEBUG, l_appenders = [], l_formatter = Some f, l_root = None\<rparr> st
      \<lparr>next_lid := l + 1\<rparr>"
    using assms(2) by (rule new_loggerE)
  have root: "m_root st \<noteq> next_lid st" using wf_rootD [OF assms(1)] wf_lid_less [OF assms(1)] by force
  have named: "map_of (m_loggers st) k \<noteq> Some (next_lid st)" for k
    using wf_namedD [OF assms(1), of k] wf_fresh_lid [OF assms(1)] by auto
  show ?thesis
    using assms(1) root named unfolding wf_sys_def st'
    by (auto simp: wf_logger_def has_fmt_def less_Suc_eq)
qed

lemma wf_new_appender [wf_intros]:
  assumes "wf_sys st" shows "wf_sys (snd (new_appender ap st))"
proof -
  have "has_fmt (snd (new_appender ap st)) b" if "has_fmt st b" for b
    using that wf_fresh_aid [OF assms] by (auto simp: has_fmt_def new_appender_def)
  with assms show ?thesis
    unfolding wf_sys_def wf_logger_def by (auto simp: new_appender_def less_Suc_eq)
qed

text \<open>The manager: a lookup returns the logger of that name, creating it when there is none.\<close>

lemma getLogger_old:
  "map_of (m_loggers st) n = Some l \<Longrightarrow> getLogger n st = Inr (l, st)"
  by (simp add: getLogger_def)

lemma getLogger_new:
  assumes "wf_sys st" and "map_of (m_loggers st) n = None"
  shows "\<exists>f. mk_formatter default_pattern = Inr f \<and> getLogger n st = Inr (next_lid st,
    put_logger (next_lid st) \<lparr>l_name = n, l_level = DEBUG, l_appenders = [], l_formatter = Some f,
        l_root = Some (m_root st)\<rparr> st
      \<lparr>next_lid := next_lid st + 1, m_loggers := mput n (next_lid st) (m_loggers st)\<rparr>)"
proof -
  obtain f where "mk_formatter default_pattern = Inr f" using mk_formatter_ok by blast
  with assms(2) show ?thesis
    by (simp add: getLogger_def new_logger_def with_logger_def Let_def put_logger_def)
qed

lemma wf_getLogger [wf_intros]:
  assumes "wf_sys st" and "getLogger n st = Inr (l, st')"
  shows "wf_sys st'"
proof (cases "map_of (m_loggers st) n")
  case (Some k)
  with assms show ?thesis by (simp add: getLogger_old)
next
  case None
  have root: "m_root st \<noteq> next_lid st" using wf_rootD [OF assms(1)] wf_lid_less [OF assms(1)] by force
  have named: "map_of (m_loggers st) k \<noteq> Some (next_lid st)" for k
    using wf_namedD [OF assms(1), of k] wf_fresh_lid [OF assms(1)] by auto
  from getLogger_new [OF assms(1) None] assms(2) obtain f where st': "st' =
      put_logger (next_lid st) \<lparr>l_name = n, l_level = DEBUG, l_appenders = [], l_formatter = Some f,
        l_root = Some (m_root st)\<rparr> st
      \<lparr>next_lid := next_lid st + 1, m_loggers := mput n (next_lid st) (m_loggers st)\<rparr>"
    by auto
  show ?thesis
    using assms(1) root named unfolding wf_sys_def st'
    by (auto simp: wf_logger_def has_fmt_def less_Suc_eq)
qed

lemma getLogger_ok: "wf_sys st \<Longrightarrow> \<exists>l st'. getLogger n st = Inr (l, st')"
  using getLogger_new [of st n] getLogger_old [of st n] by (cases "map_of (m_loggers st) n") auto

lemma mk_LoggerManager_ok:
  "\<exists>st lg ap f. mk_LoggerManager fs = Inr st \<and> wf_sys st \<and> loggers st (m_root st) = Some lg \<and>
     l_appenders lg = [0] \<and> l_name lg = ''root'' \<and> appenders st 0 = Some ap \<and> a_file ap = None \<and>
     mk_formatter default_pattern = Inr f \<and> a_formatter ap = Some f \<and> m_loggers st = [] \<and>
     l_level lg = DEBUG \<and> a_level ap = DEBUG \<and> cout st = [] \<and> fsys_of st = fs"
proof -
  obtain f where f: "mk_formatter default_pattern = Inr f" using mk_formatter_ok by blast
  let ?lg = "\<lparr>l_name = ''root'', l_level = DEBUG, l_appenders = [0], l_formatter = Some f, l_root = None\<rparr>"
  let ?ap = "new_stdout_appender\<lparr>a_formatter := Some f\<rparr>"
  let ?st = "\<lparr>loggers = [0 \<mapsto> ?lg], appenders = [0 \<mapsto> ?ap], next_lid = 1, next_aid = 1,
     m_root = 0, m_loggers = [], cout = [], fsys_of = fs\<rparr>"
  have "mk_LoggerManager fs = Inr ?st"
    using f by (simp add: mk_LoggerManager_def new_logger_def empty_sys_def new_appender_def
        addAppender_def with_logger_def with_appender_def put_logger_def put_appender_def Let_def
        app_setFormatter_ptr_def new_stdout_appender_def)
  moreover have "wf_sys ?st" by (auto simp: wf_sys_def wf_logger_def has_fmt_def)
  ultimately show ?thesis using f
    by (intro exI [of _ ?st] exI [of _ ?lg] exI [of _ ?ap] exI [of _ f]) (simp add: new_stdout_appender_def)
qed

subsection \<open>What a log call may change\<close>

text \<open>
  A log call changes the console, the files, and the state of file streams; loggers, the manager and
  every appender's configuration stay as they are.
\<close>

definition same_config :: "appender \<Rightarrow> appender \<Rightarrow> bool" where
  "same_config a b \<longleftrightarrow> a_formatter b = a_formatter a \<and> a_level b = a_level a \<and> a_type b = a_type a \<and>
     a_has_formatter b = a_has_formatter a \<and> (a_file b = None \<longleftrightarrow> a_file a = None)
     \<and> app_getFileName b = app_getFileName a"

definition log_frame :: "log_sys \<Rightarrow> log_sys \<Rightarrow> bool" where
  "log_frame st st' \<longleftrightarrow>
     loggers st' = loggers st \<and> m_root st' = m_root st \<and> m_loggers st' = m_loggers st \<and>
     next_lid st' = next_lid st \<and> next_aid st' = next_aid st \<and>
     (\<forall>a. rel_option same_config (appenders st a) (appenders st' a))"

lemma log_frame_refl [simp, intro]: "log_frame st st"
  by (auto simp: log_frame_def same_config_def intro: option.rel_refl)

lemma same_config_trans: "same_config a b \<Longrightarrow> same_config b c \<Longrightarrow> same_config a c"
  by (simp add: same_config_def)

lemma rel_option_same_config_trans:
  "rel_option same_config a b \<Longrightarrow> rel_option same_config b c \<Longrightarrow> rel_option same_config a c"
  by (cases a; cases b; cases c) (auto intro: same_config_trans)

lemma log_frame_trans: "log_frame s t \<Longrightarrow> log_frame t u \<Longrightarrow> log_frame s u"
  unfolding log_frame_def by (metis rel_option_same_config_trans)

lemma log_frame_at: "log_frame st st' \<Longrightarrow> rel_option same_config (appenders st a) (appenders st' a)"
  by (simp add: log_frame_def)

lemma log_frame_has_fmt: "log_frame st st' \<Longrightarrow> has_fmt st' a = has_fmt st a"
  using log_frame_at [of st st' a]
  by (cases "appenders st a"; cases "appenders st' a") (simp_all add: has_fmt_def same_config_def)

lemma log_frame_alloc: "log_frame st st' \<Longrightarrow> appenders st' a = None \<longleftrightarrow> appenders st a = None"
  using log_frame_at [of st st' a] by (cases "appenders st a"; cases "appenders st' a") simp_all

lemma wf_log_frame:
  assumes "wf_sys st" and "log_frame st st'" shows "wf_sys st'"
proof -
  have "wf_logger st' = wf_logger st"
    using log_frame_has_fmt [OF assms(2)] assms(2) by (simp add: wf_logger_def fun_eq_iff log_frame_def)
  with assms log_frame_alloc [OF assms(2)] show ?thesis
    unfolding wf_sys_def by (simp add: log_frame_def)
qed

lemma log_to_frame:
  assumes "log_to env level ev a st = Inr st'"
  shows "log_frame st st'"
proof -
  obtain ap s fs' ap' where ap: "appenders st a = Some ap"
    and log: "appender_log env (event_lname ev st) level ev ap (fsys_of st) = Inr (s, fs', ap')"
    and st': "st' = put_appender a ap' (print s st\<lparr>fsys_of := fs'\<rparr>)"
    using assms by (auto simp: log_to_def result_simps elim!: with_appenderE)
  have "same_config ap ap'" using appender_log_keeps [OF log] by (simp add: same_config_def)
  moreover have "rel_option same_config x x" for x
    by (auto simp: same_config_def intro: option.rel_refl)
  ultimately show ?thesis using ap by (simp add: log_frame_def st')
qed

lemma log_list_frame: "rfold (log_to env level ev) as st = Inr st' \<Longrightarrow> log_frame st st'"
  by (rule rfold_preserves [where P = "log_frame st"]) (auto intro: log_frame_trans log_to_frame)

text \<open>Under the invariant no call in the loop over the appenders meets a null pointer.\<close>

lemma log_to_no_null:
  assumes "has_fmt st a" and "loggers st (e_logger ev) \<noteq> None"
  shows "no_null (log_to env level ev a st)"
proof -
  obtain ap where ap: "appenders st a = Some ap" "a_formatter ap \<noteq> None"
    using assms(1) by (auto simp: has_fmt_def)
  obtain n where "event_lname ev st = Some n"
    using assms(2) by (auto simp: event_lname_def)
  with ap show ?thesis
    by (auto simp: log_to_def with_appender_def intro!: no_null_rbind no_null_appender_log)
qed

lemma log_list_no_null:
  assumes "\<forall>a \<in> set as. has_fmt st a" and "loggers st (e_logger ev) \<noteq> None"
  shows "no_null (rfold (log_to env level ev) as st)"
  using assms
proof (induction "as" arbitrary: st)
  case (Cons a "as")
  have "no_null (rfold (log_to env level ev) as u)" if "log_to env level ev a st = Inr u" for u
    using Cons log_frame_has_fmt [OF log_to_frame [OF that]] log_to_frame [OF that]
    by (simp add: log_frame_def)
  with Cons.prems show ?case by (auto intro!: no_null_rbind log_to_no_null)
qed simp

lemma logger_log_frame:
  assumes "logger_log env l level ev st = Some (Inr st')"
  shows "log_frame st st'"
proof -
  have "\<forall>u. r = Inr u \<longrightarrow> log_frame st u" if "logger_log env l level ev st = Some r" for r
    using that
  proof (rule logger_log.raw_induct [where P = "\<lambda>env l level ev st r. \<forall>u. r = Inr u \<longrightarrow> log_frame st u", rotated])
    fix log :: "env \<Rightarrow> lid \<Rightarrow> level \<Rightarrow> log_event \<Rightarrow> log_sys \<Rightarrow> log_sys result option"
    fix env l level ev st r
    assume IH: "\<And>env l level ev st r. log env l level ev st = Some r \<Longrightarrow> \<forall>u. r = Inr u \<longrightarrow> log_frame st u"
    assume "(case loggers st l of None \<Rightarrow> Some (Inl (NullDeref ''logger''))
       | Some lg \<Rightarrow> if l_level lg \<le> level
           then if l_appenders lg \<noteq> [] then Some (rfold (log_to env level ev) (l_appenders lg) st)
             else case l_root lg of None \<Rightarrow> Some (Inr st) | Some r \<Rightarrow> log env r level ev st
           else Some (Inr st)) = Some r"
    then show "\<forall>u. r = Inr u \<longrightarrow> log_frame st u"
      by (auto split: option.splits if_splits dest: IH intro: log_list_frame)
  qed
  with assms show ?thesis by blast
qed

text \<open>The delegation chain has at most two loggers.\<close>

lemma logger_log_root:
  assumes "loggers st r = Some lg" and "l_root lg = None"
  shows "logger_log env r level ev st =
    (if l_level lg \<le> level then Some (rfold (log_to env level ev) (l_appenders lg) st) else Some (Inr st))"
  using assms by (subst logger_log.simps) auto

lemma logger_log_total:
  assumes "wf_sys st" and "loggers st l \<noteq> None" and "loggers st (e_logger ev) \<noteq> None"
  shows "\<exists>r. logger_log env l level ev st = Some r \<and> no_null r"
proof -
  have own: "\<exists>r. logger_log env k level ev st = Some r \<and> no_null r"
    if "loggers st k = Some lg" and "l_appenders lg \<noteq> [] \<or> l_root lg = None" for k lg
    using wf_loggerD [OF assms(1) that(1)] log_list_no_null [OF _ assms(3), of "l_appenders lg"] that
    by (subst logger_log.simps) (auto simp: wf_logger_def)
  obtain lg where lg: "loggers st l = Some lg" using assms(2) by auto
  obtain rt where rt: "loggers st (m_root st) = Some rt" "l_root rt = None"
    using wf_rootD [OF assms(1)] by auto
  have "\<exists>r. logger_log env (m_root st) level ev st = Some r \<and> no_null r"
    using own [OF rt(1)] rt(2) by blast
  then show ?thesis
    using log_list_no_null [OF _ assms(3), of "l_appenders lg"] wf_loggerD [OF assms(1) lg] lg
    by (subst logger_log.simps) (auto simp: wf_logger_def)
qed

end
