(* ===== verification/LoggerThms.thy ===== *)
theory LoggerThms
  imports LoggerProps
begin

section \<open>Theorems about the logging system\<close>

text \<open>
  Reachable states of the logging system as the closure of the manager's initial state under the
  public operations, and the theorems about them. Formatters handed over by pointer are taken to be
  non-null, as everywhere in the code.
\<close>

subsection \<open>Reachable states\<close>

inductive log_step :: "log_sys \<Rightarrow> log_sys \<Rightarrow> bool" where
  step_new_stdout: "new_appender new_stdout_appender st = (a, st') \<Longrightarrow> log_step st st'"
| step_new_file: "new_appender (new_file_appender name) st = (a, st') \<Longrightarrow> log_step st st'"
| step_new_logger: "new_logger name st = Inr (l, st') \<Longrightarrow> log_step st st'"
| step_getLogger: "getLogger name st = Inr (l, st') \<Longrightarrow> log_step st st'"
| step_addAppender: "addAppender l a st = Inr st' \<Longrightarrow> log_step st st'"
| step_delAppender: "delAppender l a st = Inr st' \<Longrightarrow> log_step st st'"
| step_clearAppender: "clearAppender l st = Inr st' \<Longrightarrow> log_step st st'"
| step_setFormatter_ptr: "setFormatter_ptr l (Some f) st = Inr st' \<Longrightarrow> log_step st st'"
| step_setFormatter_str: "setFormatter_str l p st = Inr st' \<Longrightarrow> log_step st st'"
| step_setLevel: "logger_setLevel l lvl st = Inr st' \<Longrightarrow> log_step st st'"
| step_app_setLevel: "appender_setLevel a lvl st = Inr st' \<Longrightarrow> log_step st st'"
| step_app_setFormatter_ptr: "appender_setFormatter_ptr a (Some f) st = Inr st' \<Longrightarrow> log_step st st'"
| step_app_setFormatter_str: "appender_setFormatter_str a p st = Inr st' \<Longrightarrow> log_step st st'"
| step_log: "logger_log env l level ev st = Some (Inr st') \<Longrightarrow> log_step st st'"
| step_files: "log_step st (st\<lparr>fsys_of := fs\<rparr>)"

inductive log_reach :: "log_sys \<Rightarrow> bool" where
  reach_init: "mk_LoggerManager fs = Inr st \<Longrightarrow> log_reach st"
| reach_step: "log_reach st \<Longrightarrow> log_step st st' \<Longrightarrow> log_reach st'"

lemma log_step_wf: "log_step st st' \<Longrightarrow> wf_sys st \<Longrightarrow> wf_sys st'"
proof (induction rule: log_step.induct)
  case (step_log env l level ev st st')
  then show ?case using logger_log_frame wf_log_frame by blast
next
  case (step_new_stdout st a st')
  then show ?case using wf_new_appender [of st new_stdout_appender] by simp
next
  case (step_new_file name st a st')
  then show ?case using wf_new_appender [of st "new_file_appender name"] by simp
qed (auto intro: wf_intros)

lemma log_reach_wf: "log_reach st \<Longrightarrow> wf_sys st"
proof (induction rule: log_reach.induct)
  case (reach_init fs st)
  then show ?case using mk_LoggerManager_ok [of fs] by auto
qed (auto intro: log_step_wf)

text \<open>
  C20: in every state the public operations can reach, the root logger exists and has no root, every
  logger has a formatter and delegates at most to the root logger, every appender attached to a logger
  has a formatter, and the manager sends each name to a logger of that name.
\<close>

theorem reachable_invariant:
  assumes "log_reach st"
  shows "(\<exists>rt. loggers st (m_root st) = Some rt \<and> l_root rt = None) \<and>
    (\<forall>l lg. loggers st l = Some lg \<longrightarrow>
       l_formatter lg \<noteq> None \<and> (l_root lg = None \<or> l_root lg = Some (m_root st)) \<and>
       (\<forall>a \<in> set (l_appenders lg). \<exists>ap. appenders st a = Some ap \<and> a_formatter ap \<noteq> None)) \<and>
    (\<forall>n l. map_of (m_loggers st) n = Some l \<longrightarrow>
       (\<exists>lg. loggers st l = Some lg \<and> l_name lg = n \<and> l_root lg = Some (m_root st)))"
  using log_reach_wf [OF assms] unfolding wf_sys_def wf_logger_def has_fmt_def by blast

lemma reachable_invariant_witness:
  "\<exists>st rt. mk_LoggerManager empty_fs = Inr st \<and> loggers st (m_root st) = Some rt \<and> l_root rt = None"
proof -
  obtain st where st: "mk_LoggerManager empty_fs = Inr st" using mk_LoggerManager_ok by blast
  then have "log_reach st" by (rule reach_init)
  from reachable_invariant [OF this] st show ?thesis by blast
qed



subsection \<open>Filtering and output\<close>

text \<open>The text an appender puts on the console.\<close>

definition console_text :: "env \<Rightarrow> level \<Rightarrow> log_event \<Rightarrow> log_sys \<Rightarrow> aid \<Rightarrow> string" where
  "console_text env level ev st a =
     (case (appenders st a, event_lname ev st) of
        (Some ap, Some n) \<Rightarrow>
          (if a_file ap = None \<and> a_level ap \<le> level
           then (case a_formatter ap of
                   Some f \<Rightarrow> concat (map (item_text (lc env) n level ev) (f_items f)) | None \<Rightarrow> [])
           else [])
      | _ \<Rightarrow> [])"

definition fits :: "env \<Rightarrow> log_event \<Rightarrow> log_sys \<Rightarrow> aid \<Rightarrow> bool" where
  "fits env ev st a \<longleftrightarrow>
     (\<forall>ap f. appenders st a = Some ap \<longrightarrow> a_formatter ap = Some f \<longrightarrow> dates_fit (lc env) ev (f_items f))"

definition console_appender :: "log_sys \<Rightarrow> aid \<Rightarrow> bool" where
  "console_appender st a \<longleftrightarrow> (\<exists>ap. appenders st a = Some ap \<and> a_file ap = None \<and> a_formatter ap \<noteq> None)"

lemma console_appender_print [simp]: "console_appender (print s st) = console_appender st"
  by (simp add: console_appender_def fun_eq_iff)

lemma fits_print [simp]: "fits env ev (print s st) = fits env ev st"
  by (simp add: fits_def fun_eq_iff)

lemma event_lname_print [simp]: "event_lname ev (print s st) = event_lname ev st"
  by (simp add: event_lname_def)

lemma console_text_print [simp]: "console_text env level ev (print s st) = console_text env level ev st"
  by (simp add: console_text_def fun_eq_iff)

lemma print_print [simp]: "print t (print s st) = print (s @ t) st"
  by (simp add: print_def)

lemma print_Nil [simp]: "print [] st = st"
  by (simp add: print_def)

lemma log_to_console:
  assumes "console_appender st a" and "fits env ev st a" and "event_lname ev st = Some n"
  shows "log_to env level ev a st = Inr (print (console_text env level ev st a) st)"
proof -
  obtain ap f where ap: "appenders st a = Some ap" "a_file ap = None" "a_formatter ap = Some f"
    using assms(1) by (auto simp: console_appender_def)
  with assms(2) have fit: "dates_fit (lc env) ev (f_items f)" by (auto simp: fits_def)
  have same: "put_appender a ap (print s st\<lparr>fsys_of := fsys_of st\<rparr>) = print s st" for s
    using ap(1) by (cases st) (simp add: put_appender_def print_def fun_upd_idem)
  have "put_appender a ap st = st"
    using ap(1) by (cases st) (simp add: put_appender_def fun_upd_idem)
  with ap fit assms(3) same show ?thesis
    by (auto simp: log_to_def with_appender_def appender_log_def stdout_log_def app_format_def
        formatter_format_def rfold_items console_text_def not_le)
qed

lemma log_list_console:
  assumes "\<forall>a \<in> set as. console_appender st a \<and> fits env ev st a" and "event_lname ev st = Some n"
  shows "rfold (log_to env level ev) as st =
    Inr (print (concat (map (console_text env level ev st) as)) st)"
  using assms
proof (induction "as" arbitrary: st)
  case (Cons a "as")
  then have "log_to env level ev a st = Inr (print (console_text env level ev st a) st)"
    by (intro log_to_console) auto
  with Cons.IH [of "print (console_text env level ev st a) st"] Cons.prems show ?case by simp
qed simp

lemma logger_prints:
  assumes "loggers st l = Some lg" and "l_appenders lg \<noteq> []"
    and "\<forall>a \<in> set (l_appenders lg). console_appender st a \<and> fits env ev st a"
    and "event_lname ev st = Some n"
  shows "logger_log env l level ev st =
    (if level < l_level lg then Some (Inr st)
     else Some (Inr (print (concat (map (console_text env level ev st) (l_appenders lg))) st)))"
  using assms log_list_console [OF assms(3,4), of level]
  by (subst logger_log.simps) (auto simp: not_le)

text \<open>
  C15: what logging prints. A logger whose appenders all write to the console does nothing to events
  below its level; for the others it prints, appender by appender in the order they were added, the
  text of the appender's formatter if the appender's own level lets the event pass, and changes
  nothing else.
\<close>

theorem logger_console_output:
  assumes "loggers st l = Some lg" and "l_appenders lg \<noteq> []"
    and "\<forall>a \<in> set (l_appenders lg). console_appender st a \<and> fits env ev st a"
    and "event_lname ev st = Some n"
  shows "logger_log env l level ev st =
    (if level < l_level lg then Some (Inr st)
     else Some (Inr (print (concat (map (console_text env level ev st) (l_appenders lg))) st)))"
  using logger_prints [OF assms] .

text \<open>A concrete logger with a message-only console appender, for the witnesses.\<close>

definition demo_sys :: log_sys where
  "demo_sys =
     \<lparr>loggers = [0 \<mapsto> \<lparr>l_name = ''root'', l_level = INFO, l_appenders = [0], l_formatter = Some msg_formatter,
        l_root = None\<rparr>],
      appenders = [0 \<mapsto> new_stdout_appender\<lparr>a_formatter := Some msg_formatter\<rparr>],
      next_lid = 1, next_aid = 1, m_root = 0, m_loggers = [], cout = [], fsys_of = empty_fs\<rparr>"

lemma demo_sys_appender:
  "\<forall>a \<in> set [0]. console_appender demo_sys a \<and> fits env ev demo_sys a"
  by (simp add: console_appender_def fits_def demo_sys_def new_stdout_appender_def msg_formatter_def
      dates_fit_def)

lemma logger_console_output_witness:
  "logger_log (env_at 1 True) 0 WARN (msg_event ''x'') demo_sys = Some (Inr (print ''x'' demo_sys)) \<and>
   logger_log (env_at 1 True) 0 DEBUG (msg_event ''x'') demo_sys = Some (Inr demo_sys)"
proof -
  let ?lg = "\<lparr>l_name = ''root'', l_level = INFO, l_appenders = [0], l_formatter = Some msg_formatter,
    l_root = None\<rparr>"
  have lg: "loggers demo_sys 0 = Some ?lg" by (simp add: demo_sys_def)
  have app: "\<forall>a \<in> set (l_appenders ?lg). console_appender demo_sys a \<and>
      fits (env_at 1 True) (msg_event ''x'') demo_sys a"
    using demo_sys_appender by simp
  have n: "event_lname (msg_event ''x'') demo_sys = Some ''root''"
    by (simp add: event_lname_def msg_event_def event_append_def mk_event_def demo_sys_def)
  have "console_text (env_at 1 True) WARN (msg_event ''x'') demo_sys 0 = ''x''"
    by (simp add: console_text_def n, simp add: demo_sys_def new_stdout_appender_def msg_formatter_def
        less_eq_level_def msg_event_def event_append_def mk_event_def)
  with logger_console_output [OF lg _ app n] show ?thesis
    by (simp add: less_level_def)
qed

text \<open>
  The logging macros add nothing to \<open>Logger::log\<close>. For an existing logger,
  \<open>YECC_LOG_LEVEL\<close> with a streamed message, and the \<open>printf\<close> form with the text
  \<open>vasprintf\<close> made, are the call of \<open>log\<close> on the event they build: the test of the
  macro rejects no event that \<open>log\<close> would accept, and a failed \<open>vasprintf\<close> logs
  the empty message.
\<close>

theorem macro_is_log:
  assumes "loggers st l \<noteq> None"
  shows "YECC_LOG_LEVEL env c l level msg st =
      logger_log env l level (event_append msg (macro_event env c l level)) st \<and>
    YECC_LOG_FMT_LEVEL env c l level formatted st =
      YECC_LOG_LEVEL env c l level (case formatted of None \<Rightarrow> [] | Some s \<Rightarrow> s) st"
proof -
  obtain lg where lg: "loggers st l = Some lg" using assms by auto
  have "logger_log env l level ev st = Some (Inr st)" if "\<not> l_level lg \<le> level" for ev
    using lg that by (subst logger_log.simps) simp
  moreover have "e_logger (event_append s (macro_event env c l level)) = l"
    "e_level (event_append s (macro_event env c l level)) = level"
    "e_logger (macro_event env c l level) = l" "e_level (macro_event env c l level) = level" for s
    by (simp_all add: event_append_def macro_event_def mk_event_def)
  moreover have "event_append [] ev = ev" for ev
    by (simp add: event_append_def)
  ultimately show ?thesis
    using lg by (auto simp: YECC_LOG_LEVEL_def YECC_LOG_FMT_LEVEL_def wrap_destroy_def event_format_def
        split: option.split)
qed

lemma macro_is_log_witness:
  "YECC_LOG_LEVEL (env_at 1 True) \<lparr>c_file = ''a.cpp'', c_line = 1, c_thread = 1, c_fiber = 0, c_tname = ''t''\<rparr>
     0 WARN ''x'' demo_sys =
   logger_log (env_at 1 True) 0 WARN (event_append ''x'' (macro_event (env_at 1 True)
     \<lparr>c_file = ''a.cpp'', c_line = 1, c_thread = 1, c_fiber = 0, c_tname = ''t''\<rparr> 0 WARN)) demo_sys"
proof -
  have "loggers demo_sys 0 \<noteq> None" by (simp add: demo_sys_def)
  from macro_is_log [OF this] show ?thesis by blast
qed

subsection \<open>Delegation to the root logger\<close>

lemma logger_log_delegates:
  assumes "loggers st l = Some lg" and "l_appenders lg = []" and "l_root lg = Some r" and "l_level lg \<le> level"
  shows "logger_log env l level ev st = logger_log env r level ev st"
  using assms by (subst logger_log.simps) simp

text \<open>The record of the default pattern.\<close>

definition default_record :: "env \<Rightarrow> string \<Rightarrow> level \<Rightarrow> log_event \<Rightarrow> string" where
  "default_record env n level ev =
     stamp (localtime_r (lc env) (e_time ev)) @ [CHR 0x09] @ dec_nat (unat (e_threadId ev)) @ [CHR 0x09] @
     dec_nat (unat (e_fiberId ev)) @ [CHR 0x09] @ ''['' @ level_to_string level @ '']'' @ [CHR 0x09] @
     ''['' @ n @ '']'' @ [CHR 0x09] @ e_file ev @ '':'' @ dec_int (sint (e_line ev)) @ [CHR 0x09] @
     e_content ev @ [CHR 0x0A]"

lemma default_formatter:
  assumes "mk_formatter default_pattern = Inr f" and "tm_in_range (localtime_r (lc env) (e_time ev))"
  shows "dates_fit (lc env) ev (f_items f) \<and>
    concat (map (item_text (lc env) n level ev) (f_items f)) = default_record env n level ev"
proof -
  have "mk_formatter default_pattern = Inr \<lparr>f_pattern = default_pattern, f_items =
      [DateTimeFormatItem ''%Y-%m-%d %H:%M:%S'', TabFormatItem, ThreadIdFormatItem, TabFormatItem,
       FiberIdFormatItem, TabFormatItem, StringFormatItem ''['', LevelFormatItem, StringFormatItem '']'',
       TabFormatItem, StringFormatItem ''['', LogNameFormatItem, StringFormatItem '']'', TabFormatItem,
       FilenameFormatItem, StringFormatItem '':'', LineFormatItem, TabFormatItem, MessageFormatItem,
       NewLineFormatItem], f_isError = False\<rparr>"
    by code_simp
  with assms(1) have items: "f_items f =
      [DateTimeFormatItem ''%Y-%m-%d %H:%M:%S'', TabFormatItem, ThreadIdFormatItem, TabFormatItem,
       FiberIdFormatItem, TabFormatItem, StringFormatItem ''['', LevelFormatItem, StringFormatItem '']'',
       TabFormatItem, StringFormatItem ''['', LogNameFormatItem, StringFormatItem '']'', TabFormatItem,
       FilenameFormatItem, StringFormatItem '':'', LineFormatItem, TabFormatItem, MessageFormatItem,
       NewLineFormatItem]" by auto
  have "formatter_format (lc env) n level ev f = Inr (default_record env n level ev)"
    using default_stamp [OF assms(2)] by (simp add: formatter_format_def items default_record_def)
  then show ?thesis
    by (auto simp: formatter_format_def rfold_items split: if_splits)
qed

text \<open>
  C16: a logger fresh from the manager logs through the root logger under its own name. After the
  manager is constructed, \<open>getLogger\<close> of any name and a logging macro on the logger it returns
  print, for every level from \<open>DEBUG\<close> up, exactly one record of the default pattern on the console,
  with the name that was asked for (not \<open>root\<close>), and change nothing else.
\<close>

theorem fresh_logger_logs_through_root:
  assumes "mk_LoggerManager fs = Inr st0" and "getLogger n st0 = Inr (l, st)" and "DEBUG \<le> level"
    and "tm_in_range (localtime_r (lc env) (clock env))"
  shows "YECC_LOG_LEVEL env c l level msg st =
    Some (Inr (print (default_record env n level (event_append msg (macro_event env c l level))) st))"
proof -
  obtain rt ap f where st0: "wf_sys st0" "loggers st0 (m_root st0) = Some rt" "l_appenders rt = [0]"
      "appenders st0 0 = Some ap" "a_file ap = None" "mk_formatter default_pattern = Inr f"
      "a_formatter ap = Some f" "m_loggers st0 = []" "l_level rt = DEBUG" "a_level ap = DEBUG"
    using mk_LoggerManager_ok [of fs] assms(1) by auto
  let ?lg = "\<lparr>l_name = n, l_level = DEBUG, l_appenders = [], l_formatter = Some f, l_root = Some (m_root st0)\<rparr>"
  have root: "m_root st0 \<noteq> l"
    using getLogger_new [OF st0(1), of n] assms(2) st0(2,8) wf_lid_less [OF st0(1,2)] by auto
  have st: "loggers st = (loggers st0)(l \<mapsto> ?lg)" "appenders st = appenders st0" "m_root st = m_root st0"
    using getLogger_new [OF st0(1), of n] assms(2) st0(6,8) by auto
  let ?ev = "event_append msg (macro_event env c l level)"
  have ev: "e_time ?ev = clock env" "e_logger ?ev = l"
    by (simp_all add: event_append_def macro_event_def mk_event_def)
  note fmt = default_formatter [OF st0(6), of env ?ev n level]
  have name: "event_lname ?ev st = Some n" by (simp add: event_lname_def ev st)
  have rt: "loggers st (m_root st0) = Some rt" using st st0(2) root by simp
  have apps: "\<forall>a \<in> set (l_appenders rt). console_appender st a \<and> fits env ?ev st a"
    using st0 st fmt assms(4) by (auto simp: console_appender_def fits_def ev)
  have "YECC_LOG_LEVEL env c l level msg st = logger_log env l level ?ev st"
    using assms(3) st(1) ev by (auto simp: YECC_LOG_LEVEL_def wrap_destroy_def event_append_def macro_event_def mk_event_def)
  also have "\<dots> = logger_log env (m_root st0) level ?ev st"
    using assms(3) st(1) by (intro logger_log_delegates [where lg = ?lg]) auto
  also have "\<dots> = Some (rfold (log_to env level ?ev) (l_appenders rt) st)"
    using rt st0 assms(3) by (subst logger_log.simps) simp
  also have "\<dots> = Some (Inr (print (default_record env n level ?ev) st))"
    using log_list_console [OF apps name, of level] st st0 fmt assms(3,4)
    by (simp add: console_text_def name ev)
  finally show ?thesis .
qed

definition demo_site :: call_site where
  "demo_site = \<lparr>c_file = ''a.cpp'', c_line = 7, c_thread = 42, c_fiber = 3, c_tname = ''main''\<rparr>"

lemma fresh_logger_logs_through_root_witness:
  "\<exists>st0 l st. mk_LoggerManager empty_fs = Inr st0 \<and> getLogger ''system'' st0 = Inr (l, st) \<and>
     YECC_LOG_LEVEL (env_at 1 True) demo_site l WARN ''up'' st =
       Some (Inr (print (''2024-01-01 00:00:00'' @ [CHR 0x09] @ ''42'' @ [CHR 0x09, CHR ''3'', CHR 0x09] @
         ''[WARN]'' @ [CHR 0x09] @ ''[system]'' @ [CHR 0x09] @ ''a.cpp:7'' @ [CHR 0x09] @ ''up'' @ [CHR 0x0A]) st))"
proof -
  obtain st0 where st0: "mk_LoggerManager empty_fs = Inr st0" "wf_sys st0"
    using mk_LoggerManager_ok by blast
  obtain l st where st: "getLogger ''system'' st0 = Inr (l, st)" using getLogger_ok [OF st0(2)] by blast
  have tm: "tm_in_range (localtime_r (lc (env_at 1 True)) (clock (env_at 1 True)))"
    by (simp add: env_at_def tm_in_range_def)
  have "DEBUG \<le> WARN" by (simp add: less_eq_level_def)
  note out = fresh_logger_logs_through_root [OF st0(1) st this tm, of demo_site "''up''"]
  have "default_record (env_at 1 True) ''system'' WARN
      (event_append ''up'' (macro_event (env_at 1 True) demo_site l WARN)) =
    ''2024-01-01 00:00:00'' @ [CHR 0x09] @ ''42'' @ [CHR 0x09, CHR ''3'', CHR 0x09] @
      ''[WARN]'' @ [CHR 0x09] @ ''[system]'' @ [CHR 0x09] @ ''a.cpp:7'' @ [CHR 0x09] @ ''up'' @ [CHR 0x0A]"
    by code_simp
  with out st0 st show ?thesis by metis
qed

subsection \<open>Formatters of attached appenders\<close>

lemma inherit_formatter_spec:
  assumes "\<forall>a \<in> set as. appenders st a \<noteq> None"
  shows "\<exists>st'. inherit_formatter val as st = Inr st' \<and>
    (\<forall>a. appenders st' a =
       (case appenders st a of
          None \<Rightarrow> None
        | Some ap \<Rightarrow> Some (if a \<in> set as \<and> \<not> a_has_formatter ap then ap\<lparr>a_formatter := val\<rparr> else ap)))"
  using assms
proof (induction "as" arbitrary: st)
  case Nil
  then show ?case by (auto simp: inherit_formatter_def split: option.split)
next
  case (Cons b bs)
  then obtain bp where bp: "appenders st b = Some bp" by auto
  let ?st = "if \<not> a_has_formatter bp then put_appender b (app_setFormatter_ptr val bp) st else st"
  have app: "appenders ?st a = (if a = b \<and> \<not> a_has_formatter bp then Some (bp\<lparr>a_formatter := val\<rparr>) else appenders st a)" for a
    by (simp add: app_setFormatter_ptr_def)
  have "\<forall>a \<in> set bs. appenders ?st a \<noteq> None" using Cons.prems app by auto
  from Cons.IH [OF this] obtain st' where st': "inherit_formatter val bs ?st = Inr st'"
    "\<forall>a. appenders st' a = (case appenders ?st a of None \<Rightarrow> None
      | Some ap \<Rightarrow> Some (if a \<in> set bs \<and> \<not> a_has_formatter ap then ap\<lparr>a_formatter := val\<rparr> else ap))"
    by blast
  have "inherit_formatter val (b # bs) st = Inr st'"
    using st'(1) bp by (simp add: inherit_formatter_def with_appender_def)
  moreover have "appenders st' a = (case appenders st a of None \<Rightarrow> None
      | Some ap \<Rightarrow> Some (if a \<in> set (b # bs) \<and> \<not> a_has_formatter ap then ap\<lparr>a_formatter := val\<rparr> else ap))" for a
    using st'(2) app [of a] bp by (auto split: option.splits)
  ultimately show ?case by blast
qed

text \<open>
  C36: a logger's formatter is inherited by exactly the appenders that have none of their own.
  Setting a logger's pattern succeeds for every pattern, valid or not; afterwards the logger has the
  new formatter, every attached appender that was not given a pattern of its own has it too, and
  every other appender of the program keeps its formatter.
\<close>

theorem setFormatter_inherited:
  assumes "wf_sys st" and "loggers st l = Some lg"
  shows "\<exists>f st'. mk_formatter p = Inr f \<and> setFormatter_str l p st = Inr st' \<and>
    loggers st' = (loggers st)(l \<mapsto> lg\<lparr>l_formatter := Some f\<rparr>) \<and>
    (\<forall>a ap. appenders st a = Some ap \<longrightarrow>
       appenders st' a = Some (if a \<in> set (l_appenders lg) \<and> \<not> a_has_formatter ap
                               then ap\<lparr>a_formatter := Some f\<rparr> else ap))"
proof -
  obtain f where f: "mk_formatter p = Inr f" using mk_formatter_ok by blast
  let ?st = "if f_isError f then print (complaint (l_name lg) p) st else st"
  have same: "loggers ?st = loggers st" "appenders ?st = appenders st" by simp_all
  have "\<forall>a \<in> set (l_appenders lg). appenders ?st a \<noteq> None"
    using wf_loggerD [OF assms] by (auto simp: wf_logger_def has_fmt_def)
  from inherit_formatter_spec [OF this, of "Some f"] obtain st1
    where st1: "inherit_formatter (Some f) (l_appenders lg) ?st = Inr st1"
    and app: "\<And>a. appenders st1 a = (case appenders st a of None \<Rightarrow> None
       | Some ap \<Rightarrow> Some (if a \<in> set (l_appenders lg) \<and> \<not> a_has_formatter ap
                               then ap\<lparr>a_formatter := Some f\<rparr> else ap))"
    using same by auto
  have "setFormatter_str l p st = Inr (put_logger l (lg\<lparr>l_formatter := Some f\<rparr>) st1)"
    using f assms(2) st1 by (simp add: setFormatter_str_def with_logger_def Let_def)
  moreover have "loggers st1 = loggers st" using inherit_formatter_frame [OF st1] same by simp
  ultimately show ?thesis using f app by simp
qed

lemma wf_demo_sys: "wf_sys demo_sys"
  by (auto simp: wf_sys_def wf_logger_def has_fmt_def demo_sys_def)

lemma setFormatter_inherited_witness:
  "\<exists>f st'. mk_formatter ''%p %m%n'' = Inr f \<and> setFormatter_str 0 ''%p %m%n'' demo_sys = Inr st' \<and>
     appenders st' 0 = Some (new_stdout_appender\<lparr>a_formatter := Some f\<rparr>)"
proof -
  have "loggers demo_sys 0 = Some \<lparr>l_name = ''root'', l_level = INFO, l_appenders = [0],
      l_formatter = Some msg_formatter, l_root = None\<rparr>"
    "appenders demo_sys 0 = Some (new_stdout_appender\<lparr>a_formatter := Some msg_formatter\<rparr>)"
    by (simp_all add: demo_sys_def)
  with setFormatter_inherited [OF wf_demo_sys this(1), of "''%p %m%n''"] show ?thesis
    by (fastforce simp: new_stdout_appender_def)
qed

subsection \<open>The manager\<close>

text \<open>
  \<open>getLogger\<close> is a lookup by name. In every reachable state it succeeds; the logger it returns
  has the name, delegates to the root logger and is not the root logger itself (also when the name is
  \<open>root\<close>); asking again returns the same logger and changes nothing; a different name gives a
  different logger; and no logger that existed before is changed.
\<close>

theorem getLogger_lookup:
  assumes "log_reach st"
  shows "\<exists>l st' lg. getLogger n st = Inr (l, st') \<and> loggers st' l = Some lg \<and> l_name lg = n \<and>
    l_root lg = Some (m_root st) \<and> l \<noteq> getRoot st' \<and> getLogger n st' = Inr (l, st') \<and>
    (\<forall>k m. map_of (m_loggers st') m = Some k \<and> k = l \<longrightarrow> m = n) \<and>
    (\<forall>k. loggers st k \<noteq> None \<longrightarrow> loggers st' k = loggers st k)"
proof -
  have wf: "wf_sys st" using assms by (rule log_reach_wf)
  obtain l st' where get: "getLogger n st = Inr (l, st')" using getLogger_ok [OF wf] by blast
  have wf': "wf_sys st'" using wf get by (rule wf_getLogger)
  have found: "map_of (m_loggers st') n = Some l \<and> m_root st' = m_root st \<and>
      (\<forall>k. loggers st k \<noteq> None \<longrightarrow> loggers st' k = loggers st k)"
  proof (cases "map_of (m_loggers st) n")
    case (Some k)
    with get show ?thesis by (simp add: getLogger_old)
  next
    case None
    with getLogger_new [OF wf None] get wf_mwf [OF wf] wf_fresh_lid [OF wf] show ?thesis by auto
  qed
  obtain lg where lg: "loggers st' l = Some lg" "l_name lg = n" "l_root lg = Some (m_root st')"
    using wf_namedD [OF wf'] found by blast
  moreover have "l \<noteq> getRoot st'"
    using wf_rootD [OF wf'] lg by (auto simp: getRoot_def)
  moreover have "m = n" if "map_of (m_loggers st') m = Some l" for m
    using wf_namedD [OF wf' that] lg by auto
  ultimately show ?thesis using get found getLogger_old [of st' n l] by auto
qed

lemma getLogger_lookup_witness:
  "\<exists>st l st' lg. mk_LoggerManager empty_fs = Inr st \<and> getLogger ''root'' st = Inr (l, st') \<and>
     loggers st' l = Some lg \<and> l_name lg = ''root'' \<and> l \<noteq> getRoot st'"
proof -
  obtain st where st: "mk_LoggerManager empty_fs = Inr st" using mk_LoggerManager_ok by blast
  then have "log_reach st" by (rule reach_init)
  from getLogger_lookup [OF this, of "''root''"] st show ?thesis by blast
qed

text \<open>Asking for a name again gives the same logger, and changes nothing.\<close>

lemma map_of_mput_same: "map_of (mput k v m) k = Some v"
  by (induction k v m rule: mput.induct) auto

lemma log_name_stable:
  assumes "YECC_LOG_NAME n fs inst = Inr (l, st)"
  shows "YECC_LOG_NAME n fs (Some st) = Inr (l, st)"
proof -
  from assms obtain st0 where "getLogger n st0 = Inr (l, st)" by (auto simp: YECC_LOG_NAME_def rbind_eq_Inr)
  then have "map_of (m_loggers st) n = Some l"
    by (auto simp: getLogger_def with_logger_def rbind_eq_Inr Let_def map_of_mput_same split: option.splits)
  then show ?thesis by (simp add: YECC_LOG_NAME_def LoggerMgr_GetInstance_def getLogger_def)
qed

end
