(* ===== verification/Lexical.thy ===== *)
theory Lexical
  imports LogLevel StdMap "HOL-Library.FSet" "HOL-Library.Finite_Map"
begin

section \<open>YAML nodes and LexicalCast\<close>

text \<open>
  The templates \<open>LexicalCast\<close> of \<open>include/config.hpp\<close> and their full specialisations
  for the logging configuration in \<open>src/log.cpp\<close>. The C++ type that selects a specialisation is
  a value of \<open>cty\<close>, and the casts recurse over it as the templates do. \<open>yaml-cpp\<close> and
  \<open>boost::lexical_cast\<close> are not part of the program: parsing and emitting text, the reaction of a
  node to an operation it is not made for, and the conversion, order and type names of the basic types
  are the fields of the parameter \<open>lex_api\<close>. What is fixed here is only the documented data
  model of a node: undefined, null, scalar, sequence or map.
\<close>

subsection \<open>Nodes\<close>

datatype ynode =
    YUndef
  | YNull
  | YScalar string
  | YSeq "ynode list"
  | YMap "(ynode \<times> ynode) list"

fun n_isMap :: "ynode \<Rightarrow> bool" where
  "n_isMap (YMap _) = True"
| "n_isMap _ = False"

fun n_isScalar :: "ynode \<Rightarrow> bool" where
  "n_isScalar (YScalar _) = True"
| "n_isScalar _ = False"

text \<open>\<open>Scalar()\<close> is empty for a node that is not a scalar.\<close>

fun n_scalar :: "ynode \<Rightarrow> string" where
  "n_scalar (YScalar s) = s"
| "n_scalar _ = []"

fun n_size :: "ynode \<Rightarrow> nat" where
  "n_size (YSeq ns) = length ns"
| "n_size (YMap ps) = length ps"
| "n_size _ = 0"

subsection \<open>Configuration data of the logging system\<close>

record log_appender_define =
  ad_type :: int
  ad_level :: level
  ad_formatter :: string
  ad_file :: string

definition new_appender_define :: log_appender_define where
  "new_appender_define = \<lparr>ad_type = 0, ad_level = UNKNOW, ad_formatter = [], ad_file = []\<rparr>"

record log_define =
  ld_name :: string
  ld_level :: level
  ld_formatter :: string
  ld_appenders :: "log_appender_define list"

definition new_log_define :: log_define where
  "new_log_define = \<lparr>ld_name = [], ld_level = UNKNOW, ld_formatter = [], ld_appenders = []\<rparr>"

text \<open>\<open>LogDefine::operator<\<close>, by which \<open>std::set\<close> orders and identifies definitions.\<close>

definition log_define_less :: "log_define \<Rightarrow> log_define \<Rightarrow> bool" where
  "log_define_less a b \<longleftrightarrow> ld_name a < ld_name b"

subsection \<open>Types and values of configuration variables\<close>

datatype cty =
    TBase string
  | TVector cty
  | TList cty
  | TSet cty
  | TUSet cty
  | TMap cty
  | TUMap cty
  | TAppenderDefine
  | TLogDefine

text \<open>
  A value: a basic one, a sequence (\<open>vector\<close>, \<open>list\<close>), a \<open>set\<close> as the list of its
  elements in iteration order, an \<open>unordered_set\<close>, a \<open>map\<close> and an \<open>unordered_map\<close>
  from strings, and the two structures of the logging configuration.
\<close>

datatype 'b cval =
    VBase 'b
  | VSeq "'b cval list"
  | VSet "'b cval list"
  | VUSet "'b cval fset"
  | VMap "(string \<times> 'b cval) list"
  | VUMap "(string, 'b cval) fmap"
  | VApp log_appender_define
  | VLog log_define

record 'b lex_api =
  y_load :: "string \<Rightarrow> ynode result"
  y_emit :: "ynode \<Rightarrow> string"
  y_at_map :: "(ynode \<times> ynode) list \<Rightarrow> nat \<Rightarrow> ynode result"
  y_sub_other :: "ynode \<Rightarrow> string \<Rightarrow> ynode result"
  y_str_other :: "ynode \<Rightarrow> string result"
  y_seq_pair :: "ynode \<Rightarrow> (string \<times> string) result"
  lex_from :: "string \<Rightarrow> string \<Rightarrow> 'b result"
  lex_to :: "'b \<Rightarrow> string result"
  lex_less :: "'b \<Rightarrow> 'b \<Rightarrow> bool"
  uset_order :: "'b cval fset \<Rightarrow> 'b cval list"
  umap_order :: "(string, 'b cval) fmap \<Rightarrow> (string \<times> 'b cval) list"

text \<open>
  \<open>operator<\<close> of the element types, as a comparison with the three outcomes the library's
  lexicographic loops distinguish: element by element on sequences and sets, key before value on
  maps, by name on definitions. The unordered containers and appender definitions have no
  \<open>operator<\<close>.
\<close>

definition lt3 :: "('a \<Rightarrow> 'a \<Rightarrow> bool) \<Rightarrow> 'a \<Rightarrow> 'a \<Rightarrow> int" where
  "lt3 lt a b = (if lt a b then - 1 else if lt b a then 1 else 0)"

fun lexcmp :: "('a \<Rightarrow> int) list \<Rightarrow> 'a list \<Rightarrow> int" where
  "lexcmp [] [] = 0"
| "lexcmp [] (y # ys) = - 1"
| "lexcmp (c # cs) [] = 1"
| "lexcmp (c # cs) (y # ys) = (if c y \<noteq> 0 then c y else lexcmp cs ys)"

definition pair_cmp :: "string \<times> ('a \<Rightarrow> int) \<Rightarrow> string \<times> 'a \<Rightarrow> int" where
  "pair_cmp kc p = (let c = lt3 (<) (fst kc) (fst p) in if c \<noteq> 0 then c else snd kc (snd p))"

primrec ccmp :: "('b \<Rightarrow> 'b \<Rightarrow> bool) \<Rightarrow> 'b cval \<Rightarrow> 'b cval \<Rightarrow> int" where
  "ccmp lt (VBase a) = (\<lambda>w. case w of VBase b \<Rightarrow> lt3 lt a b | _ \<Rightarrow> 0)"
| "ccmp lt (VSeq xs) = (\<lambda>w. case w of VSeq ys \<Rightarrow> lexcmp (map (ccmp lt) xs) ys | _ \<Rightarrow> 0)"
| "ccmp lt (VSet xs) = (\<lambda>w. case w of VSet ys \<Rightarrow> lexcmp (map (ccmp lt) xs) ys | _ \<Rightarrow> 0)"
| "ccmp lt (VMap xs) =
     (\<lambda>w. case w of VMap ys \<Rightarrow> lexcmp (map pair_cmp (map (map_prod id (ccmp lt)) xs)) ys | _ \<Rightarrow> 0)"
| "ccmp lt (VLog a) = (\<lambda>w. case w of VLog b \<Rightarrow> lt3 log_define_less a b | _ \<Rightarrow> 0)"
| "ccmp lt (VUSet xs) = (\<lambda>w. 0)"
| "ccmp lt (VUMap xs) = (\<lambda>w. 0)"
| "ccmp lt (VApp a) = (\<lambda>w. 0)"

definition cless :: "('b \<Rightarrow> 'b \<Rightarrow> bool) \<Rightarrow> 'b cval \<Rightarrow> 'b cval \<Rightarrow> bool" where
  "cless lt a b \<longleftrightarrow> ccmp lt a b < 0"

text \<open>\<open>std::set::insert\<close>: an element that is equivalent to one already there is not inserted.\<close>

fun set_insert :: "('a \<Rightarrow> 'a \<Rightarrow> bool) \<Rightarrow> 'a \<Rightarrow> 'a list \<Rightarrow> 'a list" where
  "set_insert lt x [] = [x]"
| "set_insert lt x (y # ys) =
     (if lt x y then x # y # ys else if lt y x then y # set_insert lt x ys else y # ys)"

subsection \<open>Operations on nodes\<close>

definition n_at :: "'b lex_api \<Rightarrow> ynode \<Rightarrow> nat \<Rightarrow> ynode result" where
  "n_at api n i =
     (case n of
        YSeq ns \<Rightarrow> Inr (if i < length ns then ns ! i else YUndef)
      | YMap ps \<Rightarrow> y_at_map api ps i
      | _ \<Rightarrow> Inr YUndef)"

text \<open>\<open>node["key"]\<close>: on a map the value of the first entry with that key, or an undefined node.\<close>

fun find_key :: "string \<Rightarrow> (ynode \<times> ynode) list \<Rightarrow> ynode" where
  "find_key k [] = YUndef"
| "find_key k ((YScalar s, n) # ps) = (if s = k then n else find_key k ps)"
| "find_key k (_ # ps) = find_key k ps"

definition n_get :: "'b lex_api \<Rightarrow> ynode \<Rightarrow> string \<Rightarrow> ynode result" where
  "n_get api n k = (case n of YMap ps \<Rightarrow> Inr (find_key k ps) | _ \<Rightarrow> y_sub_other api n k)"

definition n_as_string :: "'b lex_api \<Rightarrow> ynode \<Rightarrow> string result" where
  "n_as_string api n = (case n of YScalar s \<Rightarrow> Inr s | _ \<Rightarrow> y_str_other api n)"

text \<open>A node built by \<open>push_back\<close> of scalars, or by assignments to its keys, from a fresh node.\<close>

definition n_of_scalars :: "string list \<Rightarrow> ynode" where
  "n_of_scalars ss = (if ss = [] then YNull else YSeq (map YScalar ss))"

definition n_of_pairs :: "(string \<times> string) list \<Rightarrow> ynode" where
  "n_of_pairs kvs = (if kvs = [] then YNull else YMap (map (\<lambda>(k, v). (YScalar k, YScalar v)) kvs))"

subsection \<open>From strings\<close>

text \<open>
  The loop shared by the sequence and set specialisations: each element of the loaded node is
  emitted again and cast, and added to the container.
\<close>

definition seq_cast ::
  "'b lex_api \<Rightarrow> (string \<Rightarrow> 'a result) \<Rightarrow> ('a \<Rightarrow> 'c \<Rightarrow> 'c) \<Rightarrow> 'c \<Rightarrow> string \<Rightarrow> 'c result" where
  "seq_cast api elem add start v =
     rbind (y_load api v) (\<lambda>node.
       rfold (\<lambda>i ret.
         rbind (n_at api node i) (\<lambda>n. rbind (elem (y_emit api n)) (\<lambda>x. Inr (add x ret))))
         [0..<n_size node] start)"

text \<open>The loop shared by the two map specialisations, over the key-value pairs of the node.\<close>

definition n_pairs :: "'b lex_api \<Rightarrow> ynode \<Rightarrow> (string \<times> string) result list" where
  "n_pairs api node =
     (case node of
        YMap ps \<Rightarrow> map (\<lambda>(k, n). Inr (n_scalar k, y_emit api n)) ps
      | YSeq ns \<Rightarrow> map (y_seq_pair api) ns
      | _ \<Rightarrow> [])"

definition map_cast ::
  "'b lex_api \<Rightarrow> (string \<Rightarrow> 'a result) \<Rightarrow> (string \<Rightarrow> 'a \<Rightarrow> 'c \<Rightarrow> 'c) \<Rightarrow> 'c \<Rightarrow> string \<Rightarrow> 'c result" where
  "map_cast api elem put start v =
     rbind (y_load api v) (\<lambda>node.
       rfold (\<lambda>p ret. rbind p (\<lambda>(k, s). rbind (elem s) (\<lambda>x. Inr (put k x ret))))
         (n_pairs api node) start)"

text \<open>An optional string field of a node: the assignment runs when the key is defined.\<close>

definition opt_field ::
  "'b lex_api \<Rightarrow> ynode \<Rightarrow> string \<Rightarrow> (string \<Rightarrow> 'r \<Rightarrow> 'r) \<Rightarrow> 'r \<Rightarrow> 'r result" where
  "opt_field api node k upd r =
     rbind (n_get api node k) (\<lambda>n.
       if n \<noteq> YUndef then rbind (n_as_string api n) (\<lambda>s. Inr (upd s r)) else Inr r)"

definition invalid_argument :: "string \<Rightarrow> fault" where
  "invalid_argument s = StdException s"

definition appender_define_from :: "'b lex_api \<Rightarrow> string \<Rightarrow> log_appender_define result" where
  "appender_define_from api v =
     rbind (y_load api v) (\<lambda>node.
     rbind (n_get api node ''type'') (\<lambda>ty.
       if ty = YUndef then Inl (invalid_argument ''log conf: appender type name not define!'')
       else rbind (n_as_string api ty) (\<lambda>tp.
         let ret = new_appender_define in
         rbind (if tp = ''StdoutLogAppender'' then Inr (ret\<lparr>ad_type := 2\<rparr>)
                else if tp = ''FileLogAppender'' then
                  rbind (n_get api node ''file'') (\<lambda>f.
                    if f = YUndef then Inl (invalid_argument ''log conf: fileAppender need file path!'')
                    else rbind (n_as_string api f) (\<lambda>s. Inr (ret\<lparr>ad_type := 1, ad_file := s\<rparr>)))
                else Inl (invalid_argument (''log conf: appender type name: '' @ tp @ '' invalid!'')))
           (\<lambda>ret.
              rbind (opt_field api node ''level'' (\<lambda>s r. r\<lparr>ad_level := level_from_string s\<rparr>) ret)
                (opt_field api node ''formatter'' (\<lambda>s r. r\<lparr>ad_formatter := s\<rparr>))))))"

definition log_define_from :: "'b lex_api \<Rightarrow> string \<Rightarrow> log_define result" where
  "log_define_from api v =
     rbind (y_load api v) (\<lambda>node.
     rbind (n_get api node ''name'') (\<lambda>nm.
       if nm = YUndef then Inl (invalid_argument ''log config error: no name!'')
       else rbind (n_as_string api nm) (\<lambda>name.
         let ret = new_log_define\<lparr>ld_name := name\<rparr> in
         rbind (opt_field api node ''level'' (\<lambda>s r. r\<lparr>ld_level := level_from_string s\<rparr>) ret) (\<lambda>ret.
         rbind (opt_field api node ''formatter'' (\<lambda>s r. r\<lparr>ld_formatter := s\<rparr>) ret) (\<lambda>ret.
         rbind (n_get api node ''appender'') (\<lambda>ap.
         rbind (seq_cast api (appender_define_from api) (\<lambda>x xs. xs @ [x]) [] (y_emit api ap)) (\<lambda>as.
           Inr (ret\<lparr>ld_appenders := as\<rparr>))))))))"

text \<open>\<open>LexicalCast<std::string, T>\<close>.\<close>

primrec from_string :: "'b lex_api \<Rightarrow> cty \<Rightarrow> string \<Rightarrow> 'b cval result" where
  "from_string api (TBase t) = (\<lambda>v. rbind (lex_from api t v) (\<lambda>b. Inr (VBase b)))"
| "from_string api (TVector t) =
     (\<lambda>v. rbind (seq_cast api (from_string api t) (\<lambda>x xs. xs @ [x]) [] v) (\<lambda>xs. Inr (VSeq xs)))"
| "from_string api (TList t) =
     (\<lambda>v. rbind (seq_cast api (from_string api t) (\<lambda>x xs. xs @ [x]) [] v) (\<lambda>xs. Inr (VSeq xs)))"
| "from_string api (TSet t) =
     (\<lambda>v. rbind (seq_cast api (from_string api t) (set_insert (cless (lex_less api))) [] v)
            (\<lambda>xs. Inr (VSet xs)))"
| "from_string api (TUSet t) =
     (\<lambda>v. rbind (seq_cast api (from_string api t) finsert fempty v) (\<lambda>s. Inr (VUSet s)))"
| "from_string api (TMap t) =
     (\<lambda>v. rbind (map_cast api (from_string api t) mput [] v) (\<lambda>m. Inr (VMap m)))"
| "from_string api (TUMap t) =
     (\<lambda>v. rbind (map_cast api (from_string api t) fmupd fmempty v) (\<lambda>m. Inr (VUMap m)))"
| "from_string api TAppenderDefine = (\<lambda>v. rbind (appender_define_from api v) (\<lambda>x. Inr (VApp x)))"
| "from_string api TLogDefine = (\<lambda>v. rbind (log_define_from api v) (\<lambda>x. Inr (VLog x)))"

subsection \<open>To strings\<close>

text \<open>
  The loops of the other direction: every element is cast to a string and becomes a scalar node of
  its own, whatever the element is. A value that is not of the type cannot occur in the program.
\<close>

definition seq_text :: "'b lex_api \<Rightarrow> ('a \<Rightarrow> string result) \<Rightarrow> 'a list \<Rightarrow> string result" where
  "seq_text api elem xs =
     rbind (rfold (\<lambda>d ss. rbind (elem d) (\<lambda>s. Inr (ss @ [s]))) xs []) (\<lambda>ss.
       Inr (y_emit api (n_of_scalars ss)))"

definition map_text ::
  "'b lex_api \<Rightarrow> ('a \<Rightarrow> string result) \<Rightarrow> (string \<times> 'a) list \<Rightarrow> string result" where
  "map_text api elem m =
     rbind (rfold (\<lambda>(k, d) kvs. rbind (elem d) (\<lambda>s. Inr (kvs @ [(k, s)]))) m []) (\<lambda>kvs.
       Inr (y_emit api (n_of_pairs kvs)))"

definition appender_pairs :: "log_appender_define \<Rightarrow> (string \<times> string) list" where
  "appender_pairs v =
     (if ad_type v = 1 then [(''type'', ''FileLogAppender''), (''file'', ad_file v)]
      else if ad_type v = 2 then [(''type'', ''StdoutLogAppender'')] else [])
     @ [(''level'', level_to_string (ad_level v)), (''formatter'', ad_formatter v)]"

definition appender_define_to :: "'b lex_api \<Rightarrow> log_appender_define \<Rightarrow> string" where
  "appender_define_to api v = y_emit api (n_of_pairs (appender_pairs v))"

definition log_define_pairs :: "log_define \<Rightarrow> string \<Rightarrow> (string \<times> string) list" where
  "log_define_pairs v apps =
     [(''name'', ld_name v), (''level'', level_to_string (ld_level v)),
      (''formatter'', ld_formatter v), (''appender'', apps)]"

definition log_define_to :: "'b lex_api \<Rightarrow> log_define \<Rightarrow> string result" where
  "log_define_to api v =
     rbind (seq_text api (\<lambda>a. Inr (appender_define_to api a)) (ld_appenders v)) (\<lambda>apps.
       Inr (y_emit api (n_of_pairs (log_define_pairs v apps))))"

definition not_of_type :: "'a result" where
  "not_of_type = Inl (Undefined ''value of another type'')"

text \<open>\<open>LexicalCast<T, std::string>\<close>.\<close>

primrec to_string :: "'b lex_api \<Rightarrow> cty \<Rightarrow> 'b cval \<Rightarrow> string result" where
  "to_string api (TBase t) = (\<lambda>v. case v of VBase b \<Rightarrow> lex_to api b | _ \<Rightarrow> not_of_type)"
| "to_string api (TVector t) =
     (\<lambda>v. case v of VSeq xs \<Rightarrow> seq_text api (to_string api t) xs | _ \<Rightarrow> not_of_type)"
| "to_string api (TList t) =
     (\<lambda>v. case v of VSeq xs \<Rightarrow> seq_text api (to_string api t) xs | _ \<Rightarrow> not_of_type)"
| "to_string api (TSet t) =
     (\<lambda>v. case v of VSet xs \<Rightarrow> seq_text api (to_string api t) xs | _ \<Rightarrow> not_of_type)"
| "to_string api (TUSet t) =
     (\<lambda>v. case v of VUSet s \<Rightarrow> seq_text api (to_string api t) (uset_order api s) | _ \<Rightarrow> not_of_type)"
| "to_string api (TMap t) =
     (\<lambda>v. case v of VMap m \<Rightarrow> map_text api (to_string api t) m | _ \<Rightarrow> not_of_type)"
| "to_string api (TUMap t) =
     (\<lambda>v. case v of VUMap m \<Rightarrow> map_text api (to_string api t) (umap_order api m) | _ \<Rightarrow> not_of_type)"
| "to_string api TAppenderDefine =
     (\<lambda>v. case v of VApp a \<Rightarrow> Inr (appender_define_to api a) | _ \<Rightarrow> not_of_type)"
| "to_string api TLogDefine = (\<lambda>v. case v of VLog d \<Rightarrow> log_define_to api d | _ \<Rightarrow> not_of_type)"

end
