(* ===== verification/LexicalProps.thy ===== *)
theory LexicalProps
  imports Lexical
begin

section \<open>What the casts preserve\<close>

text \<open>
  Typing of the values the casts return, the round trips that hold (sequences, sets and maps of basic
  types, one appender definition) and the ones that do not (nested containers, logger definitions).
  What is assumed of \<open>yaml-cpp\<close> is named: a node is \<open>reloads\<close> when loading the text it
  is emitted as gives it back, and a string is \<open>plain\<close> when it is emitted as it stands.
\<close>

definition reloads :: "'b lex_api \<Rightarrow> ynode \<Rightarrow> bool" where
  "reloads api n \<longleftrightarrow> y_load api (y_emit api n) = Inr n"

definition plain :: "'b lex_api \<Rightarrow> string \<Rightarrow> bool" where
  "plain api s \<longleftrightarrow> y_emit api (YScalar s) = s"

subsection \<open>Typing\<close>

text \<open>
  Well-formed values of a type: the keys of a map are in order, and an appender definition is of one
  of the two types for which an appender can be constructed.
\<close>

definition constructible :: "log_appender_define \<Rightarrow> bool" where
  "constructible a \<longleftrightarrow> ad_type a = 1 \<or> ad_type a = 2"

primrec has_type :: "'b lex_api \<Rightarrow> (string \<Rightarrow> 'b \<Rightarrow> bool) \<Rightarrow> cty \<Rightarrow> 'b cval \<Rightarrow> bool" where
  "has_type api ok (TBase t) = (\<lambda>v. case v of VBase b \<Rightarrow> ok t b | _ \<Rightarrow> False)"
| "has_type api ok (TVector t) = (\<lambda>v. case v of VSeq xs \<Rightarrow> list_all (has_type api ok t) xs | _ \<Rightarrow> False)"
| "has_type api ok (TList t) = (\<lambda>v. case v of VSeq xs \<Rightarrow> list_all (has_type api ok t) xs | _ \<Rightarrow> False)"
| "has_type api ok (TSet t) = (\<lambda>v. case v of VSet xs \<Rightarrow> list_all (has_type api ok t) xs | _ \<Rightarrow> False)"
| "has_type api ok (TUSet t) = (\<lambda>v. case v of VUSet s \<Rightarrow> fBall s (has_type api ok t) | _ \<Rightarrow> False)"
| "has_type api ok (TMap t) =
     (\<lambda>v. case v of VMap m \<Rightarrow> mwf m \<and> list_all (\<lambda>p. has_type api ok t (snd p)) m | _ \<Rightarrow> False)"
| "has_type api ok (TUMap t) =
     (\<lambda>v. case v of VUMap m \<Rightarrow> fmpred (\<lambda>_ x. has_type api ok t x) m | _ \<Rightarrow> False)"
| "has_type api ok TAppenderDefine = (\<lambda>v. case v of VApp a \<Rightarrow> constructible a | _ \<Rightarrow> False)"
| "has_type api ok TLogDefine = (\<lambda>v. case v of VLog d \<Rightarrow> list_all constructible (ld_appenders d) | _ \<Rightarrow> False)"

lemma seq_cast_preserves:
  assumes "seq_cast api elem add start v = Inr c" and "P start"
    and "\<And>s x r. elem s = Inr x \<Longrightarrow> P r \<Longrightarrow> P (add x r)"
  shows "P c"
proof -
  from assms(1) obtain node where
    "rfold (\<lambda>i ret. rbind (n_at api node i) (\<lambda>n. rbind (elem (y_emit api n)) (\<lambda>x. Inr (add x ret))))
       [0..<n_size node] start = Inr c"
    by (auto simp: seq_cast_def result_simps)
  then show ?thesis
    by (rule rfold_preserves) (use assms(2,3) in \<open>auto simp: result_simps\<close>)
qed

lemma map_cast_preserves:
  assumes "map_cast api elem put start v = Inr c" and "P start"
    and "\<And>k s x r. elem s = Inr x \<Longrightarrow> P r \<Longrightarrow> P (put k x r)"
  shows "P c"
proof -
  from assms(1) obtain node where
    "rfold (\<lambda>p ret. rbind p (\<lambda>(k, s). rbind (elem s) (\<lambda>x. Inr (put k x ret))))
       (n_pairs api node) start = Inr c"
    by (auto simp: map_cast_def result_simps)
  then show ?thesis
    by (rule rfold_preserves) (use assms(2,3) in \<open>auto simp: result_simps\<close>)
qed

lemma set_insert_subset: "set (set_insert lt x ys) \<subseteq> insert x (set ys)"
  by (induction lt x ys rule: set_insert.induct) auto

lemma set_insert_sorted:
  "transp lt \<Longrightarrow> sorted_wrt lt ys \<Longrightarrow> sorted_wrt lt (set_insert lt x ys)"
proof (induction lt x ys rule: set_insert.induct)
  case (2 lt x y ys)
  then show ?case
    using set_insert_subset [of lt x ys] by (auto dest: transpD [of lt x y])
qed simp

lemma list_all_set_insert: "P x \<Longrightarrow> list_all P ys \<Longrightarrow> list_all P (set_insert lt x ys)"
  using set_insert_subset [of lt x ys] by (auto simp: list_all_iff)

lemma list_all_mput:
  "P (k, v) \<Longrightarrow> list_all P m \<Longrightarrow> list_all P (mput k v m)"
  by (induction k v m rule: mput.induct) auto

text \<open>What a fallible operation returns, when it returns, satisfies a predicate.\<close>

definition yields :: "('a \<Rightarrow> bool) \<Rightarrow> 'a result \<Rightarrow> bool" where
  "yields P r \<longleftrightarrow> (\<forall>x. r = Inr x \<longrightarrow> P x)"

lemma yields_Inl: "yields P (Inl e)"
  by (simp add: yields_def)

lemma yields_bind: "(\<And>x. yields P (f x)) \<Longrightarrow> yields P (rbind r f)"
  by (cases r) (auto simp: yields_def)

lemma yields_bind_via: "yields Q r \<Longrightarrow> (\<And>x. Q x \<Longrightarrow> yields P (f x)) \<Longrightarrow> yields P (rbind r f)"
  by (cases r) (auto simp: yields_def)

lemma yields_if: "yields P r \<Longrightarrow> yields P s \<Longrightarrow> yields P (if b then r else s)"
  by simp

lemma yields_opt_field: "P r \<Longrightarrow> (\<And>s. P (upd s r)) \<Longrightarrow> yields P (opt_field api node k upd r)"
  by (auto simp: yields_def opt_field_def result_simps split: if_splits)

lemma appender_define_from_yields: "yields constructible (appender_define_from api v)"
  unfolding appender_define_from_def Let_def
  apply (rule yields_bind, rule yields_bind, rule yields_if, rule yields_Inl, rule yields_bind)
  apply (rule yields_bind_via [where Q = constructible])
  subgoal by (auto simp: yields_def constructible_def result_simps split: if_splits)
  subgoal by (rule yields_bind_via [where Q = constructible])
      (auto intro!: yields_opt_field simp: constructible_def)
  done

lemma appender_define_from_constructible:
  "appender_define_from api v = Inr a \<Longrightarrow> constructible a"
  using appender_define_from_yields [of api v] by (simp add: yields_def)

lemma log_define_from_constructible:
  assumes "log_define_from api v = Inr d"
  shows "list_all constructible (ld_appenders d)"
proof -
  from assms obtain s as where "seq_cast api (appender_define_from api) (\<lambda>x xs. xs @ [x]) [] s = Inr as"
    and d: "ld_appenders d = as"
    by (auto simp: log_define_from_def result_simps Let_def split: if_splits)
  from this(1) have "list_all constructible as"
    by (rule seq_cast_preserves) (auto dest: appender_define_from_constructible)
  with d show ?thesis by simp
qed

lemma from_string_typed:
  assumes base: "\<And>t s b. lex_from api t s = Inr b \<Longrightarrow> ok t b"
  shows "from_string api t v = Inr x \<Longrightarrow> has_type api ok t x"
proof (induction t arbitrary: v x)
  case (TBase t)
  then show ?case using base by (auto simp: result_simps)
next
  case (TVector t)
  then obtain xs where x: "x = VSeq xs"
    and "seq_cast api (from_string api t) (\<lambda>x xs. xs @ [x]) [] v = Inr xs"
    by (auto simp: result_simps)
  from this(2) have "list_all (has_type api ok t) xs"
    by (rule seq_cast_preserves) (use TVector.IH in auto)
  with x show ?case by simp
next
  case (TList t)
  then obtain xs where x: "x = VSeq xs"
    and "seq_cast api (from_string api t) (\<lambda>x xs. xs @ [x]) [] v = Inr xs"
    by (auto simp: result_simps)
  from this(2) have "list_all (has_type api ok t) xs"
    by (rule seq_cast_preserves) (use TList.IH in auto)
  with x show ?case by simp
next
  case (TSet t)
  then obtain xs where x: "x = VSet xs"
    and "seq_cast api (from_string api t) (set_insert (cless (lex_less api))) [] v = Inr xs"
    by (auto simp: result_simps)
  from this(2) have "list_all (has_type api ok t) xs"
    by (rule seq_cast_preserves) (use TSet.IH in \<open>auto intro: list_all_set_insert\<close>)
  with x show ?case by simp
next
  case (TUSet t)
  then obtain s where x: "x = VUSet s"
    and "seq_cast api (from_string api t) finsert fempty v = Inr s"
    by (auto simp: result_simps)
  from this(2) have "fBall s (has_type api ok t)"
    by (rule seq_cast_preserves) (use TUSet.IH in auto)
  with x show ?case by simp
next
  case (TMap t)
  then obtain m where x: "x = VMap m"
    and "map_cast api (from_string api t) mput [] v = Inr m"
    by (auto simp: result_simps)
  from this(2) have "mwf m \<and> list_all (\<lambda>p. has_type api ok t (snd p)) m"
    by (rule map_cast_preserves) (use TMap.IH in \<open>auto intro: list_all_mput\<close>)
  with x show ?case by simp
next
  case (TUMap t)
  then obtain m where x: "x = VUMap m"
    and "map_cast api (from_string api t) fmupd fmempty v = Inr m"
    by (auto simp: result_simps)
  from this(2) have "fmpred (\<lambda>_ x. has_type api ok t x) m"
    by (rule map_cast_preserves) (use TUMap.IH in \<open>auto intro: fmpred_upd\<close>)
  with x show ?case by simp
qed (auto simp: result_simps dest: appender_define_from_constructible log_define_from_constructible)

text \<open>
  The casts fail only by throwing a \<open>std::exception\<close> when the operations of the libraries do,
  as their documentation says of \<open>YAML::Exception\<close> and \<open>boost::bad_lexical_cast\<close>.
\<close>

definition throws_std :: "'a result \<Rightarrow> bool" where
  "throws_std r \<longleftrightarrow> (\<forall>e. r = Inl e \<longrightarrow> (\<exists>what. e = StdException what))"

definition api_throws_std :: "'b lex_api \<Rightarrow> bool" where
  "api_throws_std api \<longleftrightarrow>
     (\<forall>s. throws_std (y_load api s)) \<and> (\<forall>ps i. throws_std (y_at_map api ps i))
     \<and> (\<forall>n k. throws_std (y_sub_other api n k)) \<and> (\<forall>n. throws_std (y_str_other api n))
     \<and> (\<forall>n. throws_std (y_seq_pair api n)) \<and> (\<forall>t s. throws_std (lex_from api t s))"

lemma throws_std_Inr [simp]: "throws_std (Inr x)"
  by (simp add: throws_std_def)

lemma throws_std_invalid [simp]: "throws_std (Inl (invalid_argument s))"
  by (simp add: throws_std_def invalid_argument_def)

lemma throws_std_rbind: "throws_std r \<Longrightarrow> (\<And>x. r = Inr x \<Longrightarrow> throws_std (f x)) \<Longrightarrow> throws_std (rbind r f)"
  by (cases r) (auto simp: throws_std_def)

lemma throws_std_rfold: "(\<And>x u. x \<in> set xs \<Longrightarrow> throws_std (f x u)) \<Longrightarrow> throws_std (rfold f xs s)"
  by (auto simp: throws_std_def dest!: rfold_Inl)

lemma throws_std_node:
  assumes "api_throws_std api"
  shows "throws_std (y_load api s)" and "throws_std (n_at api n i)" and "throws_std (n_get api n k)"
    and "throws_std (n_as_string api n)" and "throws_std (lex_from api t s)"
    and "p \<in> set (n_pairs api n) \<Longrightarrow> throws_std p"
  using assms
  by (auto simp: api_throws_std_def n_at_def n_get_def n_as_string_def n_pairs_def split: ynode.splits)

lemma throws_std_opt_field: "api_throws_std api \<Longrightarrow> throws_std (opt_field api n k upd r)"
  unfolding opt_field_def by (auto intro!: throws_std_rbind throws_std_node)

lemma throws_std_seq_cast:
  "api_throws_std api \<Longrightarrow> (\<And>s. throws_std (elem s)) \<Longrightarrow> throws_std (seq_cast api elem add start v)"
  unfolding seq_cast_def by (auto intro!: throws_std_rbind throws_std_rfold throws_std_node)

lemma throws_std_map_cast:
  "api_throws_std api \<Longrightarrow> (\<And>s. throws_std (elem s)) \<Longrightarrow> throws_std (map_cast api elem put start v)"
  unfolding map_cast_def
  by (auto intro!: throws_std_rbind throws_std_rfold throws_std_node(1) intro: throws_std_node(6))

lemma throws_std_appender: "api_throws_std api \<Longrightarrow> throws_std (appender_define_from api v)"
  unfolding appender_define_from_def Let_def
  by (auto intro!: throws_std_rbind throws_std_node throws_std_opt_field)

lemma throws_std_log: "api_throws_std api \<Longrightarrow> throws_std (log_define_from api v)"
  unfolding log_define_from_def Let_def
  by (auto intro!: throws_std_rbind throws_std_node throws_std_opt_field throws_std_seq_cast throws_std_appender)

lemma from_string_throws_std: "api_throws_std api \<Longrightarrow> throws_std (from_string api t v)"
  by (induction t arbitrary: v)
    (auto intro!: throws_std_rbind throws_std_seq_cast throws_std_map_cast throws_std_appender
      throws_std_log throws_std_node(5))

text \<open>The enumerations of the unordered containers list nothing but their elements.\<close>

definition enumerates :: "'b lex_api \<Rightarrow> bool" where
  "enumerates api \<longleftrightarrow>
     (\<forall>s. set (uset_order api s) \<subseteq> fset s)
     \<and> (\<forall>m p. p \<in> set (umap_order api m) \<longrightarrow> fmlookup m (fst p) = Some (snd p))"

lemma seq_text_total:
  assumes "\<And>x. x \<in> set xs \<Longrightarrow> \<exists>s. elem x = Inr s"
  shows "\<exists>s. seq_text api elem xs = Inr s"
proof -
  have "\<exists>ss. rfold (\<lambda>d ss. rbind (elem d) (\<lambda>s. Inr (ss @ [s]))) xs [] = Inr ss \<and> True"
    by (rule rfold_invariant) (use assms in force)+
  then show ?thesis by (auto simp: seq_text_def)
qed

lemma map_text_total:
  assumes "\<And>p. p \<in> set m \<Longrightarrow> \<exists>s. elem (snd p) = Inr s"
  shows "\<exists>s. map_text api elem m = Inr s"
proof -
  have "\<exists>kvs. rfold (\<lambda>(k, d) kvs. rbind (elem d) (\<lambda>s. Inr (kvs @ [(k, s)]))) m [] = Inr kvs \<and> True"
    by (rule rfold_invariant) (use assms in force)+
  then show ?thesis by (auto simp: map_text_def)
qed

lemma log_define_to_total: "\<exists>s. log_define_to api d = Inr s"
  using seq_text_total [of "ld_appenders d" "\<lambda>a. Inr (appender_define_to api a)" api]
  by (auto simp: log_define_to_def)

lemma to_string_total:
  assumes base: "\<And>t b. ok t b \<Longrightarrow> \<exists>s. lex_to api b = Inr s" and "enumerates api"
  shows "has_type api ok t x \<Longrightarrow> \<exists>s. to_string api t x = Inr s"
proof (induction t arbitrary: x)
  case (TBase t)
  then show ?case using base by (auto split: cval.splits)
next
  case (TUSet t)
  then obtain s where x: "x = VUSet s" and "fBall s (has_type api ok t)" by (auto split: cval.splits)
  with \<open>enumerates api\<close> have "\<And>y. y \<in> set (uset_order api s) \<Longrightarrow> \<exists>r. to_string api t y = Inr r"
    by (intro TUSet.IH) (auto simp: enumerates_def)
  from seq_text_total [OF this] x show ?case by simp
next
  case (TMap t)
  then show ?case by (auto intro!: map_text_total simp: list_all_iff split: cval.splits)
next
  case (TUMap t)
  then obtain m where x: "x = VUMap m" and m: "fmpred (\<lambda>_ x. has_type api ok t x) m"
    by (auto split: cval.splits)
  have "\<exists>r. to_string api t (snd p) = Inr r" if "p \<in> set (umap_order api m)" for p
  proof -
    from that \<open>enumerates api\<close> have "fmlookup m (fst p) = Some (snd p)"
      by (simp add: enumerates_def)
    with m show ?thesis by (auto intro!: TUMap.IH)
  qed
  then have "\<exists>s. map_text api (to_string api t) (umap_order api m) = Inr s"
    by (rule map_text_total)
  with x show ?case by simp
qed (auto intro!: seq_text_total simp: list_all_iff log_define_to_total split: cval.splits)

text \<open>
  C29: every cast from text to a type of the configuration, however deep its containers nest, returns
  a well-formed value of that type (maps without duplicate keys and in key order, appender
  definitions for which an appender can be constructed), and that value has a text.
\<close>

theorem cast_typed:
  assumes "\<forall>t s b. lex_from api t s = Inr b \<longrightarrow> ok t b"
    and "\<forall>t b. ok t b \<longrightarrow> (\<exists>s. lex_to api b = Inr s)" and "enumerates api"
    and "from_string api t v = Inr x"
  shows "has_type api ok t x \<and> (\<exists>s. to_string api t x = Inr s)"
proof -
  have "has_type api ok t x"
    by (rule from_string_typed [of api ok, OF _ assms(4)]) (use assms(1) in blast)
  moreover from this have "\<exists>s. to_string api t x = Inr s"
    by (rule to_string_total [of ok api, rotated 2]) (use assms(2,3) in auto)
  ultimately show ?thesis by blast
qed

subsection \<open>Loading what was emitted\<close>

lemma rfold_nth_cong:
  assumes "\<And>i u. i < length ys \<Longrightarrow> f i u = g (ys ! i) u"
  shows "rfold f [0..<length ys] s = rfold g ys s"
  using assms
proof (induction ys rule: rev_induct)
  case (snoc y ys)
  have "rfold f [0..<length ys] s = rfold g ys s"
    by (rule snoc.IH) (use snoc.prems in \<open>auto simp: nth_append\<close>)
  moreover have "f (length ys) u = g y u" for u
    using snoc.prems [of "length ys" u] by simp
  ultimately show ?case by (auto simp: rfold_append intro!: rbind_cong)
qed simp

lemma seq_cast_emitted:
  assumes "reloads api (n_of_scalars ss)"
  shows "seq_cast api elem add start (y_emit api (n_of_scalars ss)) =
           rfold (\<lambda>s ret. rbind (elem (y_emit api (YScalar s))) (\<lambda>x. Inr (add x ret))) ss start"
proof (cases "ss = []")
  case True
  with assms show ?thesis by (simp add: reloads_def seq_cast_def n_of_scalars_def)
next
  case False
  then have "n_of_scalars ss = YSeq (map YScalar ss)" by (simp add: n_of_scalars_def)
  with assms show ?thesis
    by (simp add: reloads_def seq_cast_def n_at_def) (rule rfold_nth_cong, simp)
qed

lemma map_cast_emitted:
  assumes "reloads api (n_of_pairs kvs)"
  shows "map_cast api elem put start (y_emit api (n_of_pairs kvs)) =
           rfold (\<lambda>(k, s) ret. rbind (elem (y_emit api (YScalar s))) (\<lambda>x. Inr (put k x ret))) kvs start"
proof (cases "kvs = []")
  case True
  with assms show ?thesis by (simp add: reloads_def map_cast_def n_pairs_def n_of_pairs_def)
next
  case False
  then have n: "n_of_pairs kvs = YMap (map (\<lambda>(k, v). (YScalar k, YScalar v)) kvs)"
    by (simp add: n_of_pairs_def)
  have "rfold (\<lambda>p ret. rbind p (\<lambda>(k, s). rbind (elem s) (\<lambda>x. Inr (put k x ret))))
          (map (\<lambda>(k, s). Inr (k, y_emit api (YScalar s))) kvs) r =
        rfold (\<lambda>(k, s) ret. rbind (elem (y_emit api (YScalar s))) (\<lambda>x. Inr (put k x ret))) kvs r" for r
  proof (induction kvs arbitrary: r)
    case (Cons p kvs)
    then show ?case by (cases p) (auto intro: rbind_cong)
  qed simp
  with n assms show ?thesis
    by (simp add: reloads_def map_cast_def n_pairs_def comp_def case_prod_unfold)
qed

lemma seq_text_of:
  assumes "list_all2 (\<lambda>x s. elem x = Inr s) xs ss"
  shows "seq_text api elem xs = Inr (y_emit api (n_of_scalars ss))"
proof -
  have "rfold (\<lambda>d ss. rbind (elem d) (\<lambda>s. Inr (ss @ [s]))) xs acc = Inr (acc @ ss)" for acc
    using assms by (induction arbitrary: acc rule: list_all2_induct) simp_all
  then show ?thesis by (simp add: seq_text_def)
qed

lemma map_text_of:
  assumes "list_all2 (\<lambda>p q. fst p = fst q \<and> elem (snd p) = Inr (snd q)) m kvs"
  shows "map_text api elem m = Inr (y_emit api (n_of_pairs kvs))"
proof -
  have "rfold (\<lambda>(k, d) kvs. rbind (elem d) (\<lambda>s. Inr (kvs @ [(k, s)]))) m acc = Inr (acc @ kvs)" for acc
    using assms by (induction arbitrary: acc rule: list_all2_induct) (auto split: prod.splits)
  then show ?thesis by (simp add: map_text_def)
qed

lemma collect_emitted:
  assumes "list_all2 (\<lambda>x s. elem (y_emit api (YScalar s)) = Inr x) xs ss"
  shows "rfold (\<lambda>s ret. rbind (elem (y_emit api (YScalar s))) (\<lambda>x. Inr (ret @ [x]))) ss acc = Inr (acc @ xs)"
  using assms by (induction arbitrary: acc rule: list_all2_induct) simp_all

text \<open>Inserting in increasing order builds a set, or a map, back in the same order.\<close>

lemma set_insert_last:
  assumes "\<forall>y \<in> set ys. lt y x \<and> \<not> lt x y"
  shows "set_insert lt x ys = ys @ [x]"
  using assms by (induction lt x ys rule: set_insert.induct) auto

lemma mput_last: "\<forall>p \<in> set m. fst p < k \<Longrightarrow> mput k v m = m @ [(k, v)]"
  by (induction k v m rule: mput.induct) auto

lemma set_collect_emitted:
  assumes "list_all2 (\<lambda>x s. elem (y_emit api (YScalar s)) = Inr x) xs ss"
    and "sorted_wrt (\<lambda>x y. lt x y \<and> \<not> lt y x) xs"
    and "\<forall>a \<in> set acc. \<forall>x \<in> set xs. lt a x \<and> \<not> lt x a"
  shows "rfold (\<lambda>s ret. rbind (elem (y_emit api (YScalar s))) (\<lambda>x. Inr (set_insert lt x ret))) ss acc
           = Inr (acc @ xs)"
  using assms by (induction arbitrary: acc rule: list_all2_induct) (simp_all add: set_insert_last)

lemma map_collect_emitted:
  assumes "list_all2 (\<lambda>p q. fst p = fst q \<and> elem (y_emit api (YScalar (snd q))) = Inr (snd p)) m kvs"
    and "mwf m" and "\<forall>a \<in> set acc. \<forall>p \<in> set m. fst a < fst p"
  shows "rfold (\<lambda>(k, s) ret. rbind (elem (y_emit api (YScalar s))) (\<lambda>x. Inr (mput k x ret))) kvs acc
           = Inr (acc @ m)"
  using assms
proof (induction arbitrary: acc rule: list_all2_induct)
  case (Cons p m q kvs)
  then show ?case by (cases p; cases q) (simp add: mput_last)
qed simp

subsection \<open>Round trips of containers of basic values\<close>

definition basic_text :: "'b lex_api \<Rightarrow> string \<Rightarrow> 'b cval \<Rightarrow> string \<Rightarrow> bool" where
  "basic_text api t x s \<longleftrightarrow>
     (\<exists>b. x = VBase b \<and> lex_to api b = Inr s \<and> lex_from api t s = Inr b \<and> plain api s)"

lemma basic_text_to: "list_all2 (basic_text api t) xs ss \<Longrightarrow>
    list_all2 (\<lambda>x s. to_string api (TBase t) x = Inr s) xs ss"
  by (erule list_all2_mono) (auto simp: basic_text_def)

lemma basic_text_from: "list_all2 (basic_text api t) xs ss \<Longrightarrow>
    list_all2 (\<lambda>x s. from_string api (TBase t) (y_emit api (YScalar s)) = Inr x) xs ss"
  by (erule list_all2_mono) (auto simp: basic_text_def plain_def)


text \<open>The same for a \<open>map\<close> from strings to basic values.\<close>

theorem map_roundtrip:
  assumes elems: "list_all2 (\<lambda>p q. fst p = fst q \<and> basic_text api t (snd p) (snd q)) m kvs"
    and load: "reloads api (n_of_pairs kvs)" and "mwf m"
  shows "rbind (to_string api (TMap (TBase t)) (VMap m)) (from_string api (TMap (TBase t))) = Inr (VMap m)"
proof -
  have to: "list_all2 (\<lambda>p q. fst p = fst q \<and> to_string api (TBase t) (snd p) = Inr (snd q)) m kvs"
    using elems by (rule list_all2_mono) (auto simp: basic_text_def)
  have from_elems: "list_all2 (\<lambda>p q. fst p = fst q
      \<and> from_string api (TBase t) (y_emit api (YScalar (snd q))) = Inr (snd p)) m kvs"
    using elems by (rule list_all2_mono) (auto simp: basic_text_def plain_def)
  have "map_cast api (from_string api (TBase t)) mput [] (y_emit api (n_of_pairs kvs)) = Inr m"
    unfolding map_cast_emitted [OF load]
    using map_collect_emitted [OF from_elems \<open>mwf m\<close>, of "[]"] by simp
  then show ?thesis
    using map_text_of [OF to, of api] by (simp del: from_string.simps(1) to_string.simps(1))
qed

subsection \<open>Round trips that lose data\<close>

lemma scalar_as_sequence:
  "reloads api (YScalar s) \<Longrightarrow> seq_cast api elem add start (y_emit api (YScalar s)) = Inr start"
  by (simp add: reloads_def seq_cast_def)

text \<open>
  The inner containers of a vector of sets are written as scalars, so reading the variable's
  own text succeeds and returns as many empty sets.
\<close>

theorem nested_containers_lost:
  assumes texts: "list_all2 (\<lambda>x s. to_string api (TSet t) x = Inr s) xs ss"
    and load: "reloads api (n_of_scalars ss)" and scalars: "\<forall>s \<in> set ss. reloads api (YScalar s)"
  shows "rbind (to_string api (TVector (TSet t)) (VSeq xs)) (from_string api (TVector (TSet t)))
           = Inr (VSeq (replicate (length xs) (VSet [])))"
proof -
  have "list_all2 (\<lambda>x s. from_string api (TSet t) (y_emit api (YScalar s)) = Inr x)
          (replicate (length xs) (VSet [])) ss"
    using scalars list_all2_lengthD [OF texts]
    by (auto simp: list_all2_conv_all_nth scalar_as_sequence)
  from collect_emitted [OF this, of "[]"]
  have "seq_cast api (from_string api (TSet t)) (\<lambda>x xs. xs @ [x]) [] (y_emit api (n_of_scalars ss))
          = Inr (replicate (length xs) (VSet []))"
    unfolding seq_cast_emitted [OF load] by simp
  with seq_text_of [OF texts, of api] show ?thesis
    by (simp del: from_string.simps(4) to_string.simps(4))
qed

lemma n_of_pairs_YMap:
  "kvs \<noteq> [] \<Longrightarrow> n_of_pairs kvs = YMap (map (\<lambda>(k, v). (YScalar k, YScalar v)) kvs)"
  by (simp add: n_of_pairs_def)

text \<open>C31: an appender definition is read back from its own text.\<close>

theorem appender_define_roundtrip:
  assumes "ad_type a = 1 \<or> ad_type a = 2 \<and> ad_file a = []" and "ad_level a \<in> set enumerators"
    and "reloads api (n_of_pairs (appender_pairs a))"
  shows "from_string api TAppenderDefine (appender_define_to api a) = Inr (VApp a)"
proof -
  have "appender_define_from api (appender_define_to api a) = Inr a"
    using assms
    by (auto simp: appender_define_from_def appender_define_to_def reloads_def appender_pairs_def
        n_of_pairs_YMap n_get_def n_as_string_def opt_field_def new_appender_define_def Let_def
        level_from_to_string)
  then show ?thesis by simp
qed

text \<open>A logger definition comes back from its own text without its appenders.\<close>

lemma log_define_text_loses_appenders:
  assumes "ld_level d \<in> set enumerators"
    and apps: "seq_text api (\<lambda>a. Inr (appender_define_to api a)) (ld_appenders d) = Inr apps"
    and "reloads api (n_of_pairs (log_define_pairs d apps))" and "reloads api (YScalar apps)"
  shows "rbind (log_define_to api d) (log_define_from api) = Inr (d\<lparr>ld_appenders := []\<rparr>)"
  using assms
  by (auto simp: log_define_from_def log_define_to_def reloads_def log_define_pairs_def
      n_of_pairs_YMap n_get_def n_as_string_def opt_field_def new_log_define_def Let_def
      seq_cast_def level_from_to_string)

text \<open>
  The text of a \<open>logs\<close> variable with at least one definition cannot be read back: every
  definition is a scalar of the sequence, and subscripting a scalar node throws.
\<close>

theorem logs_text_unreadable:
  assumes texts: "list_all2 (\<lambda>d s. log_define_to api d = Inr s) ds ss" and "ds \<noteq> []"
    and load: "reloads api (n_of_scalars ss)" and scalars: "\<forall>s \<in> set ss. reloads api (YScalar s)"
    and throws: "\<forall>s k. y_sub_other api (YScalar s) k = Inl bad_subscript"
  shows "rbind (to_string api (TSet TLogDefine) (VSet (map VLog ds))) (from_string api (TSet TLogDefine))
           = Inl bad_subscript"
proof -
  have "list_all2 (\<lambda>x s. to_string api TLogDefine x = Inr s) (map VLog ds) ss"
    using texts by (simp add: list_all2_map1)
  from seq_text_of [OF this, of api]
  have to: "to_string api (TSet TLogDefine) (VSet (map VLog ds)) = Inr (y_emit api (n_of_scalars ss))"
    by simp
  from \<open>ds \<noteq> []\<close> list_all2_lengthD [OF texts] obtain s ss' where ss: "ss = s # ss'"
    by (cases ss) auto
  have "log_define_from api (y_emit api (YScalar s)) = Inl bad_subscript"
    using scalars ss throws by (simp add: log_define_from_def reloads_def n_get_def)
  with ss have "seq_cast api (from_string api TLogDefine) (set_insert (cless (lex_less api))) []
      (y_emit api (n_of_scalars ss)) = Inl bad_subscript"
    unfolding seq_cast_emitted [OF load] by simp
  with to show ?thesis by (simp del: from_string.simps(9) to_string.simps(4))
qed

subsection \<open>Reading the logging configuration\<close>

text \<open>The string under a key of a map node.\<close>

definition field :: "(ynode \<times> ynode) list \<Rightarrow> string \<Rightarrow> string option" where
  "field ps k = (case find_key k ps of YScalar s \<Rightarrow> Some s | _ \<Rightarrow> None)"

definition string_fields :: "string list \<Rightarrow> (ynode \<times> ynode) list \<Rightarrow> bool" where
  "string_fields ks ps \<longleftrightarrow> (\<forall>k \<in> set ks. find_key k ps = YUndef \<or> n_isScalar (find_key k ps))"

lemma n_isScalar_iff: "n_isScalar n \<longleftrightarrow> (\<exists>s. n = YScalar s)"
  by (cases n) auto

lemma get_string_field:
  assumes "string_fields ks ps" and "k \<in> set ks"
  shows "field ps k = None \<and> find_key k ps = YUndef \<or> (\<exists>s. field ps k = Some s \<and> find_key k ps = YScalar s)"
  using assms by (auto simp: string_fields_def field_def n_isScalar_iff)

lemma opt_string_field:
  assumes "string_fields ks ps" and "k \<in> set ks"
  shows "opt_field api (YMap ps) k upd r = Inr (case field ps k of None \<Rightarrow> r | Some s \<Rightarrow> upd s r)"
  using get_string_field [OF assms] by (auto simp: opt_field_def n_get_def n_as_string_def)

abbreviation appender_keys :: "string list" where
  "appender_keys \<equiv> [''type'', ''file'', ''level'', ''formatter'']"

lemma n_get_YMap [simp]: "n_get api (YMap ps) k = Inr (find_key k ps)"
  by (simp add: n_get_def)

lemma n_as_string_YScalar [simp]: "n_as_string api (YScalar s) = Inr s"
  by (simp add: n_as_string_def)

definition appender_entry :: "(ynode \<times> ynode) list \<Rightarrow> log_appender_define" where
  "appender_entry ps =
     \<lparr>ad_type = (if field ps ''type'' = Some ''FileLogAppender'' then 1 else 2),
      ad_level = (case field ps ''level'' of None \<Rightarrow> UNKNOW | Some s \<Rightarrow> level_from_string s),
      ad_formatter = (case field ps ''formatter'' of None \<Rightarrow> [] | Some s \<Rightarrow> s),
      ad_file = (if field ps ''type'' = Some ''FileLogAppender''
                 then the (field ps ''file'') else [])\<rparr>"

lemma appender_define_from_map:
  assumes load: "y_load api v = Inr (YMap ps)" and strings: "string_fields appender_keys ps"
  shows "appender_define_from api v =
     (case field ps ''type'' of
        None \<Rightarrow> Inl (invalid_argument ''log conf: appender type name not define!'')
      | Some tp \<Rightarrow>
          if tp = ''StdoutLogAppender'' then Inr (appender_entry ps)
          else if tp = ''FileLogAppender'' then
            if field ps ''file'' = None
            then Inl (invalid_argument ''log conf: fileAppender need file path!'')
            else Inr (appender_entry ps)
          else Inl (invalid_argument (''log conf: appender type name: '' @ tp @ '' invalid!'')))"
proof -
  note opt = opt_string_field [OF strings]
  consider "field ps ''type'' = None" "find_key ''type'' ps = YUndef"
    | tp where "field ps ''type'' = Some tp" "find_key ''type'' ps = YScalar tp"
    using get_string_field [OF strings, of "''type''"] by auto
  then show ?thesis
  proof cases
    case 1
    then show ?thesis by (simp add: appender_define_from_def load)
  next
    case 2
    consider "tp = ''StdoutLogAppender''" | "tp = ''FileLogAppender''"
      | "tp \<noteq> ''StdoutLogAppender''" "tp \<noteq> ''FileLogAppender''" by blast
    then show ?thesis
    proof cases
      case 1
      with 2 show ?thesis
        by (simp add: appender_define_from_def load opt new_appender_define_def appender_entry_def
            Let_def split: option.split)
    next
      case 2
      with \<open>find_key ''type'' ps = YScalar tp\<close> \<open>field ps ''type'' = Some tp\<close>
        get_string_field [OF strings, of "''file''"]
      show ?thesis
        by (auto simp: appender_define_from_def load opt new_appender_define_def appender_entry_def
            Let_def split: option.split)
    next
      case 3
      with 2 show ?thesis by (simp add: appender_define_from_def load Let_def)
    qed
  qed
qed

text \<open>
  An appender entry is accepted exactly when its type is one of the two class names and a file
  appender names a file; the definition then has the given level and pattern, or none, and a type
  for which the listener constructs an appender. Any other entry throws \<open>invalid_argument\<close>.
\<close>

theorem appender_entry_accepted:
  assumes "y_load api v = Inr (YMap ps)" and "string_fields appender_keys ps"
  shows "if field ps ''type'' = Some ''StdoutLogAppender''
            \<or> field ps ''type'' = Some ''FileLogAppender'' \<and> field ps ''file'' \<noteq> None
         then appender_define_from api v = Inr (appender_entry ps)
            \<and> ad_type (appender_entry ps) \<in> {1, 2}
            \<and> ad_level (appender_entry ps) \<in> set enumerators
         else \<exists>what. appender_define_from api v = Inl (invalid_argument what)"
  using appender_define_from_map [OF assms] level_from_string_enumerator
  by (auto simp: appender_entry_def enumerators_def split: option.split)

text \<open>One bad appender entry makes the whole logger definition fail, with that entry's error.\<close>

abbreviation logger_keys :: "string list" where
  "logger_keys \<equiv> [''name'', ''level'', ''formatter'']"

text \<open>
  A logger entry without a name throws; otherwise the definition carries the name, the level
  and pattern that are given, and the definitions of the entries of its \<open>appender\<close> sequence
  in order, up to the first entry that fails, whose error is the error of the whole entry.
\<close>

theorem logger_entry:
  assumes load: "y_load api v = Inr (YMap ps)" and strings: "string_fields logger_keys ps"
    and apps: "find_key ''appender'' ps = YSeq ns" and reload: "reloads api (YSeq ns)"
  shows "log_define_from api v =
     (case field ps ''name'' of
        None \<Rightarrow> Inl (invalid_argument ''log config error: no name!'')
      | Some name \<Rightarrow>
          rbind (rfold (\<lambda>n as. rbind (appender_define_from api (y_emit api n)) (\<lambda>a. Inr (as @ [a]))) ns [])
            (\<lambda>as. Inr \<lparr>ld_name = name,
              ld_level = (case field ps ''level'' of None \<Rightarrow> UNKNOW | Some s \<Rightarrow> level_from_string s),
              ld_formatter = (case field ps ''formatter'' of None \<Rightarrow> [] | Some s \<Rightarrow> s),
              ld_appenders = as\<rparr>))"
proof -
  note opt = opt_string_field [OF strings]
  have cast: "seq_cast api (appender_define_from api) (\<lambda>x xs. xs @ [x]) [] (y_emit api (YSeq ns)) =
      rfold (\<lambda>n as. rbind (appender_define_from api (y_emit api n)) (\<lambda>a. Inr (as @ [a]))) ns []"
    using reload by (simp add: reloads_def seq_cast_def n_at_def) (rule rfold_nth_cong, simp)
  consider "field ps ''name'' = None" "find_key ''name'' ps = YUndef"
    | name where "field ps ''name'' = Some name" "find_key ''name'' ps = YScalar name"
    using get_string_field [OF strings, of "''name''"] by auto
  then show ?thesis
  proof cases
    case 1
    then show ?thesis by (simp add: log_define_from_def load)
  next
    case 2
    then show ?thesis
      by (auto simp: log_define_from_def load opt apps cast new_log_define_def Let_def
          intro!: rbind_cong split: option.split)
  qed
qed

subsection \<open>A concrete library\<close>

text \<open>
  An instance of the parameter with integers as basic values: emission in block style, quoting of
  empty and multi-line scalars, and a loader that knows a given list of nodes by their texts and takes
  any other text for a scalar. It shows that the hypotheses above can hold.
\<close>

primrec demo_emit :: "ynode \<Rightarrow> string" where
  "demo_emit YUndef = []"
| "demo_emit YNull = ''~''"
| "demo_emit (YScalar s) =
     (if s = [] \<or> CHR 0x0A \<in> set s then CHR 0x22 # s @ [CHR 0x22] else s)"
| "demo_emit (YSeq ns) = concat (map (\<lambda>s. ''- '' @ s @ [CHR 0x0A]) (map demo_emit ns))"
| "demo_emit (YMap ps) =
     concat (map (\<lambda>(k, v). k @ '': '' @ v @ [CHR 0x0A]) (map (map_prod demo_emit demo_emit) ps))"

definition demo_api :: "ynode list \<Rightarrow> int lex_api" where
  "demo_api nodes =
     \<lparr>y_load = (\<lambda>s. case List.find (\<lambda>n. demo_emit n = s) nodes of Some n \<Rightarrow> Inr n | None \<Rightarrow> Inr (YScalar s)),
      y_emit = demo_emit,
      y_at_map = (\<lambda>_ _. Inr YUndef),
      y_sub_other = (\<lambda>n _. case n of YScalar _ \<Rightarrow> Inl (StdException ''bad subscript'') | _ \<Rightarrow> Inr YUndef),
      y_str_other = (\<lambda>_. Inl (StdException ''bad conversion'')),
      y_seq_pair = (\<lambda>_. Inl (StdException ''bad iteration'')),
      lex_from = (\<lambda>_ s. if s \<noteq> [] \<and> list_all (\<lambda>c. 48 \<le> (of_char c :: nat) \<and> of_char c \<le> (57 :: nat)) s
                        then Inr (int (undec s)) else Inl (StdException ''bad lexical cast'')),
      lex_to = (\<lambda>b. Inr (dec_int b)),
      lex_less = (<),
      uset_order = (\<lambda>s. if s = {|VBase 1, VBase 2|} then [VBase 2, VBase 1] else []),
      umap_order = (\<lambda>_. [])\<rparr>"

lemma cast_typed_witness:
  "has_type (demo_api [YSeq [YScalar ''1'', YScalar ''2'']]) (\<lambda>_ _. True) (TUSet (TBase ''int''))
       (VUSet {|VBase 1, VBase 2|})
   \<and> (\<exists>s. to_string (demo_api [YSeq [YScalar ''1'', YScalar ''2'']]) (TUSet (TBase ''int''))
         (VUSet {|VBase 1, VBase 2|}) = Inr s)"
proof (rule cast_typed [where v = "demo_emit (YSeq [YScalar ''1'', YScalar ''2''])"])
  show "from_string (demo_api [YSeq [YScalar ''1'', YScalar ''2'']]) (TUSet (TBase ''int''))
     (demo_emit (YSeq [YScalar ''1'', YScalar ''2''])) = Inr (VUSet {|VBase 1, VBase 2|})"
    by (simp add: demo_api_def seq_cast_def n_at_def undec_def finsert_commute)
qed (auto simp: demo_api_def enumerates_def)

definition demo_ints :: "int lex_api" where
  "demo_ints = demo_api [YSeq [YScalar ''3'', YScalar ''7''],
                         YMap [(YScalar ''aa'', YScalar ''26''), (YScalar ''bb'', YScalar ''27'')]]"


lemma map_roundtrip_witness:
  "rbind (to_string demo_ints (TMap (TBase ''int'')) (VMap [(''aa'', VBase 26), (''bb'', VBase 27)]))
     (from_string demo_ints (TMap (TBase ''int''))) = Inr (VMap [(''aa'', VBase 26), (''bb'', VBase 27)])"
proof (rule map_roundtrip [where kvs = "[(''aa'', ''26''), (''bb'', ''27'')]"])
  have "lex_to demo_ints 26 = Inr ''26'' \<and> lex_to demo_ints 27 = Inr ''27''
      \<and> lex_from demo_ints ''int'' ''26'' = Inr 26 \<and> lex_from demo_ints ''int'' ''27'' = Inr 27
      \<and> y_emit demo_ints (YScalar ''26'') = ''26'' \<and> y_emit demo_ints (YScalar ''27'') = ''27''"
    by code_simp
  then show "list_all2 (\<lambda>p q. fst p = fst q \<and> basic_text demo_ints ''int'' (snd p) (snd q))
      [(''aa'', VBase 26), (''bb'', VBase 27)] [(''aa'', ''26''), (''bb'', ''27'')]"
    by (simp add: basic_text_def plain_def)
  show "reloads demo_ints (n_of_pairs [(''aa'', ''26''), (''bb'', ''27'')])" by code_simp
  show "mwf [(''aa'', VBase 26 :: int cval), (''bb'', VBase 27)]" by code_simp
qed

text \<open>The texts of the sets \<open>{1}\<close> and \<open>{2}\<close>, as scalars and as a sequence.\<close>

definition demo_sets :: "int lex_api" where
  "demo_sets = (let t = [''- 1'' @ [CHR 0x0A], ''- 2'' @ [CHR 0x0A]]
                in demo_api (YSeq (map YScalar t) # map YScalar t))"

lemma nested_containers_lost_witness:
  "rbind (to_string demo_sets (TVector (TSet (TBase ''int''))) (VSeq [VSet [VBase 1], VSet [VBase 2]]))
     (from_string demo_sets (TVector (TSet (TBase ''int'')))) = Inr (VSeq [VSet [], VSet []])"
proof -
  have "rbind (to_string demo_sets (TVector (TSet (TBase ''int''))) (VSeq [VSet [VBase 1], VSet [VBase 2]]))
     (from_string demo_sets (TVector (TSet (TBase ''int''))))
     = Inr (VSeq (replicate (length [VSet [VBase (1::int)], VSet [VBase 2]]) (VSet [])))"
  proof (rule nested_containers_lost [where ss = "[''- 1'' @ [CHR 0x0A], ''- 2'' @ [CHR 0x0A]]"])
    have "to_string demo_sets (TSet (TBase ''int'')) (VSet [VBase 1]) = Inr (''- 1'' @ [CHR 0x0A])"
      "to_string demo_sets (TSet (TBase ''int'')) (VSet [VBase 2]) = Inr (''- 2'' @ [CHR 0x0A])"
      by code_simp+
    then show "list_all2 (\<lambda>x s. to_string demo_sets (TSet (TBase ''int'')) x = Inr s)
        [VSet [VBase 1], VSet [VBase 2]] [''- 1'' @ [CHR 0x0A], ''- 2'' @ [CHR 0x0A]]"
      by simp
    show "reloads demo_sets (n_of_scalars [''- 1'' @ [CHR 0x0A], ''- 2'' @ [CHR 0x0A]])" by code_simp
    show "\<forall>s \<in> set [''- 1'' @ [CHR 0x0A], ''- 2'' @ [CHR 0x0A]]. reloads demo_sets (YScalar s)"
      by code_simp
  qed
  then show ?thesis by simp
qed

definition demo_file_define :: log_appender_define where
  "demo_file_define = \<lparr>ad_type = 1, ad_level = WARN, ad_formatter = ''%m'', ad_file = ''a.log''\<rparr>"

lemma appender_define_roundtrip_witness:
  "from_string (demo_api [n_of_pairs (appender_pairs demo_file_define)]) TAppenderDefine
     (appender_define_to (demo_api [n_of_pairs (appender_pairs demo_file_define)]) demo_file_define)
   = Inr (VApp demo_file_define)"
  by (rule appender_define_roundtrip)
    (simp_all add: demo_file_define_def enumerators_def, simp_all add: reloads_def demo_api_def)

definition demo_log_define :: log_define where
  "demo_log_define =
     \<lparr>ld_name = ''system'', ld_level = INFO, ld_formatter = ''%m'', ld_appenders = [demo_file_define]\<rparr>"

definition demo_logs_text :: string where
  "demo_logs_text = (case log_define_to (demo_api []) demo_log_define of Inr s \<Rightarrow> s | Inl _ \<Rightarrow> [])"

definition demo_logs :: "int lex_api" where
  "demo_logs = demo_api [YSeq [YScalar demo_logs_text], YScalar demo_logs_text]"

lemma logs_text_unreadable_witness:
  "rbind (to_string demo_logs (TSet TLogDefine) (VSet (map VLog [demo_log_define])))
     (from_string demo_logs (TSet TLogDefine)) = Inl (StdException ''bad subscript'')"
proof (rule logs_text_unreadable [where ss = "[demo_logs_text]"])
  have "log_define_to demo_logs demo_log_define = Inr demo_logs_text" by code_simp
  then show "list_all2 (\<lambda>d s. log_define_to demo_logs d = Inr s) [demo_log_define] [demo_logs_text]"
    by simp
  show "reloads demo_logs (n_of_scalars [demo_logs_text])" by code_simp
  show "\<forall>s \<in> set [demo_logs_text]. reloads demo_logs (YScalar s)" by code_simp
  show "\<forall>s k. y_sub_other demo_logs (YScalar s) k = Inl (StdException ''bad subscript'')"
    by (simp add: demo_logs_def demo_api_def)
qed simp

definition demo_entry :: "(ynode \<times> ynode) list" where
  "demo_entry = [(YScalar ''type'', YScalar ''FileLogAppender''), (YScalar ''file'', YScalar ''a.log''),
                 (YScalar ''level'', YScalar ''error'')]"

lemma appender_entry_accepted_witness:
  "appender_define_from (demo_api [YMap demo_entry]) (demo_emit (YMap demo_entry))
     = Inr \<lparr>ad_type = 1, ad_level = ERROR, ad_formatter = [], ad_file = ''a.log''\<rparr>"
proof -
  have "appender_define_from (demo_api [YMap demo_entry]) (demo_emit (YMap demo_entry))
      = Inr (appender_entry demo_entry)"
    using appender_entry_accepted [of "demo_api [YMap demo_entry]" "demo_emit (YMap demo_entry)" demo_entry]
    by (simp add: demo_api_def string_fields_def field_def demo_entry_def)
  also have "appender_entry demo_entry =
      \<lparr>ad_type = 1, ad_level = ERROR, ad_formatter = [], ad_file = ''a.log''\<rparr>"
    by code_simp
  finally show ?thesis .
qed

definition demo_bad_entry :: ynode where
  "demo_bad_entry = YMap [(YScalar ''type'', YScalar ''FileLogAppender'')]"

definition demo_conf :: "ynode list" where
  "demo_conf =
     [YMap [(YScalar ''name'', YScalar ''system''), (YScalar ''level'', YScalar ''info''),
            (YScalar ''appender'', YSeq [YMap demo_entry, demo_bad_entry])],
      YSeq [YMap demo_entry, demo_bad_entry], YMap demo_entry, demo_bad_entry]"

text \<open>The second of two appender entries has no file: the whole logger entry is refused.\<close>

lemma logger_entry_witness:
  "log_define_from (demo_api demo_conf) (demo_emit (hd demo_conf))
     = Inl (invalid_argument ''log conf: fileAppender need file path!'')"
proof -
  let ?api = "demo_api demo_conf"
  let ?ps = "[(YScalar ''name'', YScalar ''system''), (YScalar ''level'', YScalar ''info''),
            (YScalar ''appender'', YSeq [YMap demo_entry, demo_bad_entry])]"
  have "y_load ?api (demo_emit (hd demo_conf)) = Inr (YMap ?ps)"
    and "reloads ?api (YSeq [YMap demo_entry, demo_bad_entry])" by code_simp+
  from logger_entry [OF this(1) _ _ this(2)]
  have "log_define_from ?api (demo_emit (hd demo_conf)) =
    rbind (rfold (\<lambda>n as. rbind (appender_define_from ?api (y_emit ?api n)) (\<lambda>a. Inr (as @ [a])))
             [YMap demo_entry, demo_bad_entry] [])
      (\<lambda>as. Inr \<lparr>ld_name = ''system'', ld_level = level_from_string ''info'', ld_formatter = [],
                ld_appenders = as\<rparr>)"
    by (simp add: string_fields_def field_def)
  also have "\<dots> = Inl (invalid_argument ''log conf: fileAppender need file path!'')"
    by code_simp
  finally show ?thesis .
qed

end
