(* ===== verification/ConfigVar.thy ===== *)
theory ConfigVar
  imports LexicalProps
begin

section \<open>Configuration variables\<close>

text \<open>
  \<open>ConfigVarBase\<close> and \<open>ConfigVar\<close> of \<open>include/config.hpp\<close>. A variable of C++
  type \<open>T\<close> carries the \<open>cty\<close> that stands for \<open>T\<close>; its listeners are named by
  numbers, and what running one does to the rest of the program is the field \<open>run_cb\<close> of
  the environment: the fault it throws, if any, and the state it leaves, throwing or not. Listeners
  are run while the variable's lock is held and cannot change the variable itself. Values are compared
  with HOL's equality, so \<open>'b\<close> is to be read up to the \<open>operator==\<close> of the basic types.
\<close>

type_synonym cb_id = nat

record ('b, 'w) cfg_env =
  lex :: "'b lex_api"
  typeid_name :: "cty \<Rightarrow> string"
  root_log_on :: "level \<Rightarrow> 'w \<Rightarrow> bool"
  root_log :: "level \<Rightarrow> string \<Rightarrow> 'w \<Rightarrow> 'w result"
  run_cb :: "cb_id \<Rightarrow> 'b cval \<Rightarrow> 'b cval \<Rightarrow> 'w \<Rightarrow> fault option \<times> 'w"

record 'b config_var =
  cv_name :: string
  cv_desp :: string
  cv_ty :: cty
  cv_val :: "'b cval"
  cv_cbs :: "(u64, cb_id) stdmap"

definition ConfigVarBase_ctor :: "string \<Rightarrow> string \<Rightarrow> string \<times> string" where
  [simp]: "ConfigVarBase_ctor name desp = (map tolower name, desp)"

definition new_config_var :: "cty \<Rightarrow> string \<Rightarrow> 'b cval \<Rightarrow> string \<Rightarrow> 'b config_var" where
  "new_config_var ty name default_val desp =
     (let (m_name, m_description) = ConfigVarBase_ctor name desp in
      \<lparr>cv_name = m_name, cv_desp = m_description, cv_ty = ty, cv_val = default_val, cv_cbs = []\<rparr>)"

definition getName :: "'b config_var \<Rightarrow> string" where
  "getName cv = cv_name cv"

definition getDesp :: "'b config_var \<Rightarrow> string" where
  "getDesp cv = cv_desp cv"

definition getTypeName :: "('b, 'w) cfg_env \<Rightarrow> 'b config_var \<Rightarrow> string" where
  "getTypeName env cv = typeid_name env (cv_ty cv)"

definition getValue :: "'b config_var \<Rightarrow> 'b cval" where
  "getValue cv = cv_val cv"

subsection \<open>Setting a value\<close>

text \<open>The loop over \<open>m_cbs\<close>, in the order of the keys, left by the first exception.\<close>

primrec notify :: "('b, 'w) cfg_env \<Rightarrow> (u64, cb_id) stdmap \<Rightarrow> 'b cval \<Rightarrow> 'b cval \<Rightarrow> 'w \<Rightarrow> fault option \<times> 'w" where
  "notify env [] old new w = (None, w)"
| "notify env (p # ps) old new w =
     (case run_cb env (snd p) old new w of
        (None, w') \<Rightarrow> notify env ps old new w'
      | (Some e, w') \<Rightarrow> (Some e, w'))"

definition setValue ::
  "('b, 'w) cfg_env \<Rightarrow> 'b cval \<Rightarrow> 'b config_var \<Rightarrow> 'w \<Rightarrow> fault option \<times> 'b config_var \<times> 'w" where
  "setValue env v cv w =
     (if cv_val cv = v then (None, cv, w)
      else case notify env (cv_cbs cv) (cv_val cv) v w of
             (Some e, w') \<Rightarrow> (Some e, cv, w')
           | (None, w') \<Rightarrow> (None, cv\<lparr>cv_val := v\<rparr>, w'))"

subsection \<open>Text\<close>

text \<open>
  The handlers \<open>catch(std::exception& e)\<close> of \<open>toString\<close> and \<open>fromString\<close> log
  the exception; any other fault leaves the function.
\<close>

definition toString :: "('b, 'w) cfg_env \<Rightarrow> 'b config_var \<Rightarrow> 'w \<Rightarrow> (string \<times> 'w) result" where
  "toString env cv w =
     (case to_string (lex env) (cv_ty cv) (cv_val cv) of
        Inr s \<Rightarrow> Inr (s, w)
      | Inl (StdException what) \<Rightarrow>
          rbind (root_log env ERROR (''ConfigVar::toString exception'' @ what @ '' convert: ''
                   @ getTypeName env cv @ ''to string'') w) (\<lambda>w. Inr ([], w))
      | Inl e \<Rightarrow> Inl e)"

definition fromString ::
  "('b, 'w) cfg_env \<Rightarrow> string \<Rightarrow> 'b config_var \<Rightarrow> 'w \<Rightarrow> (bool \<times> 'b config_var \<times> 'w) result" where
  "fromString env val cv w =
     (let (res, cv', w') = (case from_string (lex env) (cv_ty cv) val of
                              Inl e \<Rightarrow> (Some e, cv, w)
                            | Inr v \<Rightarrow> setValue env v cv w)
      in case res of
           None \<Rightarrow> Inr (True, cv', w')
         | Some (StdException what) \<Rightarrow>
             rbind (root_log env ERROR (''ConfigVar::fromString exception'' @ what
                      @ '' convert: string to'' @ getTypeName env cv') w') (\<lambda>w''. Inr (False, cv', w''))
         | Some e \<Rightarrow> Inl e)"

subsection \<open>Listeners\<close>

text \<open>
  \<open>static uint64_t key\<close> of \<open>addListener\<close> is one counter for all variables of a type:
  it is passed in and returned.
\<close>

definition addListener :: "cb_id \<Rightarrow> u64 \<Rightarrow> 'b config_var \<Rightarrow> u64 \<times> u64 \<times> 'b config_var" where
  "addListener cb key cv = (key, key + 1, cv\<lparr>cv_cbs := mput key cb (cv_cbs cv)\<rparr>)"

definition delListener :: "u64 \<Rightarrow> 'b config_var \<Rightarrow> 'b config_var" where
  "delListener key cv = cv\<lparr>cv_cbs := mdel key (cv_cbs cv)\<rparr>"

definition clearListener :: "'b config_var \<Rightarrow> 'b config_var" where
  "clearListener cv = cv\<lparr>cv_cbs := []\<rparr>"

definition getListener :: "u64 \<Rightarrow> 'b config_var \<Rightarrow> cb_id option" where
  "getListener key cv = map_of (cv_cbs cv) key"

subsection \<open>Behaviour\<close>

text \<open>What the environment must do for an operation to be judged: log, and run listeners, without fault.\<close>

definition logging_ok :: "('b, 'w) cfg_env \<Rightarrow> ('w \<Rightarrow> bool) \<Rightarrow> bool" where
  "logging_ok env ok \<longleftrightarrow> (\<forall>lvl s w. ok w \<longrightarrow> (\<exists>w'. root_log env lvl s w = Inr w' \<and> ok w'))"

definition listeners_ok ::
  "('b, 'w) cfg_env \<Rightarrow> (string \<Rightarrow> 'b \<Rightarrow> bool) \<Rightarrow> ('w \<Rightarrow> bool) \<Rightarrow> bool" where
  "listeners_ok env okb ok \<longleftrightarrow>
     (\<forall>cb t old new w. has_type (lex env) okb t new \<longrightarrow> ok w
        \<longrightarrow> (\<exists>w'. run_cb env cb old new w = (None, w') \<and> ok w'))"

text \<open>The conversions of basic types return values of the type.\<close>

definition reads_typed :: "'b lex_api \<Rightarrow> (string \<Rightarrow> 'b \<Rightarrow> bool) \<Rightarrow> bool" where
  "reads_typed api okb \<longleftrightarrow> (\<forall>t s b. lex_from api t s = Inr b \<longrightarrow> okb t b)"

lemma from_string_reads_typed:
  "reads_typed api okb \<Longrightarrow> from_string api t v = Inr x \<Longrightarrow> has_type api okb t x"
  by (rule from_string_typed) (auto simp: reads_typed_def)

lemma notify_ok:
  "listeners_ok env okb ok \<Longrightarrow> has_type (lex env) okb t new \<Longrightarrow> ok w
     \<Longrightarrow> \<exists>w'. notify env ps old new w = (None, w') \<and> ok w'"
proof (induction ps arbitrary: w)
  case (Cons p ps)
  then obtain w1 where "run_cb env (snd p) old new w = (None, w1)" and "ok w1"
    unfolding listeners_ok_def by blast
  with Cons.IH [OF Cons.prems(1,2), of w1] show ?case by simp
qed simp

lemma setValue_ok:
  assumes "listeners_ok env okb ok" and "has_type (lex env) okb t v" and "ok w"
  shows "\<exists>w'. setValue env v cv w = (None, cv\<lparr>cv_val := v\<rparr>, w') \<and> ok w'"
  using assms notify_ok [OF assms, of "cv_cbs cv" "cv_val cv"] by (auto simp: setValue_def)

lemma setValue_frame:
  "setValue env v cv w = (r, cv', w') \<Longrightarrow>
     cv' = cv\<lparr>cv_val := cv_val cv'\<rparr> \<and> (cv_val cv' = v \<and> r = None \<or> cv' = cv \<and> r \<noteq> None)"
  by (auto simp: setValue_def split: if_splits prod.splits option.splits)

text \<open>The value a text leaves in a variable: texts that cannot be cast leave the old one.\<close>

definition assign :: "'b lex_api \<Rightarrow> cty \<Rightarrow> string \<Rightarrow> 'b cval \<Rightarrow> 'b cval" where
  "assign api ty s v = (case from_string api ty s of Inr x \<Rightarrow> x | Inl _ \<Rightarrow> v)"

lemma fromString_ok:
  assumes "listeners_ok env okb ok" and "logging_ok env ok" and "api_throws_std (lex env)"
    and "reads_typed (lex env) okb" and "ok w"
  shows "\<exists>w'. fromString env s cv w =
      Inr (\<exists>x. from_string (lex env) (cv_ty cv) s = Inr x,
           cv\<lparr>cv_val := assign (lex env) (cv_ty cv) s (cv_val cv)\<rparr>, w') \<and> ok w'"
proof (cases "from_string (lex env) (cv_ty cv) s")
  case (Inl e)
  with from_string_throws_std [OF assms(3), of "cv_ty cv" s] obtain what where "e = StdException what"
    by (auto simp: throws_std_def)
  moreover from assms(2,5) obtain w' where "root_log env ERROR
      (''ConfigVar::fromString exception'' @ what @ '' convert: string to'' @ getTypeName env cv) w = Inr w'"
    and "ok w'" unfolding logging_ok_def by blast
  ultimately show ?thesis using Inl by (simp add: fromString_def assign_def)
next
  case (Inr x)
  with setValue_ok [OF assms(1) from_string_reads_typed [OF assms(4) Inr] assms(5), of cv] show ?thesis
    by (auto simp: fromString_def assign_def)
qed

subsection \<open>Registered listeners run in order\<close>

text \<open>Registering a list of listeners one after the other.\<close>

primrec add_all :: "cb_id list \<Rightarrow> u64 \<Rightarrow> 'b config_var \<Rightarrow> u64 \<times> 'b config_var" where
  "add_all [] key cv = (key, cv)"
| "add_all (cb # cbs) key cv = (let (_, key', cv') = addListener cb key cv in add_all cbs key' cv')"

text \<open>The specification: the listeners of a list, in order, until one throws.\<close>

primrec run_listeners ::
  "('b, 'w) cfg_env \<Rightarrow> cb_id list \<Rightarrow> 'b cval \<Rightarrow> 'b cval \<Rightarrow> 'w \<Rightarrow> fault option \<times> 'w" where
  "run_listeners env [] old new w = (None, w)"
| "run_listeners env (cb # cbs) old new w =
     (case run_cb env cb old new w of
        (None, w') \<Rightarrow> run_listeners env cbs old new w'
      | (Some e, w') \<Rightarrow> (Some e, w'))"

lemma notify_run_listeners: "notify env m old new w = run_listeners env (map snd m) old new w"
  by (induction m arbitrary: w) (auto split: prod.split option.split)

definition keys_from :: "u64 \<Rightarrow> nat \<Rightarrow> u64 list" where
  "keys_from key n = map (\<lambda>i. key + of_nat i) [0..<n]"

lemma keys_from_Suc: "keys_from key (Suc n) = key # keys_from (key + 1) n"
  unfolding keys_from_def
  by (simp only: upt_conv_Cons [of 0 "Suc n"] zero_less_Suc if_True map_Suc_upt [symmetric])
    (simp add: ac_simps flip: of_nat_Suc)

lemma unat_key_plus:
  assumes "unat key + i < 2 ^ 64"
  shows "unat (key + of_nat i) = unat (key :: u64) + i"
proof -
  have "unat (of_nat i :: u64) = i"
    using assms by (simp add: unat_of_nat)
  with assms show ?thesis by (simp add: unat_word_ariths)
qed

lemma keys_from_sorted:
  assumes "unat key + n \<le> 2 ^ 64"
  shows "sorted_wrt (<) (keys_from key n)"
  using assms
  by (auto simp: keys_from_def sorted_wrt_iff_nth_less word_less_nat_alt unat_key_plus)

lemma add_all_cbs:
  assumes "unat key + length cbs \<le> 2 ^ 64" and "\<forall>p \<in> set (cv_cbs cv). fst p < key"
  shows "add_all cbs key cv = (key + of_nat (length cbs),
    cv\<lparr>cv_cbs := cv_cbs cv @ zip (keys_from key (length cbs)) cbs\<rparr>)"
  using assms
proof (induction cbs arbitrary: key cv)
  case (Cons cb cbs)
  show ?case
  proof (cases "cbs = []")
    case True
    with Cons.prems show ?thesis by (simp add: addListener_def mput_last keys_from_Suc keys_from_def)
  next
    case False
    then have "0 < length cbs" by simp
    with Cons.prems(1) have "unat key + 1 < 2 ^ 64" unfolding length_Cons by linarith
    then have un: "unat (key + 1) = unat key + 1"
      using unat_key_plus [of key 1] by simp
    let ?cv = "cv\<lparr>cv_cbs := cv_cbs cv @ [(key, cb)]\<rparr>"
    have "\<forall>p \<in> set (cv_cbs ?cv). fst p < key + 1"
      using Cons.prems(2) un by (auto simp: word_less_nat_alt)
    with Cons.IH [of "key + 1" ?cv] Cons.prems(1) un
    have "add_all cbs (key + 1) ?cv = (key + 1 + of_nat (length cbs),
        ?cv\<lparr>cv_cbs := cv_cbs ?cv @ zip (keys_from (key + 1) (length cbs)) cbs\<rparr>)" by simp
    with Cons.prems(2) show ?thesis
      by (simp add: addListener_def mput_last keys_from_Suc add.assoc)
  qed
qed (simp add: keys_from_def)

lemma mdel_zip:
  assumes "distinct ks" and "length ks = length vs" and "i < length ks"
  shows "map snd (mdel (ks ! i) (zip ks vs)) = take i vs @ drop (Suc i) vs"
  using assms
proof (induction ks arbitrary: vs i)
  case (Cons k ks)
  then obtain w ws where vs: "vs = w # ws" by (cases vs) auto
  show ?case
  proof (cases i)
    case 0
    with Cons.prems vs show ?thesis by simp
  next
    case (Suc j)
    with Cons.prems have "ks ! j \<noteq> k" by auto
    with Suc Cons vs show ?thesis by simp
  qed
qed simp

text \<open>
  C26: the listeners of a variable run in the order of their registration, each with the old and the
  new value and before the value is written; one that was deleted through the handle it was given is
  not run, and one that throws leaves the value alone and keeps the later ones from running.
\<close>

theorem listeners_run_in_order:
  assumes "cv_cbs cv = []" and "unat key + length cbs \<le> 2 ^ 64" and "i < length cbs"
    and "v \<noteq> cv_val cv"
  shows "setValue env v (delListener (key + of_nat i) (snd (add_all cbs key cv))) w =
     (let cv' = delListener (key + of_nat i) (snd (add_all cbs key cv))
      in case run_listeners env (take i cbs @ drop (Suc i) cbs) (cv_val cv) v w of
           (None, w') \<Rightarrow> (None, cv'\<lparr>cv_val := v\<rparr>, w')
         | (Some e, w') \<Rightarrow> (Some e, cv', w'))"
proof -
  let ?ks = "keys_from key (length cbs)"
  have all: "snd (add_all cbs key cv) = cv\<lparr>cv_cbs := zip ?ks cbs\<rparr>"
    using add_all_cbs [OF assms(2), of cv] assms(1) by simp
  have len: "length ?ks = length cbs" by (simp add: keys_from_def)
  have "distinct ?ks"
    using keys_from_sorted [OF assms(2)] by (simp add: strict_sorted_iff)
  from mdel_zip [OF this len, of i] assms(3)
  have "map snd (mdel (key + of_nat i) (zip ?ks cbs)) = take i cbs @ drop (Suc i) cbs"
    by (simp add: keys_from_def)
  with assms(4) show ?thesis
    unfolding all by (auto simp: setValue_def delListener_def notify_run_listeners Let_def split: option.split prod.split)
qed

subsection \<open>Concurrent calls of setValue\<close>

text \<open>
  \<open>setValue\<close> compares and notifies under the read lock and writes under the write lock, and
  holds neither in between. A state is the variable, the rest of the program, and the value each
  thread between the two sections is about to write.
\<close>

type_synonym ('b, 'w) set_state = "(nat \<Rightarrow> 'b cval option) \<times> 'b config_var \<times> 'w"

inductive set_step :: "('b, 'w) cfg_env \<Rightarrow> ('b, 'w) set_state \<Rightarrow> ('b, 'w) set_state \<Rightarrow> bool"
  for env :: "('b, 'w) cfg_env" where
  section_read: "pend t = None \<Longrightarrow> cv_val cv \<noteq> v
     \<Longrightarrow> notify env (cv_cbs cv) (cv_val cv) v w = (None, w')
     \<Longrightarrow> set_step env (pend, cv, w) (pend(t \<mapsto> v), cv, w')"
| section_write: "pend t = Some v
     \<Longrightarrow> set_step env (pend, cv, w) (pend(t := None), cv\<lparr>cv_val := v\<rparr>, w)"

inductive set_reach :: "('b, 'w) cfg_env \<Rightarrow> ('b, 'w) set_state \<Rightarrow> ('b, 'w) set_state \<Rightarrow> bool"
  for env :: "('b, 'w) cfg_env" and s0 :: "('b, 'w) set_state" where
  start: "set_reach env s0 s0"
| next_step: "set_reach env s0 s \<Longrightarrow> set_step env s s' \<Longrightarrow> set_reach env s0 s'"

inductive_cases set_stepE: "set_step env s s'"

text \<open>Both sections of one thread, with nothing in between, are a call of \<open>setValue\<close>.\<close>

lemma sections_are_setValue:
  assumes "setValue env v cv w = (None, cv', w')" and "cv_val cv \<noteq> v"
  shows "set_reach env ((\<lambda>_. None), cv, w) ((\<lambda>_. None), cv', w')"
proof -
  from assms have "notify env (cv_cbs cv) (cv_val cv) v w = (None, w')" and cv': "cv' = cv\<lparr>cv_val := v\<rparr>"
    by (auto simp: setValue_def split: prod.splits option.splits)
  with assms(2) have "set_step env ((\<lambda>_. None), cv, w) ((\<lambda>_. None)(0 \<mapsto> v), cv, w')"
    by (intro section_read) auto
  moreover have "set_step env ((\<lambda>_. None)(0 \<mapsto> v), cv, w') (((\<lambda>_. None)(0 \<mapsto> v))(0 := None), cv', w')"
    unfolding cv' by (rule section_write) simp
  ultimately show ?thesis
    by (metis fun_upd_upd fun_upd_triv set_reach.intros)
qed

text \<open>An environment whose only listener records the changes it is told of.\<close>

definition recording :: "'b lex_api \<Rightarrow> ('b, ('b cval \<times> 'b cval) list) cfg_env" where
  "recording api = \<lparr>lex = api, typeid_name = (\<lambda>_. []), root_log_on = (\<lambda>_ _. True),
     root_log = (\<lambda>_ _ w. Inr w), run_cb = (\<lambda>_ old new w. (None, w @ [(old, new)]))\<rparr>"

definition recorded_var :: "'b cval \<Rightarrow> 'b config_var" where
  "recorded_var v = snd (snd (addListener 0 0 (new_config_var (TBase ''int'') ''x'' v [])))"

lemma recorded_var_sel [simp]:
  "cv_val (recorded_var v) = v" "cv_cbs (recorded_var v) = [(0, 0)]"
  by (simp_all add: recorded_var_def addListener_def new_config_var_def)

lemma run_recorded [simp]: "run_cb (recording api) cb old new w = (None, w @ [(old, new)])"
  by (simp add: recording_def)

text \<open>
  Whatever the interleaving of calls, every value the variable has or is about to get was
  announced to the listeners first.
\<close>

theorem setValue_announced:
  assumes "set_reach (recording api) ((\<lambda>_. None), recorded_var v0, []) (pend, cv, w)"
  shows "(cv_val cv = v0 \<or> cv_val cv \<in> snd ` set w) \<and> (\<forall>t v. pend t = Some v \<longrightarrow> v \<in> snd ` set w)"
proof -
  have "cv_cbs cv = [(0, 0)] \<and> (cv_val cv = v0 \<or> cv_val cv \<in> snd ` set w)
      \<and> (\<forall>t v. pend t = Some v \<longrightarrow> v \<in> snd ` set w)"
    using assms
  proof (induction "(pend, cv, w)" arbitrary: pend cv w rule: set_reach.induct)
    case start
    then show ?case by simp
  next
    case (next_step s)
    obtain pend1 cv1 w1 where s: "s = (pend1, cv1, w1)" by (cases s)
    from next_step.hyps(3) [unfolded s] next_step.hyps(2) [OF s] show ?case
      by (cases rule: set_step.cases) (auto split: if_splits)
  qed
  then show ?thesis by blast
qed

text \<open>
  C27: when two calls overlap, the value the listeners heard of last need not be the value the
  variable ends with, and each of two changes may be announced as a change of the first value.
\<close>

theorem setValue_overlap:
  "set_reach (recording api) ((\<lambda>_. None), recorded_var (VBase 0), [])
     ((\<lambda>_. None), (recorded_var (VBase 0))\<lparr>cv_val := VBase (1::int)\<rparr>,
      [(VBase 0, VBase 1), (VBase 0, VBase 2)])"
proof -
  let ?cv = "recorded_var (VBase (0::int))"
  let ?w1 = "[(VBase 0, VBase 1)]" and ?w2 = "[(VBase 0, VBase 1), (VBase 0, VBase 2)]"
  let ?p = "(\<lambda>_::nat. None)(0 := Some (VBase 1), 2 := Some (VBase 2))"
  note r = set_reach.next_step
  have "set_reach (recording api) ((\<lambda>_. None), ?cv, []) ((\<lambda>_. None), ?cv, [])" by (rule set_reach.start)
  from r [OF this section_read [of _ 0 _ "VBase 1" _ _ ?w1]]
  have "set_reach (recording api) ((\<lambda>_. None), ?cv, []) ((\<lambda>_. None)(0 \<mapsto> VBase 1), ?cv, ?w1)" by simp
  from r [OF this section_read [of _ 2 _ "VBase 2" _ _ ?w2]]
  have "set_reach (recording api) ((\<lambda>_. None), ?cv, []) (?p, ?cv, ?w2)" by simp
  from r [OF this section_write [of _ 2 "VBase 2"]]
  have "set_reach (recording api) ((\<lambda>_. None), ?cv, []) (?p(2 := None), ?cv\<lparr>cv_val := VBase 2\<rparr>, ?w2)"
    by simp
  from r [OF this section_write [of _ 0 "VBase 1"]]
  have "set_reach (recording api) ((\<lambda>_. None), ?cv, [])
      ((?p(2 := None))(0 := None), ?cv\<lparr>cv_val := VBase 1\<rparr>, ?w2)" by simp
  moreover have "(?p(2 := None))(0 := None) = (\<lambda>_. None)" by (auto simp: fun_eq_iff)
  ultimately show ?thesis by simp
qed

lemma setValue_announced_witness:
  "cv_val ((recorded_var (VBase 0))\<lparr>cv_val := VBase (1::int)\<rparr>)
     \<in> snd ` set [(VBase 0, VBase 1)]"
  using setValue_announced
    [OF sections_are_setValue [of "recording (demo_api [])" "VBase 1" "recorded_var (VBase 0)" "[]"
        "(recorded_var (VBase 0))\<lparr>cv_val := VBase (1::int)\<rparr>" "[(VBase 0, VBase 1)]"]]
  by (auto simp: setValue_def)

definition failing :: "(int, cb_id list) cfg_env" where
  "failing = \<lparr>lex = demo_api [], typeid_name = (\<lambda>_. []), root_log_on = (\<lambda>_ _. True),
     root_log = (\<lambda>_ _ w. Inr w),
     run_cb = (\<lambda>cb _ _ w. (if cb = 13 then Some (StdException ''listener'') else None, w @ [cb]))\<rparr>"

lemma listeners_run_in_order_witness:
  "setValue failing (VBase 5)
     (delListener (7 + of_nat 1) (snd (add_all [11, 12, 13, 14] 7 (new_config_var (TBase ''int'') ''x'' (VBase 4) [])))) []
   = (Some (StdException ''listener''),
      delListener (7 + of_nat 1) (snd (add_all [11, 12, 13, 14] 7 (new_config_var (TBase ''int'') ''x'' (VBase 4) []))),
      [11, 13])"
  by (subst listeners_run_in_order) (simp_all add: new_config_var_def failing_def Let_def)

end
