(* ===== verification/Config.thy ===== *)
theory Config
  imports ConfigVar
begin

section \<open>The configuration registry\<close>

text \<open>
  The static class \<open>Config\<close> of \<open>include/config.hpp\<close> and \<open>src/config.cpp\<close>. The
  registry is a sorted map from names to variables; a pointer to a registered variable is its name,
  because entries are never removed and are stored under their own name. The state also holds the
  listener counter of every variable type and the rest of the program, on which logging and listeners act.
\<close>

record ('b, 'w) config =
  datas :: "(string, 'b config_var) stdmap"
  listener_key :: "cty \<Rightarrow> u64"
  world :: 'w

definition empty_config :: "'w \<Rightarrow> ('b, 'w) config" where
  "empty_config w = \<lparr>datas = [], listener_key = (\<lambda>_. 0), world = w\<rparr>"

definition name_chars :: string where
  "name_chars = ''abcdefghijklmnopqrstuvwxyz._0123456789''"

definition valid_name :: "string \<Rightarrow> bool" where
  "valid_name name \<longleftrightarrow> find_first_not_of name_chars name = None"

definition put_var :: "string \<Rightarrow> 'b config_var \<Rightarrow> ('b, 'w) config \<Rightarrow> ('b, 'w) config" where
  "put_var k cv c = c\<lparr>datas := mput k cv (datas c)\<rparr>"

definition log_config :: "('b, 'w) cfg_env \<Rightarrow> level \<Rightarrow> string \<Rightarrow> ('b, 'w) config \<Rightarrow> ('b, 'w) config result" where
  "log_config env lvl msg c = rbind (root_log env lvl msg (world c)) (\<lambda>w. Inr (c\<lparr>world := w\<rparr>))"

subsection \<open>Lookup\<close>

text \<open>
  The creating \<open>Lookup\<close>: it returns the existing variable when its type is the one asked for
  (\<open>dynamic_pointer_cast\<close>), a null pointer when it is not, throws on an invalid name, and
  registers a new variable otherwise. The operands of a log statement are evaluated only when the
  root logger's level lets the statement through.
\<close>

definition Lookup_create ::
  "('b, 'w) cfg_env \<Rightarrow> cty \<Rightarrow> string \<Rightarrow> 'b cval \<Rightarrow> string \<Rightarrow> ('b, 'w) config
     \<Rightarrow> (string option result \<times> ('b, 'w) config) result" where
  "Lookup_create env ty name default_val desp c =
     (case map_of (datas c) name of
        Some cv \<Rightarrow>
          if cv_ty cv = ty then
            rbind (log_config env INFO (''Lookup name = '' @ name @ '' exists'') c) (\<lambda>c.
              Inr (Inr (Some name), c))
          else if root_log_on env ERROR (world c) then
            rbind (toString env cv (world c)) (\<lambda>(s, w).
            rbind (log_config env ERROR (''Lookup name = '' @ name @ '' exists but type was ''
                     @ getTypeName env cv @ '' not: '' @ typeid_name env ty @ '', it's value is '' @ s)
                   (c\<lparr>world := w\<rparr>)) (\<lambda>c.
              Inr (Inr None, c)))
          else Inr (Inr None, c)
      | None \<Rightarrow>
          if \<not> valid_name name then
            rbind (log_config env ERROR (''Lookup name invalid '' @ name) c) (\<lambda>c.
              Inr (Inl (invalid_argument name), c))
          else Inr (Inr (Some name), put_var name (new_config_var ty name default_val desp) c))"

text \<open>The finding \<open>Lookup\<close> and \<open>LookupBase\<close>.\<close>

definition Lookup_find :: "cty \<Rightarrow> string \<Rightarrow> ('b, 'w) config \<Rightarrow> string option" where
  "Lookup_find ty name c =
     (case map_of (datas c) name of
        None \<Rightarrow> None
      | Some cv \<Rightarrow> if cv_ty cv = ty then Some name else None)"

definition LookupBase :: "string \<Rightarrow> ('b, 'w) config \<Rightarrow> string option" where
  "LookupBase name c = (case map_of (datas c) name of None \<Rightarrow> None | Some cv \<Rightarrow> Some name)"

subsection \<open>Calls on a registered variable\<close>

definition with_var ::
  "string \<Rightarrow> ('b, 'w) config \<Rightarrow> ('b config_var \<Rightarrow> 'a result) \<Rightarrow> 'a result" where
  "with_var name c k =
     (case map_of (datas c) name of None \<Rightarrow> Inl (NullDeref ''config variable'') | Some cv \<Rightarrow> k cv)"

definition var_setValue ::
  "('b, 'w) cfg_env \<Rightarrow> string \<Rightarrow> 'b cval \<Rightarrow> ('b, 'w) config \<Rightarrow> (fault option \<times> ('b, 'w) config) result" where
  "var_setValue env name v c =
     with_var name c (\<lambda>cv.
       let (r, cv', w') = setValue env v cv (world c)
       in Inr (r, put_var name cv' (c\<lparr>world := w'\<rparr>)))"

definition var_fromString ::
  "('b, 'w) cfg_env \<Rightarrow> string \<Rightarrow> string \<Rightarrow> ('b, 'w) config \<Rightarrow> (bool \<times> ('b, 'w) config) result" where
  "var_fromString env name s c =
     with_var name c (\<lambda>cv.
       rbind (fromString env s cv (world c)) (\<lambda>(b, cv', w').
         Inr (b, put_var name cv' (c\<lparr>world := w'\<rparr>))))"

definition var_addListener :: "string \<Rightarrow> cb_id \<Rightarrow> ('b, 'w) config \<Rightarrow> (u64 \<times> ('b, 'w) config) result" where
  "var_addListener name cb c =
     with_var name c (\<lambda>cv.
       let (k, key', cv') = addListener cb (listener_key c (cv_ty cv)) cv
       in Inr (k, put_var name cv' (c\<lparr>listener_key := (listener_key c)(cv_ty cv := key')\<rparr>)))"

definition var_delListener :: "string \<Rightarrow> u64 \<Rightarrow> ('b, 'w) config \<Rightarrow> ('b, 'w) config result" where
  "var_delListener name key c = with_var name c (\<lambda>cv. Inr (put_var name (delListener key cv) c))"

definition var_clearListener :: "string \<Rightarrow> ('b, 'w) config \<Rightarrow> ('b, 'w) config result" where
  "var_clearListener name c = with_var name c (\<lambda>cv. Inr (put_var name (clearListener cv) c))"

subsection \<open>Loading a document\<close>

definition child_prefix :: "string \<Rightarrow> ynode \<Rightarrow> string" where
  "child_prefix prefix k = (if prefix = [] then n_scalar k else prefix @ ''.'' @ n_scalar k)"

lemma size_value_less [termination_simp]:
  "p \<in> set ps \<Longrightarrow> size (snd p) < Suc (size_list (size_prod size size) ps)"
proof (induction ps)
  case (Cons q ps)
  then show ?case by (cases q) auto
qed simp

text \<open>
  \<open>ListAllMember\<close>: the nodes of the document in preorder, each with its dotted name; a name
  with a character outside the set is logged and kept.
\<close>

fun ListAllMember ::
  "('b, 'w) cfg_env \<Rightarrow> string \<Rightarrow> ynode \<Rightarrow> (string \<times> ynode) list \<times> 'w
     \<Rightarrow> ((string \<times> ynode) list \<times> 'w) result" where
  "ListAllMember env prefix node s =
     rbind (if prefix \<noteq> [] \<and> \<not> valid_name prefix
            then root_log env ERROR (''Config Invalid name: '' @ prefix @ '' : '' @ y_emit (lex env) node) (snd s)
            else Inr (snd s)) (\<lambda>w.
       let s = (fst s @ [(prefix, node)], w)
       in case node of
            YMap ps \<Rightarrow> rfold (\<lambda>p s. ListAllMember env (child_prefix prefix (fst p)) (snd p) s) ps s
          | _ \<Rightarrow> Inr s)"

declare ListAllMember.simps [simp del]

text \<open>One round of the loop of \<open>LoadFromYaml\<close>, and the function.\<close>

definition load_entry ::
  "('b, 'w) cfg_env \<Rightarrow> string \<times> ynode \<Rightarrow> ('b, 'w) config \<Rightarrow> ('b, 'w) config result" where
  "load_entry env p c =
     (let key = fst p in
      if key = [] then Inr c
      else let key = map tolower key
           in case LookupBase key c of
                None \<Rightarrow> Inr c
              | Some var \<Rightarrow>
                  rbind (var_fromString env var
                          (if n_isScalar (snd p) then n_scalar (snd p) else y_emit (lex env) (snd p)) c)
                    (\<lambda>(_, c). Inr c))"

definition LoadFromYaml :: "('b, 'w) cfg_env \<Rightarrow> ynode \<Rightarrow> ('b, 'w) config \<Rightarrow> ('b, 'w) config result" where
  "LoadFromYaml env root c =
     rbind (ListAllMember env [] root ([], world c)) (\<lambda>(all_nodes, w).
       rfold (load_entry env) all_nodes (c\<lparr>world := w\<rparr>))"

text \<open>\<open>Visit\<close> hands every variable to the callback, in the order of the names.\<close>

definition Visit ::
  "(string \<Rightarrow> ('b, 'w) config \<Rightarrow> ('b, 'w) config result) \<Rightarrow> ('b, 'w) config \<Rightarrow> ('b, 'w) config result" where
  "Visit cb c = rfold (\<lambda>p c. cb (fst p) c) (datas c) c"

end
