(* ===== verification/ConfigProps.thy ===== *)
theory ConfigProps
  imports Config
begin

section \<open>What the registry guarantees\<close>

text \<open>
  A declarative description of the entries of a document (\<open>members\<close>, \<open>texts_for\<close>), the
  invariant of the registry, and the properties of \<open>Lookup\<close> and \<open>LoadFromYaml\<close>.
\<close>

subsection \<open>The entries of a document\<close>

fun members :: "string \<Rightarrow> ynode \<Rightarrow> (string \<times> ynode) list" where
  "members prefix node =
     (prefix, node) #
     (case node of
        YMap ps \<Rightarrow> concat (map (\<lambda>p. members (child_prefix prefix (fst p)) (snd p)) ps)
      | _ \<Rightarrow> [])"

declare members.simps [simp del]

definition node_text :: "'b lex_api \<Rightarrow> ynode \<Rightarrow> string" where
  "node_text api n = (if n_isScalar n then n_scalar n else y_emit api n)"

text \<open>The texts a document gives a variable, in document order.\<close>

definition texts_for :: "'b lex_api \<Rightarrow> string \<Rightarrow> (string \<times> ynode) list \<Rightarrow> string list" where
  "texts_for api k ps =
     map (\<lambda>p. node_text api (snd p)) (filter (\<lambda>p. fst p \<noteq> [] \<and> map tolower (fst p) = k) ps)"

lemma rfold_collect:
  assumes "\<And>p s. p \<in> set ps \<Longrightarrow> ok (snd s) \<Longrightarrow>
             \<exists>w. f p s = Inr (fst s @ g p, w) \<and> ok w" and "ok (snd s)"
  shows "\<exists>w. rfold f ps s = Inr (fst s @ concat (map g ps), w) \<and> ok w"
  using assms
proof (induction ps arbitrary: s)
  case Nil
  then show ?case by (cases s) auto
next
  case (Cons p ps)
  from Cons.prems(1) [of p s] Cons.prems(2) obtain w where
    "f p s = Inr (fst s @ g p, w)" and "ok w" by auto
  moreover from Cons.IH [of "(fst s @ g p, w)"] Cons.prems(1) \<open>ok w\<close> obtain w' where
    "rfold f ps (fst s @ g p, w) = Inr ((fst s @ g p) @ concat (map g ps), w')" and "ok w'" by auto
  ultimately show ?case by simp
qed

lemma ListAllMember_members:
  fixes env :: "('b, 'w) cfg_env"
  shows "logging_ok env ok \<Longrightarrow> ok (snd s)
     \<Longrightarrow> \<exists>w. ListAllMember env prefix node s = Inr (fst s @ members prefix node, w) \<and> ok w"
proof (induction env prefix node s rule: ListAllMember.induct)
  case (1 env prefix node s)
  let ?log = "if prefix \<noteq> [] \<and> \<not> valid_name prefix
        then root_log env ERROR (''Config Invalid name: '' @ prefix @ '' : '' @ y_emit (lex env) node) (snd s)
        else Inr (snd s)"
  from "1.prems" have "\<exists>w. ?log = Inr w \<and> ok w"
    unfolding logging_ok_def by (cases "prefix \<noteq> [] \<and> \<not> valid_name prefix") simp_all
  then obtain w where w: "?log = Inr w" and "ok w" by blast
  let ?s = "(fst s @ [(prefix, node)], w)"
  show ?case
  proof (cases node)
    case (YMap ps)
    have "\<exists>w. rfold (\<lambda>p s. ListAllMember env (child_prefix prefix (fst p)) (snd p) s) ps ?s =
        Inr (fst ?s @ concat (map (\<lambda>p. members (child_prefix prefix (fst p)) (snd p)) ps), w) \<and> ok w"
    proof (rule rfold_collect)
      fix p and s' :: "(string \<times> ynode) list \<times> 'w"
      assume "p \<in> set ps" and "ok (snd s')"
      then show "\<exists>w. ListAllMember env (child_prefix prefix (fst p)) (snd p) s' =
          Inr (fst s' @ members (child_prefix prefix (fst p)) (snd p), w) \<and> ok w"
        using "1.IH" [OF w refl YMap] "1.prems"(1) by blast
    qed (simp add: \<open>ok w\<close>)
    with YMap w show ?thesis
      by (subst ListAllMember.simps, subst members.simps) (auto simp: Let_def)
  qed (use w \<open>ok w\<close> in \<open>subst ListAllMember.simps, subst members.simps, auto simp: Let_def\<close>)+
qed

lemma valid_name_lower: "valid_name k \<Longrightarrow> map tolower k = k"
proof -
  have "\<forall>c \<in> set name_chars. tolower c = c" by code_simp
  then show "valid_name k \<Longrightarrow> map tolower k = k"
    by (auto simp: valid_name_def intro!: map_idI)
qed

subsection \<open>The invariant\<close>

text \<open>
  The registry is in key order; every variable is stored under its own name, which has only the
  allowed characters, holds a value of its type, and keeps its listeners in key order.
\<close>

definition var_wf :: "'b lex_api \<Rightarrow> (string \<Rightarrow> 'b \<Rightarrow> bool) \<Rightarrow> string \<Rightarrow> 'b config_var \<Rightarrow> bool" where
  "var_wf api okb k cv \<longleftrightarrow>
     cv_name cv = k \<and> valid_name k \<and> has_type api okb (cv_ty cv) (cv_val cv) \<and> mwf (cv_cbs cv)"

definition config_wf :: "'b lex_api \<Rightarrow> (string \<Rightarrow> 'b \<Rightarrow> bool) \<Rightarrow> ('b, 'w) config \<Rightarrow> bool" where
  "config_wf api okb c \<longleftrightarrow> mwf (datas c) \<and> (\<forall>k cv. map_of (datas c) k = Some cv \<longrightarrow> var_wf api okb k cv)"

lemma config_wfD:
  assumes "config_wf api okb c"
  shows "mwf (datas c)" and "map_of (datas c) k = Some cv \<Longrightarrow> var_wf api okb k cv"
  using assms by (auto simp: config_wf_def)

lemma config_wf_put [intro]:
  "config_wf api okb c \<Longrightarrow> var_wf api okb k cv \<Longrightarrow> config_wf api okb (put_var k cv c)"
  by (auto simp: config_wf_def put_var_def)

lemma config_wf_world [simp]:
  "config_wf api okb (c\<lparr>world := w\<rparr>) = config_wf api okb c"
  "config_wf api okb (c\<lparr>listener_key := f\<rparr>) = config_wf api okb c"
  by (simp_all add: config_wf_def)

lemma with_var_Inr [result_simps]:
  "with_var name c k = Inr r \<longleftrightarrow> (\<exists>cv. map_of (datas c) name = Some cv \<and> k cv = Inr r)"
  by (auto simp: with_var_def split: option.splits)

lemma log_config_Inr [result_simps]:
  "log_config env lvl msg c = Inr c' \<longleftrightarrow> (\<exists>w. root_log env lvl msg (world c) = Inr w \<and> c' = c\<lparr>world := w\<rparr>)"
  by (auto simp: log_config_def result_simps)

lemma Lookup_create_datas:
  assumes "Lookup_create env ty name dv desp c = Inr (r, c')"
  shows "listener_key c' = listener_key c \<and>
    (case map_of (datas c) name of
       Some cv \<Rightarrow> datas c' = datas c \<and> r = Inr (if cv_ty cv = ty then Some name else None)
     | None \<Rightarrow> if valid_name name
              then r = Inr (Some name) \<and> datas c' = mput name (new_config_var ty name dv desp) (datas c)
              else r = Inl (invalid_argument name) \<and> datas c' = datas c)"
  using assms
  by (auto simp: Lookup_create_def result_simps put_var_def split: option.splits if_splits)

lemma setValue_var_wf:
  assumes "setValue env v cv w = (r, cv', w')" and "var_wf api okb k cv" and "has_type api okb (cv_ty cv) v"
  shows "var_wf api okb k cv'"
proof -
  from setValue_frame [OF assms(1)] have "cv' = cv\<lparr>cv_val := cv_val cv'\<rparr>"
    and "cv_val cv' = v \<or> cv' = cv" by auto
  then consider "cv' = cv" | "cv' = cv\<lparr>cv_val := v\<rparr>" by metis
  then show ?thesis using assms(2,3) by cases (auto simp: var_wf_def)
qed

lemma fromString_var_wf:
  assumes "fromString env s cv w = Inr (b, cv', w')" and "var_wf (lex env) okb k cv"
    and base: "reads_typed (lex env) okb"
  shows "var_wf (lex env) okb k cv'"
proof (cases "from_string (lex env) (cv_ty cv) s")
  case (Inl e)
  with assms(1,2) show ?thesis
    by (auto simp: fromString_def result_simps split: fault.splits)
next
  case (Inr v)
  obtain r cv1 w1 where sv: "setValue env v cv w = (r, cv1, w1)" by (metis prod_cases3)
  from setValue_var_wf [OF sv assms(2) from_string_reads_typed [OF base Inr]]
  have "var_wf (lex env) okb k cv1" by simp
  moreover have "cv' = cv1"
    using assms(1) Inr sv by (auto simp: fromString_def result_simps split: option.splits fault.splits)
  ultimately show ?thesis by simp
qed

lemma load_entry_wf:
  assumes "load_entry env p c = Inr c'" and "config_wf (lex env) okb c"
    and base: "reads_typed (lex env) okb"
  shows "config_wf (lex env) okb c'"
proof (cases "fst p = [] \<or> map_of (datas c) (map tolower (fst p)) = None")
  case True
  with assms(1,2) show ?thesis
    by (auto simp: load_entry_def LookupBase_def Let_def split: if_splits)
next
  case False
  then obtain cv where cv: "map_of (datas c) (map tolower (fst p)) = Some cv" by auto
  from assms(1) False cv obtain b cv' w' s where
    "fromString env s cv (world c) = Inr (b, cv', w')"
    and c': "c' = put_var (map tolower (fst p)) cv' (c\<lparr>world := w'\<rparr>)"
    by (auto simp: load_entry_def LookupBase_def Let_def var_fromString_def result_simps)
  from fromString_var_wf [OF this(1) config_wfD(2) [OF assms(2) cv] base]
  have "var_wf (lex env) okb (map tolower (fst p)) cv'" by blast
  with assms(2) c' show ?thesis by auto
qed

text \<open>The operations a program runs on the registry, with well-typed values.\<close>

inductive cfg_step ::
  "('b, 'w) cfg_env \<Rightarrow> (string \<Rightarrow> 'b \<Rightarrow> bool) \<Rightarrow> ('b, 'w) config \<Rightarrow> ('b, 'w) config \<Rightarrow> bool"
  for env :: "('b, 'w) cfg_env" and okb :: "string \<Rightarrow> 'b \<Rightarrow> bool" where
  create: "has_type (lex env) okb ty dv \<Longrightarrow> Lookup_create env ty name dv desp c = Inr (r, c')
     \<Longrightarrow> cfg_step env okb c c'"
| set_value: "map_of (datas c) name = Some cv \<Longrightarrow> has_type (lex env) okb (cv_ty cv) v
     \<Longrightarrow> var_setValue env name v c = Inr (e, c') \<Longrightarrow> cfg_step env okb c c'"
| from_text: "var_fromString env name s c = Inr (b, c') \<Longrightarrow> cfg_step env okb c c'"
| load: "LoadFromYaml env root c = Inr c' \<Longrightarrow> cfg_step env okb c c'"
| add: "var_addListener name cb c = Inr (key, c') \<Longrightarrow> cfg_step env okb c c'"
| del: "var_delListener name key c = Inr c' \<Longrightarrow> cfg_step env okb c c'"
| clear: "var_clearListener name c = Inr c' \<Longrightarrow> cfg_step env okb c c'"

inductive cfg_reach ::
  "('b, 'w) cfg_env \<Rightarrow> (string \<Rightarrow> 'b \<Rightarrow> bool) \<Rightarrow> ('b, 'w) config \<Rightarrow> bool"
  for env :: "('b, 'w) cfg_env" and okb :: "string \<Rightarrow> 'b \<Rightarrow> bool" where
  start: "cfg_reach env okb (empty_config w)"
| step: "cfg_reach env okb c \<Longrightarrow> cfg_step env okb c c' \<Longrightarrow> cfg_reach env okb c'"

lemma cfg_step_wf:
  assumes base: "reads_typed (lex env) okb"
  shows "cfg_step env okb c c' \<Longrightarrow> config_wf (lex env) okb c \<Longrightarrow> config_wf (lex env) okb c'"
proof (induction rule: cfg_step.induct)
  case (create ty dv name desp c r c')
  from Lookup_create_datas [OF create(2)]
  consider "datas c' = datas c"
    | "valid_name name" "datas c' = mput name (new_config_var ty name dv desp) (datas c)"
    by (auto split: option.splits if_splits)
  then show ?case
  proof cases
    case 1
    with create(3) show ?thesis by (simp add: config_wf_def)
  next
    case 2
    then have "var_wf (lex env) okb name (new_config_var ty name dv desp)"
      using create(1) by (simp add: var_wf_def new_config_var_def valid_name_lower)
    with 2 create(3) show ?thesis by (auto simp: config_wf_def)
  qed
next
  case (set_value c name cv v e c')
  obtain r cv' w' where sv: "setValue env v cv (world c) = (r, cv', w')" by (metis prod_cases3)
  with set_value(1,3) have c': "c' = put_var name cv' (c\<lparr>world := w'\<rparr>)"
    by (simp add: var_setValue_def result_simps)
  from setValue_var_wf [OF sv config_wfD(2) [OF set_value(4,1)] set_value(2)]
  have "var_wf (lex env) okb name cv'" by simp
  with set_value(4) c' show ?case by auto
next
  case (from_text name s c b c')
  then obtain cv cv' w' where cv: "map_of (datas c) name = Some cv"
    and fs: "fromString env s cv (world c) = Inr (b, cv', w')"
    and c': "c' = put_var name cv' (c\<lparr>world := w'\<rparr>)"
    by (auto simp: var_fromString_def result_simps)
  from fromString_var_wf [OF fs config_wfD(2) [OF from_text(2) cv] base]
  have "var_wf (lex env) okb name cv'" by simp
  with from_text(2) c' show ?case by auto
next
  case (load root c c')
  then obtain ps w where "rfold (load_entry env) ps (c\<lparr>world := w\<rparr>) = Inr c'"
    by (auto simp: LoadFromYaml_def result_simps)
  then show ?case
    by (rule rfold_preserves) (use load(2) load_entry_wf [OF _ _ base] in auto)
next
  case (add name cb c key c')
  then obtain cv where "map_of (datas c) name = Some cv"
    and "c' = put_var name (snd (snd (addListener cb (listener_key c (cv_ty cv)) cv)))
                (c\<lparr>listener_key := (listener_key c)(cv_ty cv := listener_key c (cv_ty cv) + 1)\<rparr>)"
    by (auto simp: var_addListener_def addListener_def result_simps)
  with config_wfD(2) [OF add(2), of name cv] add(2) show ?case
    by (auto simp: addListener_def var_wf_def)
next
  case (del name key c c')
  then obtain cv where "map_of (datas c) name = Some cv" and "c' = put_var name (delListener key cv) c"
    by (auto simp: var_delListener_def result_simps)
  with config_wfD(2) [OF del(2), of name cv] del(2) show ?case
    by (auto simp: delListener_def var_wf_def)
next
  case (clear name c c')
  then obtain cv where "map_of (datas c) name = Some cv" and "c' = put_var name (clearListener cv) c"
    by (auto simp: var_clearListener_def result_simps)
  with config_wfD(2) [OF clear(2), of name cv] clear(2) show ?case
    by (auto simp: clearListener_def var_wf_def)
qed

text \<open>
  C18: whatever a program does with the registry, every variable stays registered under its own
  name, written in the allowed characters, with a value of its type and its listeners in key order.
\<close>

theorem registry_invariant:
  assumes "reads_typed (lex env) okb" and "cfg_reach env okb c"
  shows "config_wf (lex env) okb c"
  using assms(2)
proof (induction rule: cfg_reach.induct)
  case (start w)
  then show ?case by (simp add: config_wf_def empty_config_def)
next
  case (step c c')
  then show ?case using cfg_step_wf [OF assms(1)] by blast
qed

subsection \<open>Loading a document\<close>

text \<open>What a list of entries makes of a variable: the texts under its name, assigned in order.\<close>

definition after_load :: "'b lex_api \<Rightarrow> (string \<times> ynode) list \<Rightarrow> string \<Rightarrow> 'b config_var \<Rightarrow> 'b config_var" where
  "after_load api ps k cv =
     cv\<lparr>cv_val := fold (assign api (cv_ty cv)) (texts_for api k ps) (cv_val cv)\<rparr>"

lemma after_load_Nil [simp]: "after_load api [] k cv = cv"
  by (simp add: after_load_def texts_for_def)

lemma after_load_append: "after_load api (ps @ qs) k cv = after_load api qs k (after_load api ps k cv)"
  by (simp add: after_load_def texts_for_def)

lemma after_load_other:
  "fst p = [] \<or> map tolower (fst p) \<noteq> k \<Longrightarrow> after_load api [p] k cv = cv"
  by (auto simp: after_load_def texts_for_def)

lemma after_load_this:
  "fst p \<noteq> [] \<Longrightarrow> after_load api [p] (map tolower (fst p)) cv =
     cv\<lparr>cv_val := assign api (cv_ty cv) (node_text api (snd p)) (cv_val cv)\<rparr>"
  by (simp add: after_load_def texts_for_def)

definition loads_to ::
  "('b, 'w) cfg_env \<Rightarrow> ('w \<Rightarrow> bool) \<Rightarrow> (string \<times> ynode) list \<Rightarrow> ('b, 'w) config \<Rightarrow> ('b, 'w) config \<Rightarrow> bool" where
  "loads_to env ok ps c c' \<longleftrightarrow> ok (world c') \<and> mwf (datas c') \<and> listener_key c' = listener_key c
     \<and> (\<forall>k. map_of (datas c') k = map_option (after_load (lex env) ps k) (map_of (datas c) k))"

text \<open>
  The environment is in order: it can log, its listeners accept well-formed values, and the
  libraries fail only by throwing.
\<close>

definition env_ok :: "('b, 'w) cfg_env \<Rightarrow> (string \<Rightarrow> 'b \<Rightarrow> bool) \<Rightarrow> ('w \<Rightarrow> bool) \<Rightarrow> bool" where
  "env_ok env okb ok \<longleftrightarrow> logging_ok env ok \<and> listeners_ok env okb ok \<and> api_throws_std (lex env)
     \<and> reads_typed (lex env) okb"

lemma load_entry_ok:
  assumes "env_ok env okb ok" and "ok (world c)" and "mwf (datas c)"
  shows "\<exists>c'. load_entry env p c = Inr c' \<and> loads_to env ok [p] c c'"
proof (cases "fst p = [] \<or> map_of (datas c) (map tolower (fst p)) = None")
  case True
  then have "load_entry env p c = Inr c"
    by (auto simp: load_entry_def LookupBase_def Let_def)
  moreover have "map_of (datas c) k = map_option (after_load (lex env) [p] k) (map_of (datas c) k)" for k
    using True by (cases "map_of (datas c) k") (auto intro!: after_load_other [symmetric])
  ultimately show ?thesis using assms by (auto simp: loads_to_def)
next
  case False
  let ?k = "map tolower (fst p)" and ?s = "node_text (lex env) (snd p)"
  from False obtain cv where cv: "map_of (datas c) ?k = Some cv" by auto
  let ?cv = "cv\<lparr>cv_val := assign (lex env) (cv_ty cv) ?s (cv_val cv)\<rparr>"
  from assms obtain w' where
    "fromString env ?s cv (world c) = Inr (\<exists>x. from_string (lex env) (cv_ty cv) ?s = Inr x, ?cv, w')" and "ok w'"
    using fromString_ok [of env okb ok "world c" ?s cv] by (auto simp: env_ok_def)
  then have "load_entry env p c = Inr (put_var ?k ?cv (c\<lparr>world := w'\<rparr>))"
    using False cv
    by (simp add: load_entry_def LookupBase_def var_fromString_def with_var_def Let_def node_text_def)
  moreover have "loads_to env ok [p] c (put_var ?k ?cv (c\<lparr>world := w'\<rparr>))"
  proof -
    have "((map_of (datas c))(?k \<mapsto> ?cv)) k = map_option (after_load (lex env) [p] k) (map_of (datas c) k)" for k
    proof (cases "k = ?k")
      case True
      with cv False show ?thesis by (simp add: after_load_this)
    next
      case other: False
      then show ?thesis by (cases "map_of (datas c) k") (auto intro!: after_load_other [symmetric])
    qed
    with assms \<open>ok w'\<close> show ?thesis by (simp add: loads_to_def put_var_def)
  qed
  ultimately show ?thesis by blast
qed

lemma load_entries_ok:
  assumes "env_ok env okb ok" and "ok (world c)" and "mwf (datas c)"
  shows "\<exists>c'. rfold (load_entry env) ps c = Inr c' \<and> loads_to env ok ps c c'"
  using assms(2,3)
proof (induction ps arbitrary: c)
  case Nil
  then show ?case by (simp add: loads_to_def option.map_ident_strong)
next
  case (Cons p ps)
  from load_entry_ok [OF assms(1) Cons.prems, of p] obtain c1 where
    c1: "load_entry env p c = Inr c1" "loads_to env ok [p] c c1" by blast
  from c1(2) have "ok (world c1)" and "mwf (datas c1)" by (simp_all add: loads_to_def)
  from Cons.IH [OF this] obtain c2 where
    "rfold (load_entry env) ps c1 = Inr c2" and "loads_to env ok ps c1 c2" by blast
  moreover have "after_load (lex env) (p # ps) k = after_load (lex env) ps k \<circ> after_load (lex env) [p] k" for k
    using after_load_append [of "lex env" "[p]" ps k] by (simp add: fun_eq_iff)
  with \<open>loads_to env ok ps c1 c2\<close> c1(2) have "loads_to env ok (p # ps) c c2"
    by (simp add: loads_to_def option.map_comp)
  ultimately show ?case using c1(1) by auto
qed

lemma load_result:
  assumes "env_ok env okb ok" and "ok (world c)" and "mwf (datas c)"
  shows "\<exists>c'. LoadFromYaml env root c = Inr c' \<and> ok (world c')
     \<and> map fst (datas c') = map fst (datas c)
     \<and> (\<forall>k. map_of (datas c') k = map_option (after_load (lex env) (members [] root) k) (map_of (datas c) k))"
proof -
  from assms(1,2) obtain w where w: "ListAllMember env [] root ([], world c) = Inr (members [] root, w)" and "ok w"
    using ListAllMember_members [of env ok "([], world c)" "[]" root] by (auto simp: env_ok_def)
  from load_entries_ok [OF assms(1), of "c\<lparr>world := w\<rparr>" "members [] root"] \<open>ok w\<close> assms(3)
  obtain c' where run: "rfold (load_entry env) (members [] root) (c\<lparr>world := w\<rparr>) = Inr c'"
    and c': "loads_to env ok (members [] root) (c\<lparr>world := w\<rparr>) c'" by auto
  have maps: "map_of (datas c') k = map_option (after_load (lex env) (members [] root) k) (map_of (datas c) k)" for k
    using c' by (simp add: loads_to_def)
  then have "dom (map_of (datas c')) = dom (map_of (datas c))" by (auto simp: dom_def)
  with c' assms(3) have "map fst (datas c') = map fst (datas c)"
    by (intro strict_sorted_equal) (auto simp: loads_to_def mwf_def dom_map_of_conv_image_fst)
  with run w c' maps show ?thesis by (auto simp: LoadFromYaml_def loads_to_def)
qed

text \<open>
  C19: \<open>LoadFromYaml\<close> always comes to its end, whatever the document says. The registry keeps
  its names, types and listeners, and each variable ends with the result of assigning, in document
  order, the texts of the entries whose dotted name in lower case is its own; a text that cannot be
  cast is skipped, so one bad entry does not keep the others from being applied.
\<close>

theorem load_assigns:
  assumes "env_ok env okb ok" and "ok (world c)" and "mwf (datas c)"
  shows "\<exists>c'. LoadFromYaml env root c = Inr c' \<and> ok (world c')
     \<and> map fst (datas c') = map fst (datas c)
     \<and> (\<forall>k. map_of (datas c') k = map_option (after_load (lex env) (members [] root) k) (map_of (datas c) k))"
  using load_result [OF assms] .

subsection \<open>Lookup\<close>

text \<open>Basic values have texts, so that \<open>toString\<close> of a well-typed variable does not throw.\<close>

definition writes_typed :: "'b lex_api \<Rightarrow> (string \<Rightarrow> 'b \<Rightarrow> bool) \<Rightarrow> bool" where
  "writes_typed api okb \<longleftrightarrow> enumerates api \<and> (\<forall>t b. okb t b \<longrightarrow> (\<exists>s. lex_to api b = Inr s))"

lemma toString_ok:
  assumes "writes_typed (lex env) okb" and "var_wf (lex env) okb k cv"
  shows "\<exists>s. toString env cv w = Inr (s, w)"
proof -
  from assms have "\<exists>s. to_string (lex env) (cv_ty cv) (cv_val cv) = Inr s"
    by (intro to_string_total [of okb]) (auto simp: writes_typed_def var_wf_def)
  then show ?thesis by (auto simp: toString_def)
qed

lemma Lookup_create_total:
  assumes "logging_ok env ok" and "ok (world c)" and "writes_typed (lex env) okb"
    and "config_wf (lex env) okb c"
  shows "\<exists>r c'. Lookup_create env ty name dv desp c = Inr (r, c') \<and> ok (world c')"
proof -
  have log: "\<exists>w. root_log env lvl msg (world c) = Inr w \<and> ok w" for lvl msg
    using assms(1,2) by (auto simp: logging_ok_def)
  show ?thesis
  proof (cases "map_of (datas c) name")
    case None
    then show ?thesis
      using log [of ERROR "''Lookup name invalid '' @ name"] assms(2)
      by (auto simp: Lookup_create_def log_config_def put_var_def)
  next
    case (Some cv)
    then obtain s where s: "toString env cv (world c) = Inr (s, world c)"
      using toString_ok [OF assms(3) config_wfD(2) [OF assms(4)]] by blast
    with Some show ?thesis
      using log [of INFO "''Lookup name = '' @ name @ '' exists''"] assms(2)
        log [of ERROR "''Lookup name = '' @ name @ '' exists but type was '' @ getTypeName env cv
               @ '' not: '' @ typeid_name env ty @ '', it's value is '' @ s"]
      by (auto simp: Lookup_create_def log_config_def)
  qed
qed

text \<open>
  A name belongs to the type that registers it first. \<open>Lookup\<close> with a default either
  returns the variable, and then every later \<open>Lookup\<close> of the name returns the same variable
  for that type, whatever its default, and a null pointer for any other type; or it fails with a null
  pointer (the name has another type) or \<open>invalid_argument\<close> and leaves the registry alone.
\<close>

theorem lookup_by_name_and_type:
  assumes "logging_ok env ok" and "ok (world c)" and "writes_typed (lex env) okb"
    and "config_wf (lex env) okb c" and "has_type (lex env) okb ty dv"
  shows "\<exists>r c'. Lookup_create env ty name dv desp c = Inr (r, c') \<and>
     (if r = Inr (Some name)
      then Lookup_find ty name c' = Some name
         \<and> (\<forall>ty' dv' desp'. \<exists>c''.
              Lookup_create env ty' name dv' desp' c' = Inr (Inr (if ty' = ty then Some name else None), c'')
              \<and> datas c'' = datas c')
      else (r = Inr None \<or> r = Inl (invalid_argument name)) \<and> datas c' = datas c
         \<and> Lookup_find ty name c' = None)"
proof -
  from Lookup_create_total [OF assms(1-4)] obtain r c' where
    c': "Lookup_create env ty name dv desp c = Inr (r, c')" and "ok (world c')" by blast
  note datas = Lookup_create_datas [OF c']
  note mwf = config_wfD(1) [OF assms(4)]
  show ?thesis
  proof (cases "r = Inr (Some name)")
    case True
    then obtain cv where cv: "map_of (datas c') name = Some cv" "cv_ty cv = ty"
      using datas mwf by (auto simp: new_config_var_def split: option.splits if_splits)
    have "cfg_step env okb c c'" using assms(5) c' by (rule cfg_step.create)
    have wf: "config_wf (lex env) okb c'"
    proof (cases "map_of (datas c) name")
      case None
      with datas True have "valid_name name" and d: "datas c' = mput name (new_config_var ty name dv desp) (datas c)"
        by (auto split: if_splits)
      then have "var_wf (lex env) okb name (new_config_var ty name dv desp)"
        using assms(5) by (simp add: var_wf_def new_config_var_def valid_name_lower)
      with d assms(4) show ?thesis by (auto simp: config_wf_def)
    next
      case (Some cv)
      with datas assms(4) show ?thesis by (simp add: config_wf_def)
    qed
    have "\<exists>c''. Lookup_create env ty' name dv' desp' c' = Inr (Inr (if ty' = ty then Some name else None), c'')
              \<and> datas c'' = datas c'" for ty' dv' desp'
    proof -
      from Lookup_create_total [OF assms(1) \<open>ok (world c')\<close> assms(3) wf] obtain r' c'' where
        c'': "Lookup_create env ty' name dv' desp' c' = Inr (r', c'')" by blast
      from Lookup_create_datas [OF this] cv have "datas c'' = datas c'"
        and "r' = Inr (if ty' = ty then Some name else None)" by auto
      with c'' show ?thesis by blast
    qed
    moreover have "Lookup_find ty name c' = Some name" using cv by (simp add: Lookup_find_def)
    ultimately show ?thesis using c' True by auto
  next
    case False
    with datas have "(r = Inr None \<or> r = Inl (invalid_argument name)) \<and> datas c' = datas c
         \<and> Lookup_find ty name c' = None"
      by (auto simp: Lookup_find_def split: option.splits if_splits)
    with c' False show ?thesis by auto
  qed
qed

subsection \<open>A concrete registry\<close>

definition demo_cfg_env :: "(int, string list) cfg_env" where
  "demo_cfg_env =
     \<lparr>lex = demo_api [], typeid_name = (\<lambda>ty. case ty of TBase t \<Rightarrow> t | _ \<Rightarrow> ''container''),
      root_log_on = (\<lambda>_ _. True), root_log = (\<lambda>lvl s w. Inr (w @ [level_to_string lvl @ '' '' @ s])),
      run_cb = (\<lambda>cb old new w. (None, w @ [''listener'']))\<rparr>"

definition demo_config :: "(int, string list) config" where
  "demo_config = put_var ''system.port'' (new_config_var (TBase ''int'') ''system.port'' (VBase 8080) [])
     (empty_config [])"

lemma demo_env_ok: "env_ok demo_cfg_env (\<lambda>_ _. True) (\<lambda>_. True)"
  by (auto simp: env_ok_def logging_ok_def listeners_ok_def demo_cfg_env_def api_throws_std_def
      throws_std_def demo_api_def reads_typed_def split: option.splits ynode.splits)

lemma demo_typed: "reads_typed (lex demo_cfg_env) (\<lambda>_ _. True)" "writes_typed (lex demo_cfg_env) (\<lambda>_ _. True)"
  by (auto simp: reads_typed_def writes_typed_def enumerates_def demo_cfg_env_def demo_api_def)

lemma demo_config_create:
  "Lookup_create demo_cfg_env (TBase ''int'') ''system.port'' (VBase 8080) [] (empty_config [])
     = Inr (Inr (Some ''system.port''), demo_config)"
proof -
  have "valid_name ''system.port''" by code_simp
  then show ?thesis by (simp add: Lookup_create_def demo_config_def empty_config_def)
qed

lemma demo_config_wf: "config_wf (lex demo_cfg_env) (\<lambda>_ _. True) demo_config"
proof -
  have "config_wf (lex demo_cfg_env) (\<lambda>_ _. True) (empty_config [] :: (int, string list) config)"
    by (simp add: config_wf_def empty_config_def)
  moreover have "cfg_step demo_cfg_env (\<lambda>_ _. True) (empty_config []) demo_config"
    by (rule cfg_step.create [OF _ demo_config_create]) simp
  ultimately show ?thesis using cfg_step_wf [OF demo_typed(1)] by blast
qed

lemma registry_invariant_witness:
  "config_wf (lex demo_cfg_env) (\<lambda>_ _. True) demo_config"
  by (rule registry_invariant [OF demo_typed(1)
        cfg_reach.step [OF cfg_reach.start cfg_step.create [OF _ demo_config_create]]]) simp

lemma lookup_by_name_and_type_witness:
  "\<exists>r c'. Lookup_create demo_cfg_env (TBase ''int'') ''System.port'' (VBase 1) [] demo_config = Inr (r, c')
     \<and> r = Inl (invalid_argument ''System.port'') \<and> datas c' = datas demo_config"
proof -
  have "map_of (datas demo_config) ''System.port'' = None" "\<not> valid_name ''System.port''" by code_simp+
  moreover from lookup_by_name_and_type [of demo_cfg_env "\<lambda>_. True" demo_config "\<lambda>_ _. True"
      "TBase ''int''" "VBase 1" "''System.port''" "[]"] demo_env_ok demo_typed demo_config_wf
  obtain r c' where *: "Lookup_create demo_cfg_env (TBase ''int'') ''System.port'' (VBase 1) [] demo_config = Inr (r, c')"
    and "r \<noteq> Inr (Some ''System.port'') \<Longrightarrow> datas c' = datas demo_config"
    by (auto simp: env_ok_def split: if_splits)
  ultimately show ?thesis using Lookup_create_datas [OF *] by simp
qed

text \<open>
  An entry whose name is reported as invalid because of its capital letters, and is applied all the
  same; the later entry of the same name is no number and is skipped.
\<close>

definition demo_doc :: ynode where
  "demo_doc = YMap [(YScalar ''System'', YMap [(YScalar ''Port'', YScalar ''9900'')]),
                    (YScalar ''system.port'', YScalar ''none'')]"

lemma load_assigns_witness:
  "\<exists>c'. LoadFromYaml demo_cfg_env demo_doc demo_config = Inr c'
     \<and> map_option cv_val (map_of (datas c') ''system.port'') = Some (VBase 9900)"
proof -
  from load_assigns [OF demo_env_ok, of demo_config demo_doc] config_wfD(1) [OF demo_config_wf]
  obtain c' where "LoadFromYaml demo_cfg_env demo_doc demo_config = Inr c'"
    and "map_of (datas c') ''system.port'' =
      map_option (after_load (lex demo_cfg_env) (members [] demo_doc) ''system.port'')
        (map_of (datas demo_config) ''system.port'')" by auto
  moreover have "map_option cv_val (map_option
      (after_load (lex demo_cfg_env) (members [] demo_doc) ''system.port'')
        (map_of (datas demo_config) ''system.port'')) = Some (VBase 9900)"
    by code_simp
  ultimately show ?thesis by auto
qed

end
