(* ===== verification/LogConf.thy ===== *)
theory LogConf
  imports LoggerThms ConfigProps
begin

section \<open>Configuring the loggers\<close>

text \<open>
  The end of \<open>src/log.cpp\<close>: the variable \<open>logs\<close>, the listener \<open>LogIniter\<close>
  registers on it, which rebuilds loggers from their definitions, and \<open>Logger::ToYamlStr\<close>. The
  registry of \<open>Config\<close> is instantiated with the logging system as the rest of the program: its
  log statements go through the root logger, and running the listener changes loggers and appenders.
\<close>

subsection \<open>The listener\<close>

text \<open>A log statement of the root logger; one that does not return is a fault.\<close>

definition log_root :: "env \<Rightarrow> call_site \<Rightarrow> level \<Rightarrow> string \<Rightarrow> log_sys \<Rightarrow> log_sys result" where
  "log_root env c lvl msg st =
     (case YECC_LOG_LEVEL env c (getRoot st) lvl msg st of
        None \<Rightarrow> Inl (Blocked ''Logger::log'')
      | Some r \<Rightarrow> r)"

text \<open>\<open>std::set::find\<close>: definitions are equivalent when neither is less than the other.\<close>

definition find_define :: "log_define \<Rightarrow> log_define list \<Rightarrow> log_define option" where
  "find_define v ds = List.find (\<lambda>d. \<not> log_define_less d v \<and> \<not> log_define_less v d) ds"

text \<open>One round of the loop over the appender definitions; an unknown type leaves the pointer null.\<close>

definition make_appender :: "log_appender_define \<Rightarrow> log_sys \<Rightarrow> aid option \<times> log_sys" where
  "make_appender a st =
     (if ad_type a = 1 then (let (p, st') = new_appender (new_file_appender (ad_file a)) st in (Some p, st'))
      else if ad_type a = 2 then (let (p, st') = new_appender new_stdout_appender st in (Some p, st'))
      else (None, st))"

definition conf_appender :: "lid \<Rightarrow> log_appender_define \<Rightarrow> log_sys \<Rightarrow> log_sys result" where
  "conf_appender l a st =
     (case make_appender a st of
        (None, st) \<Rightarrow> Inl (NullDeref ''np'')
      | (Some np, st) \<Rightarrow>
          rbind (if ad_level a \<noteq> UNKNOW then appender_setLevel np (ad_level a) st else Inr st) (\<lambda>st.
          rbind (if ad_formatter a \<noteq> [] then appender_setFormatter_str np (ad_formatter a) st else Inr st)
            (addAppender l np)))"

text \<open>What is done to the logger of a new or changed definition.\<close>

definition conf_logger :: "lid \<Rightarrow> log_define \<Rightarrow> log_sys \<Rightarrow> log_sys result" where
  "conf_logger l v st =
     rbind (logger_setLevel l (ld_level v) st) (\<lambda>st.
     rbind (if ld_formatter v \<noteq> [] then setFormatter_str l (ld_formatter v) st else Inr st) (\<lambda>st.
     rbind (clearAppender l st) (\<lambda>st.
       rfold (conf_appender l) (ld_appenders v) st)))"

text \<open>
  The loop over the new definitions. A definition that did not change leaves \<open>logger\<close> null, and
  \<open>if(!logger) return;\<close> then leaves the whole listener: the flag of the result tells whether
  the loop came to its end.
\<close>

primrec conf_loop ::
  "env \<Rightarrow> call_site \<Rightarrow> log_define list \<Rightarrow> log_define list \<Rightarrow> log_sys \<Rightarrow> (bool \<times> log_sys) result" where
  "conf_loop env c old [] st = Inr (True, st)"
| "conf_loop env c old (v # vs) st =
     (let kind = (case find_define v old of
                    None \<Rightarrow> Some ''new logger added''
                  | Some d \<Rightarrow> if v \<noteq> d then Some ''logger conf modified'' else None)
      in case kind of
           None \<Rightarrow> Inr (False, st)
         | Some what \<Rightarrow>
             rbind (log_root env c INFO (''logger conf changed: '' @ what @ '', name: '' @ ld_name v) st) (\<lambda>st.
             rbind (getLogger (ld_name v) st) (\<lambda>(logger, st).
             rbind (conf_logger logger v st) (conf_loop env c old vs))))"

definition conf_delete :: "env \<Rightarrow> call_site \<Rightarrow> log_define list \<Rightarrow> log_define \<Rightarrow> log_sys \<Rightarrow> log_sys result" where
  "conf_delete env c new v st =
     (case find_define v new of
        Some _ \<Rightarrow> Inr st
      | None \<Rightarrow>
          rbind (log_root env c INFO (''logger conf changed: logger deleted, name: '' @ ld_name v) st) (\<lambda>st.
          rbind (getLogger (ld_name v) st) (\<lambda>(logger, st).
          rbind (logger_setLevel logger LEVEL_100 st) (clearAppender logger))))"

definition log_conf_listener ::
  "env \<Rightarrow> call_site \<Rightarrow> log_define list \<Rightarrow> log_define list \<Rightarrow> log_sys \<Rightarrow> log_sys result" where
  "log_conf_listener env c old new st =
     rbind (conf_loop env c old new st) (\<lambda>(to_end, st).
       if to_end then rfold (conf_delete env c new) old st else Inr st)"

subsection \<open>The configuration of the logging system\<close>

definition defines_of :: "'b cval \<Rightarrow> log_define list" where
  "defines_of v = (case v of
     VSet xs \<Rightarrow> concat (map (\<lambda>x. case x of VLog d \<Rightarrow> [d] | _ \<Rightarrow> []) xs) | _ \<Rightarrow> [])"

text \<open>The only listener, number 0, is the one of \<open>LogIniter\<close>.\<close>

definition log_cfg_env ::
  "'b lex_api \<Rightarrow> (cty \<Rightarrow> string) \<Rightarrow> env \<Rightarrow> call_site \<Rightarrow> ('b, log_sys) cfg_env" where
  "log_cfg_env api tn env c =
     \<lparr>lex = api, typeid_name = tn,
      root_log_on = (\<lambda>lvl st. case loggers st (getRoot st) of None \<Rightarrow> False | Some lg \<Rightarrow> l_level lg \<le> lvl),
      root_log = log_root env c,
      run_cb = (\<lambda>cb old new st.
        if cb = 0 then
          case log_conf_listener env c (defines_of old) (defines_of new) st of
            Inl e \<Rightarrow> (Some e, st)
          | Inr st' \<Rightarrow> (None, st')
        else (None, st))\<rparr>"

text \<open>
  The initialisation of \<open>logs_define\<close> and \<open>__log_init\<close>, on a registry that holds the
  logging system.
\<close>

definition LogIniter :: "('b, log_sys) cfg_env \<Rightarrow> ('b, log_sys) config \<Rightarrow> ('b, log_sys) config result" where
  "LogIniter cenv cfg =
     rbind (Lookup_create cenv (TSet TLogDefine) ''logs'' (VSet []) ''logs config'' cfg) (\<lambda>(p, cfg).
     rbind p (\<lambda>p.
       case p of
         None \<Rightarrow> Inl (NullDeref ''logs_define'')
       | Some name \<Rightarrow> rbind (var_addListener name 0 cfg) (\<lambda>(_, cfg). Inr cfg)))"

subsection \<open>Logger::ToYamlStr\<close>

definition logger_define :: "lid \<Rightarrow> log_sys \<Rightarrow> log_define result" where
  "logger_define l st =
     with_logger l st (\<lambda>lg.
       case l_formatter lg of
         None \<Rightarrow> Inl (NullDeref ''m_formatter'')
       | Some f \<Rightarrow>
           rbind (rfold (\<lambda>a defs. with_appender a st (\<lambda>ap.
               case a_formatter ap of
                 None \<Rightarrow> Inl (NullDeref ''getFormatter()'')
               | Some af \<Rightarrow>
                   Inr (defs @ [\<lparr>ad_type = a_type ap, ad_level = a_level ap, ad_formatter = f_pattern af,
                     ad_file = (if a_type ap = 1 then app_getFileName ap else [])\<rparr>])))
             (l_appenders lg) [])
             (\<lambda>defs. Inr \<lparr>ld_name = l_name lg, ld_level = l_level lg, ld_formatter = f_pattern f,
                         ld_appenders = defs\<rparr>))"

definition ToYamlStr :: "'b lex_api \<Rightarrow> lid \<Rightarrow> log_sys \<Rightarrow> string result" where
  "ToYamlStr api l st = rbind (logger_define l st) (log_define_to api)"

end
