(* ===== verification/LogConfProps.thy ===== *)
theory LogConfProps
  imports LogConf
begin

section \<open>What the logging configuration does\<close>

subsection \<open>Building appenders\<close>

definition the_formatter :: "string \<Rightarrow> log_formatter" where
  "the_formatter p = (case mk_formatter p of Inr f \<Rightarrow> f | Inl _ \<Rightarrow> undefined)"

lemma mk_formatter_the: "mk_formatter p = Inr (the_formatter p)"
  using mk_formatter_ok [of p] by (auto simp: the_formatter_def)

text \<open>The appender a definition describes, on a logger with the given formatter.\<close>

definition blank_appender :: "log_appender_define \<Rightarrow> appender" where
  "blank_appender a = (if ad_type a = 1 then new_file_appender (ad_file a) else new_stdout_appender)"

definition with_level :: "log_appender_define \<Rightarrow> appender \<Rightarrow> appender" where
  "with_level a ap = (if ad_level a \<noteq> UNKNOW then ap\<lparr>a_level := ad_level a\<rparr> else ap)"

definition with_pattern :: "log_formatter option \<Rightarrow> log_appender_define \<Rightarrow> appender \<Rightarrow> appender" where
  "with_pattern lf a ap =
     (if ad_formatter a \<noteq> []
      then ap\<lparr>a_formatter := Some (the_formatter (ad_formatter a)), a_has_formatter := True\<rparr>
      else ap\<lparr>a_formatter := lf\<rparr>)"

definition built :: "log_formatter option \<Rightarrow> log_appender_define \<Rightarrow> appender" where
  "built lf a = with_pattern lf a (with_level a (blank_appender a))"

lemma built_formatter: "lf \<noteq> None \<Longrightarrow> a_formatter (built lf a) \<noteq> None"
  by (simp add: built_def with_pattern_def)

lemma blank_unformatted: "a_formatter (with_level a (blank_appender a)) = None"
  by (simp add: with_level_def blank_appender_def new_stdout_appender_def new_file_appender_def)

lemma put_put_appender [simp]: "put_appender b ap (put_appender b ap' st) = put_appender b ap st"
  by (simp add: put_appender_def)

lemma put_appender_print: "put_appender b ap (print msg st) = print msg (put_appender b ap st)"
  by (simp add: put_appender_def print_def)

lemma put_logger_print: "put_logger l lg (print msg st) = print msg (put_logger l lg st)"
  by (simp add: put_logger_def print_def)

lemma make_appender_new:
  "constructible a \<Longrightarrow> make_appender a st =
     (Some (next_aid st), put_appender (next_aid st) (blank_appender a) (st\<lparr>next_aid := next_aid st + 1\<rparr>))"
  by (auto simp: make_appender_def constructible_def new_appender_def blank_appender_def)

lemma setLevel_new:
  "(if ad_level a \<noteq> UNKNOW then appender_setLevel b (ad_level a) (put_appender b ap st) else Inr (put_appender b ap st))
     = Inr (put_appender b (with_level a ap) st)"
  by (simp add: appender_setLevel_def with_appender_def app_set_level_def with_level_def)

lemma setFormatter_new:
  assumes "a_formatter ap = None"
  shows "\<exists>msg ap'. (if ad_formatter a \<noteq> [] then appender_setFormatter_str b (ad_formatter a) (put_appender b ap st)
                else Inr (put_appender b ap st))
     = Inr (print msg (put_appender b ap' st))
     \<and> with_pattern lf a ap = (if a_formatter ap' = None then app_setFormatter_ptr lf ap' else ap')"
proof (cases "ad_formatter a = []")
  case True
  with assms show ?thesis
    by (intro exI [of _ "[]"] exI [of _ ap]) (simp add: with_pattern_def app_setFormatter_ptr_def print_def)
next
  case False
  let ?f = "the_formatter (ad_formatter a)"
  let ?msg = "if f_isError ?f then ''LogAppender setFormatter value = '' @ ad_formatter a @ '' invalid formatter'' @ [CHR 0x0A]
            else []"
  from False show ?thesis
    by (intro exI [of _ ?msg] exI [of _ "ap\<lparr>a_formatter := Some ?f, a_has_formatter := True\<rparr>"])
      (simp add: with_pattern_def appender_setFormatter_str_def with_appender_def app_setFormatter_str_def
        mk_formatter_the put_appender_print)
qed

lemma addAppender_new:
  assumes "loggers st l = Some lg"
  shows "addAppender l b (print msg (put_appender b ap st)) =
     Inr (print msg (put_logger l (lg\<lparr>l_appenders := l_appenders lg @ [b]\<rparr>)
       (put_appender b (if a_formatter ap = None then app_setFormatter_ptr (l_formatter lg) ap else ap) st)))"
  using assms
  by (simp add: addAppender_def with_logger_def with_appender_def put_appender_print put_logger_print)

definition with_built :: "lid \<Rightarrow> logger \<Rightarrow> log_appender_define list \<Rightarrow> log_sys \<Rightarrow> log_sys" where
  "with_built l lg as st =
     st\<lparr>loggers := (loggers st)(l \<mapsto> lg\<lparr>l_appenders := l_appenders lg @ [next_aid st..<next_aid st + length as]\<rparr>),
        appenders := (\<lambda>b. if next_aid st \<le> b \<and> b < next_aid st + length as
                          then Some (built (l_formatter lg) (as ! (b - next_aid st))) else appenders st b),
        next_aid := next_aid st + length as\<rparr>"

lemma conf_appender_built:
  assumes "loggers st l = Some lg" and "constructible a"
  shows "\<exists>msg. conf_appender l a st = Inr (print msg (with_built l lg [a] st))"
proof -
  let ?b = "next_aid st" and ?st = "st\<lparr>next_aid := next_aid st + 1\<rparr>"
  let ?ap = "with_level a (blank_appender a)"
  obtain msg ap' where
    set: "(if ad_formatter a \<noteq> [] then appender_setFormatter_str ?b (ad_formatter a) (put_appender ?b ?ap ?st)
                else Inr (put_appender ?b ?ap ?st)) = Inr (print msg (put_appender ?b ap' ?st))"
    and ap': "with_pattern (l_formatter lg) a ?ap = (if a_formatter ap' = None then app_setFormatter_ptr (l_formatter lg) ap' else ap')"
    using setFormatter_new [OF blank_unformatted] by metis
  have "conf_appender l a st = addAppender l ?b (print msg (put_appender ?b ap' ?st))"
    by (simp only: conf_appender_def make_appender_new [OF assms(2)] prod.case option.case
        setLevel_new rbind_Inr set)
  also have "\<dots> = Inr (print msg (put_logger l (lg\<lparr>l_appenders := l_appenders lg @ [?b]\<rparr>)
       (put_appender ?b (built (l_formatter lg) a) ?st)))"
    using addAppender_new [of ?st l lg ?b msg ap'] assms(1) ap' by (simp add: built_def)
  also have "put_logger l (lg\<lparr>l_appenders := l_appenders lg @ [?b]\<rparr>)
       (put_appender ?b (built (l_formatter lg) a) ?st) = with_built l lg [a] st"
    by (rule log_sys.equality)
      (auto simp: with_built_def put_appender_def put_logger_def fun_eq_iff)
  finally show ?thesis by blast
qed

lemma with_built_append:
  assumes "l_appenders lg' = l_appenders lg @ [next_aid st..<next_aid st + length as]"
    and "lg' = lg\<lparr>l_appenders := l_appenders lg'\<rparr>"
  shows "with_built l lg' bs (with_built l lg as st) = with_built l lg (as @ bs) st"
proof -
  have "l_formatter lg' = l_formatter lg" using assms(2) by (metis logger.select_convs(4) logger.update_convs(3) logger.surjective)
  moreover have "lg'\<lparr>l_appenders := xs\<rparr> = lg\<lparr>l_appenders := xs\<rparr>" for xs
    using assms(2) by (metis logger.update_convs(3) logger.surjective)
  ultimately show ?thesis
    using assms(1) upt_add_eq_append [of "next_aid st" "next_aid st + length as" "length bs"]
    by (intro log_sys.equality)
      (auto simp: with_built_def fun_eq_iff nth_append add.assoc)
qed

lemma with_built_print: "with_built l lg as (print msg st) = print msg (with_built l lg as st)"
  by (rule log_sys.equality) (auto simp: with_built_def print_def fun_eq_iff)

lemma with_built_Nil: "loggers st l = Some lg \<Longrightarrow> with_built l lg [] st = st"
  by (rule log_sys.equality) (auto simp: with_built_def fun_eq_iff)

lemma with_built_logger:
  "loggers (with_built l lg as st) l =
     Some (lg\<lparr>l_appenders := l_appenders lg @ [next_aid st..<next_aid st + length as]\<rparr>)"
  by (simp add: with_built_def)

lemma conf_appenders_built:
  assumes "loggers st l = Some lg" and "list_all constructible as"
  shows "\<exists>msg. rfold (conf_appender l) as st = Inr (print msg (with_built l lg as st))"
  using assms(2)
proof (induction "as" rule: rev_induct)
  case Nil
  with assms(1) show ?case by (intro exI [of _ "[]"]) (simp add: with_built_Nil)
next
  case (snoc a "as")
  then obtain msg where msg: "rfold (conf_appender l) as st = Inr (print msg (with_built l lg as st))" by auto
  let ?lg = "lg\<lparr>l_appenders := l_appenders lg @ [next_aid st..<next_aid st + length as]\<rparr>"
  have "loggers (print msg (with_built l lg as st)) l = Some ?lg" by (simp add: with_built_logger)
  from conf_appender_built [OF this, of a] snoc.prems obtain msg2 where
    "conf_appender l a (print msg (with_built l lg as st)) =
       Inr (print msg2 (with_built l ?lg [a] (print msg (with_built l lg as st))))" by auto
  with msg have "rfold (conf_appender l) (as @ [a]) st =
      Inr (print (msg @ msg2) (with_built l ?lg [a] (with_built l lg as st)))"
    by (simp add: rfold_append with_built_print)
  then show ?case by (auto simp: with_built_append)
qed

subsection \<open>Configuring one logger\<close>

definition inherited :: "log_define \<Rightarrow> aid list \<Rightarrow> appender \<Rightarrow> aid \<Rightarrow> appender" where
  "inherited v old ap b =
     (if ld_formatter v \<noteq> [] \<and> b \<in> set old \<and> \<not> a_has_formatter ap
      then ap\<lparr>a_formatter := Some (the_formatter (ld_formatter v))\<rparr> else ap)"

definition conf_header :: "log_define \<Rightarrow> logger \<Rightarrow> logger" where
  "conf_header v lg = lg\<lparr>l_level := ld_level v,
     l_formatter := (if ld_formatter v \<noteq> [] then Some (the_formatter (ld_formatter v)) else l_formatter lg),
     l_appenders := []\<rparr>"

definition conf_base :: "lid \<Rightarrow> log_define \<Rightarrow> logger \<Rightarrow> log_sys \<Rightarrow> log_sys" where
  "conf_base l v lg st =
     st\<lparr>loggers := (loggers st)(l \<mapsto> conf_header v lg),
        appenders := (\<lambda>b. map_option (\<lambda>ap. inherited v (l_appenders lg) ap b) (appenders st b))\<rparr>"

lemma conf_logger_header:
  assumes "loggers st l = Some lg" and "\<forall>a \<in> set (l_appenders lg). appenders st a \<noteq> None"
  shows "\<exists>msg. rbind (logger_setLevel l (ld_level v) st) (\<lambda>st.
     rbind (if ld_formatter v \<noteq> [] then setFormatter_str l (ld_formatter v) st else Inr st) (clearAppender l))
     = Inr (print msg (conf_base l v lg st))"
proof (cases "ld_formatter v = []")
  case True
  have "put_logger l (lg\<lparr>l_level := ld_level v, l_appenders := []\<rparr>) st = conf_base l v lg st"
    using True
    by (intro log_sys.equality)
      (auto simp: conf_base_def conf_header_def inherited_def put_logger_def fun_eq_iff option.map_ident)
  with True assms(1) show ?thesis
    by (intro exI [of _ "[]"]) (simp add: logger_setLevel_def clearAppender_def with_logger_def put_logger_def print_def)
next
  case False
  let ?f = "the_formatter (ld_formatter v)" and ?lg = "lg\<lparr>l_level := ld_level v\<rparr>"
  let ?msg = "if f_isError ?f then complaint (l_name lg) (ld_formatter v) else []"
  let ?st = "print ?msg (put_logger l ?lg st)"
  have "\<forall>a \<in> set (l_appenders lg). appenders ?st a \<noteq> None" using assms(2) by simp
  from inherit_formatter_spec [OF this, of "Some ?f"] obtain st1 where
    st1: "inherit_formatter (Some ?f) (l_appenders lg) ?st = Inr st1"
    and app: "\<And>b. appenders st1 b = (case appenders ?st b of None \<Rightarrow> None
       | Some ap \<Rightarrow> Some (if b \<in> set (l_appenders lg) \<and> \<not> a_has_formatter ap then ap\<lparr>a_formatter := Some ?f\<rparr> else ap))"
    by blast
  note frame = inherit_formatter_frame [OF st1]
  have "put_logger l (lg\<lparr>l_level := ld_level v, l_formatter := Some ?f, l_appenders := []\<rparr>) st1
      = print ?msg (conf_base l v lg st)"
  proof (rule log_sys.equality)
    show "appenders (put_logger l (lg\<lparr>l_level := ld_level v, l_formatter := Some ?f, l_appenders := []\<rparr>) st1)
        = appenders (print ?msg (conf_base l v lg st))"
      using app False by (auto simp: conf_base_def inherited_def fun_eq_iff split: option.splits)
  qed (use frame False in \<open>simp_all add: conf_base_def conf_header_def\<close>)
  moreover have "setFormatter_str l (ld_formatter v) (put_logger l ?lg st) =
      Inr (put_logger l (?lg\<lparr>l_formatter := Some ?f\<rparr>) st1)"
    unfolding setFormatter_str_def mk_formatter_the rbind_Inr
    using st1 by (cases "f_isError ?f") (simp_all add: with_logger_def)
  then have "rbind (logger_setLevel l (ld_level v) st) (\<lambda>st.
     rbind (if ld_formatter v \<noteq> [] then setFormatter_str l (ld_formatter v) st else Inr st) (clearAppender l))
     = Inr (put_logger l (lg\<lparr>l_level := ld_level v, l_formatter := Some ?f, l_appenders := []\<rparr>) st1)"
    using False assms(1)
    by (simp add: logger_setLevel_def clearAppender_def with_logger_def)
  ultimately show ?thesis by metis
qed

lemma conf_logger_spec:
  assumes "loggers st l = Some lg" and "\<forall>a \<in> set (l_appenders lg). appenders st a \<noteq> None"
    and "list_all constructible (ld_appenders v)"
  shows "\<exists>msg. conf_logger l v st =
     Inr (print msg (with_built l (conf_header v lg) (ld_appenders v) (conf_base l v lg st)))"
proof -
  from conf_logger_header [OF assms(1,2), of v] obtain msg where
    msg: "rbind (logger_setLevel l (ld_level v) st) (\<lambda>st.
     rbind (if ld_formatter v \<noteq> [] then setFormatter_str l (ld_formatter v) st else Inr st) (clearAppender l))
     = Inr (print msg (conf_base l v lg st))" by blast
  have "loggers (print msg (conf_base l v lg st)) l = Some (conf_header v lg)"
    by (simp add: conf_base_def)
  from conf_appenders_built [OF this assms(3)] obtain msg2 where
    "rfold (conf_appender l) (ld_appenders v) (print msg (conf_base l v lg st)) =
      Inr (print msg2 (print msg (with_built l (conf_header v lg) (ld_appenders v) (conf_base l v lg st))))"
    by (auto simp: with_built_print)
  moreover have "conf_logger l v st = rbind (rbind (logger_setLevel l (ld_level v) st) (\<lambda>st.
     rbind (if ld_formatter v \<noteq> [] then setFormatter_str l (ld_formatter v) st else Inr st) (clearAppender l)))
     (rfold (conf_appender l) (ld_appenders v))"
    by (simp add: conf_logger_def rbind_assoc)
  ultimately show ?thesis using msg by (metis rbind_Inr print_print)
qed

subsection \<open>Log statements of the listener\<close>

text \<open>
  The patterns of the root logger's appenders print dates that fit the formatting buffer now, and the
  root logger shares no appender with a logger of the manager.
\<close>

definition fits_now :: "env \<Rightarrow> log_sys \<Rightarrow> aid \<Rightarrow> bool" where
  "fits_now env st a \<longleftrightarrow> (\<forall>ev. e_time ev = clock env \<longrightarrow> fits env ev st a)"

text \<open>The appenders of the logger with a name.\<close>

definition touched :: "log_sys \<Rightarrow> string \<Rightarrow> aid set" where
  "touched st n =
     (case map_of (m_loggers st) n of
        None \<Rightarrow> {}
      | Some l \<Rightarrow> (case loggers st l of None \<Rightarrow> {} | Some lg \<Rightarrow> set (l_appenders lg)))"

definition root_ok :: "env \<Rightarrow> log_sys \<Rightarrow> bool" where
  "root_ok env st \<longleftrightarrow> wf_sys st \<and>
     (\<exists>rt. loggers st (m_root st) = Some rt \<and> (\<forall>a \<in> set (l_appenders rt). fits_now env st a) \<and>
        (\<forall>n. touched st n \<inter> set (l_appenders rt) = {}))"

lemma log_to_fits:
  assumes "has_fmt st a" and "fits env ev st a" and "event_lname ev st = Some n"
  shows "\<exists>st'. log_to env level ev a st = Inr st'"
proof -
  obtain ap f where ap: "appenders st a = Some ap" "a_formatter ap = Some f"
    using assms(1) by (auto simp: has_fmt_def)
  with assms(2) have "dates_fit (lc env) ev (f_items f)" by (simp add: fits_def)
  then obtain s where "app_format env (Some n) level ev ap = Inr s"
    using ap(2) by (auto simp: app_format_def formatter_format_def rfold_items)
  with ap assms(3) show ?thesis
    by (auto simp: log_to_def with_appender_def appender_log_def stdout_log_def file_log_def Let_def
        case_prod_unfold split: option.split)
qed

lemma log_frame_fits:
  assumes "log_frame st st'"
  shows "fits env ev st' a = fits env ev st a"
  using log_frame_at [OF assms, of a]
  by (cases "appenders st a"; cases "appenders st' a") (auto simp: fits_def same_config_def)

lemma log_list_fits:
  assumes "\<forall>a \<in> set as. has_fmt st a \<and> fits env ev st a" and "event_lname ev st = Some n"
  shows "\<exists>st'. rfold (log_to env level ev) as st = Inr st'"
  using assms
proof (induction "as" arbitrary: st)
  case (Cons a "as")
  then obtain st1 where st1: "log_to env level ev a st = Inr st1"
    using log_to_fits [of st a env ev n level] by auto
  note frame = log_to_frame [OF st1]
  have "event_lname ev st1 = Some n"
    using frame Cons.prems(2) by (simp add: event_lname_def log_frame_def)
  moreover have "\<forall>a \<in> set as. has_fmt st1 a \<and> fits env ev st1 a"
    using Cons.prems(1) log_frame_has_fmt [OF frame] log_frame_fits [OF frame] by simp
  ultimately show ?case using Cons.IH [of st1] st1 by simp
qed simp

lemma log_root_ok:
  assumes "root_ok env st"
  shows "\<exists>st'. log_root env c lvl msg st = Inr st' \<and> log_frame st st'"
proof -
  from assms obtain rt where wf: "wf_sys st" and rt: "loggers st (m_root st) = Some rt"
    and fit: "\<forall>a \<in> set (l_appenders rt). fits_now env st a" by (auto simp: root_ok_def)
  have root: "l_root rt = None" using wf_rootD [OF wf] rt by auto
  let ?ev = "event_append msg (macro_event env c (m_root st) lvl)"
  have ev: "e_time ?ev = clock env" "e_logger ?ev = m_root st" "e_level ?ev = lvl"
    by (simp_all add: event_append_def macro_event_def mk_event_def)
  have "\<forall>a \<in> set (l_appenders rt). has_fmt st a \<and> fits env ?ev st a"
    using wf_loggerD [OF wf rt] fit ev by (auto simp: wf_logger_def fits_now_def)
  moreover have "event_lname ?ev st = Some (l_name rt)" using rt ev by (simp add: event_lname_def)
  ultimately obtain st' where st': "rfold (log_to env lvl ?ev) (l_appenders rt) st = Inr st'"
    using log_list_fits by metis
  show ?thesis
  proof (cases "l_level rt \<le> lvl")
    case True
    with rt root ev st' have "log_root env c lvl msg st = Inr st'"
      by (simp add: log_root_def YECC_LOG_LEVEL_def getRoot_def wrap_destroy_def logger_log_root)
    with log_list_frame [OF st'] show ?thesis by blast
  next
    case False
    with rt show ?thesis by (auto simp: log_root_def YECC_LOG_LEVEL_def getRoot_def)
  qed
qed

lemma touched_log_frame: "log_frame st st' \<Longrightarrow> touched st' n = touched st n"
  by (simp add: touched_def log_frame_def cong: option.case_cong)

lemma log_frame_root_ok:
  assumes "root_ok env st" and "log_frame st st'"
  shows "root_ok env st'"
  using assms wf_log_frame [of st st'] log_frame_fits [OF assms(2)]
  unfolding root_ok_def fits_now_def touched_log_frame [OF assms(2)] by (auto simp: log_frame_def)

subsection \<open>The effect on one name\<close>

text \<open>
  Work on the logger of one name: every other name keeps its logger, no other logger changes, no
  appender outside the old ones of that logger is reconfigured, and the logger ends with new appenders.
\<close>

definition works_on :: "string \<Rightarrow> log_sys \<Rightarrow> log_sys \<Rightarrow> bool" where
  "works_on n st st' \<longleftrightarrow>
     m_root st' = m_root st \<and> next_aid st \<le> next_aid st' \<and>
     (\<forall>m. m \<noteq> n \<longrightarrow> map_of (m_loggers st') m = map_of (m_loggers st) m) \<and>
     (\<forall>l lg. loggers st l = Some lg \<longrightarrow> map_of (m_loggers st) n \<noteq> Some l \<longrightarrow> loggers st' l = Some lg) \<and>
     (\<forall>a. a < next_aid st \<longrightarrow> a \<notin> touched st n
        \<longrightarrow> rel_option same_config (appenders st a) (appenders st' a)) \<and>
     touched st' n \<subseteq> {next_aid st..<next_aid st'}"

lemma getLogger_cases:
  assumes "wf_sys st"
  obtains l lg st' where "getLogger n st = Inr (l, st')" and "wf_sys st'"
    and "map_of (m_loggers st') n = Some l" and "loggers st' l = Some lg"
    and "appenders st' = appenders st" and "next_aid st' = next_aid st" and "m_root st' = m_root st"
    and "\<forall>m. m \<noteq> n \<longrightarrow> map_of (m_loggers st') m = map_of (m_loggers st) m"
    and "\<forall>k. k \<noteq> l \<longrightarrow> loggers st' k = loggers st k"
    and "set (l_appenders lg) = touched st n"
    and "map_of (m_loggers st) n = Some l \<or> map_of (m_loggers st) n = None \<and> loggers st l = None"
proof (cases "map_of (m_loggers st) n")
  case (Some l)
  then obtain lg where "loggers st l = Some lg" using wf_namedD [OF assms Some] by blast
  with Some assms show ?thesis
    by (intro that [of l st lg]) (simp_all add: getLogger_old touched_def)
next
  case None
  from getLogger_new [OF assms None] obtain f st' where get: "getLogger n st = Inr (next_lid st, st')"
    and st': "st' = put_logger (next_lid st) \<lparr>l_name = n, l_level = DEBUG, l_appenders = [], l_formatter = Some f,
        l_root = Some (m_root st)\<rparr> st
      \<lparr>next_lid := next_lid st + 1, m_loggers := mput n (next_lid st) (m_loggers st)\<rparr>" by blast
  show ?thesis
    by (rule that [OF get wf_getLogger [OF assms get]])
      (use None wf_fresh_lid [OF assms] wf_mwf [OF assms] in \<open>auto simp: st' touched_def\<close>)
qed

lemma wf_conf_logger:
  assumes "wf_sys st" and "conf_logger l v st = Inr st'"
  shows "wf_sys st'"
proof -
  have app: "wf_sys u'" if "wf_sys u" and "conf_appender l a u = Inr u'" for a u u'
  proof -
    from that obtain np u1 u2 u3 where "make_appender a u = (Some np, u1)"
      and "(if ad_level a \<noteq> UNKNOW then appender_setLevel np (ad_level a) u1 else Inr u1) = Inr u2"
      and "(if ad_formatter a \<noteq> [] then appender_setFormatter_str np (ad_formatter a) u2 else Inr u2) = Inr u3"
      and "addAppender l np u3 = Inr u'"
      by (auto simp: conf_appender_def rbind_eq_Inr split: prod.splits option.splits)
    moreover from this(1) that(1) have "wf_sys u1"
      using wf_new_appender [of u new_stdout_appender] wf_new_appender [of u "new_file_appender (ad_file a)"]
      by (auto simp: make_appender_def Let_def case_prod_unfold split: if_splits)
    ultimately show ?thesis
      by (metis Inr_inject wf_addAppender wf_appender_setFormatter_str wf_appender_setLevel)
  qed
  from assms(2) obtain u1 u2 u3 where "logger_setLevel l (ld_level v) st = Inr u1"
    and "(if ld_formatter v \<noteq> [] then setFormatter_str l (ld_formatter v) u1 else Inr u1) = Inr u2"
    and "clearAppender l u2 = Inr u3" and loop: "rfold (conf_appender l) (ld_appenders v) u3 = Inr st'"
    by (auto simp: conf_logger_def rbind_eq_Inr)
  with assms(1) have "wf_sys u3"
    by (metis Inr_inject wf_clearAppender wf_setFormatter_str wf_setLevel)
  with loop show ?thesis by (rule rfold_preserves) (rule app)
qed

text \<open>A logger that is configured the way its definition says, and one that is switched off.\<close>

definition conf_matches :: "log_sys \<Rightarrow> log_define \<Rightarrow> bool" where
  "conf_matches st v \<longleftrightarrow>
     (\<exists>l lg. map_of (m_loggers st) (ld_name v) = Some l \<and> loggers st l = Some lg \<and>
        l_level lg = ld_level v \<and>
        (ld_formatter v \<noteq> [] \<longrightarrow> l_formatter lg = Some (the_formatter (ld_formatter v))) \<and>
        list_all2 (\<lambda>ad a. \<exists>ap. appenders st a = Some ap \<and> same_config (built (l_formatter lg) ad) ap)
          (ld_appenders v) (l_appenders lg))"

definition switched_off :: "log_sys \<Rightarrow> string \<Rightarrow> bool" where
  "switched_off st n \<longleftrightarrow>
     (\<exists>l lg. map_of (m_loggers st) n = Some l \<and> loggers st l = Some lg \<and>
        l_level lg = LEVEL_100 \<and> l_appenders lg = [])"

lemma same_config_refl [simp]: "same_config a a"
  by (simp add: same_config_def)

lemma rel_same_config_refl [simp]: "rel_option same_config x x"
  by (cases x) simp_all

lemma touched_existing:
  assumes "wf_sys st" and "a \<in> touched st n"
  shows "a < next_aid st"
proof -
  from assms(2) obtain l lg where "loggers st l = Some lg" and "a \<in> set (l_appenders lg)"
    by (auto simp: touched_def split: option.splits)
  with wf_loggerD [OF assms(1)] have "has_fmt st a" by (auto simp: wf_logger_def)
  with assms(1) show ?thesis by (auto simp: has_fmt_def dest: wf_aid_less)
qed

lemma configure_logger:
  assumes "wf_sys st" and "list_all constructible (ld_appenders v)"
  shows "\<exists>st'. rbind (getLogger (ld_name v) st) (\<lambda>(logger, st). conf_logger logger v st) = Inr st'
     \<and> wf_sys st' \<and> works_on (ld_name v) st st' \<and> conf_matches st' v"
proof -
  let ?n = "ld_name v"
  obtain l lg st1 where get: "getLogger ?n st = Inr (l, st1)" and wf1: "wf_sys st1"
    and named: "map_of (m_loggers st1) ?n = Some l" and lg: "loggers st1 l = Some lg"
    and same: "appenders st1 = appenders st" "next_aid st1 = next_aid st" "m_root st1 = m_root st"
      "\<forall>m. m \<noteq> ?n \<longrightarrow> map_of (m_loggers st1) m = map_of (m_loggers st) m"
      "\<forall>k. k \<noteq> l \<longrightarrow> loggers st1 k = loggers st k"
    and apps: "set (l_appenders lg) = touched st ?n"
    and old: "map_of (m_loggers st) ?n = Some l \<or> map_of (m_loggers st) ?n = None \<and> loggers st l = None"
    by (rule getLogger_cases [OF assms(1), of ?n])
  have "\<forall>a \<in> set (l_appenders lg). appenders st1 a \<noteq> None"
    using wf_loggerD [OF wf1 lg] by (auto simp: wf_logger_def has_fmt_def)
  from conf_logger_spec [OF lg this assms(2)] obtain msg where
    conf: "conf_logger l v st1 =
      Inr (print msg (with_built l (conf_header v lg) (ld_appenders v) (conf_base l v lg st1)))" by blast
  let ?new = "[next_aid st..<next_aid st + length (ld_appenders v)]"
  let ?lg = "(conf_header v lg)\<lparr>l_appenders := ?new\<rparr>"
  let ?st2 = "with_built l (conf_header v lg) (ld_appenders v) (conf_base l v lg st1)"
  let ?st' = "print msg ?st2"
  have st': "m_root ?st' = m_root st" "m_loggers ?st' = m_loggers st1"
      "next_aid ?st' = next_aid st + length (ld_appenders v)"
      "loggers ?st' = (loggers st1)(l \<mapsto> ?lg)"
    and app': "\<And>b. appenders ?st2 b =
      (if next_aid st \<le> b \<and> b < next_aid st + length (ld_appenders v)
       then Some (built (l_formatter ?lg) (ld_appenders v ! (b - next_aid st)))
       else map_option (\<lambda>ap. inherited v (l_appenders lg) ap b) (appenders st b))"
    by (auto simp: with_built_def conf_base_def conf_header_def same)
  have "wf_sys ?st'" using wf1 conf by (rule wf_conf_logger)
  moreover have "works_on ?n st ?st'"
    unfolding works_on_def
  proof (intro conjI allI impI)
    fix a assume "a < next_aid st" and "a \<notin> touched st ?n"
    then have "appenders ?st2 a = appenders st a"
      unfolding app' by (cases "appenders st a") (auto simp: inherited_def apps)
    then show "rel_option same_config (appenders st a) (appenders ?st' a)"
      by (simp only: print_frame rel_same_config_refl)
  qed (use st' same old named in \<open>auto simp: touched_def\<close>)
  moreover have "conf_matches ?st' v"
  proof -
    have "list_all2 (\<lambda>ad a. \<exists>ap. appenders ?st' a = Some ap \<and> same_config (built (l_formatter ?lg) ad) ap)
            (ld_appenders v) ?new"
      by (auto simp: list_all2_conv_all_nth app')
    with st' named show ?thesis
      unfolding conf_matches_def by (intro exI [of _ l] exI [of _ ?lg]) (simp add: conf_header_def)
  qed
  ultimately show ?thesis using get conf by auto
qed

lemma delete_logger:
  assumes "wf_sys st"
  shows "\<exists>st'. rbind (getLogger n st) (\<lambda>(logger, st).
        rbind (logger_setLevel logger LEVEL_100 st) (clearAppender logger)) = Inr st'
     \<and> wf_sys st' \<and> works_on n st st' \<and> switched_off st' n"
proof -
  obtain l lg st1 where get: "getLogger n st = Inr (l, st1)" and wf1: "wf_sys st1"
    and named: "map_of (m_loggers st1) n = Some l" and lg: "loggers st1 l = Some lg"
    and same: "appenders st1 = appenders st" "next_aid st1 = next_aid st" "m_root st1 = m_root st"
      "\<forall>m. m \<noteq> n \<longrightarrow> map_of (m_loggers st1) m = map_of (m_loggers st) m"
      "\<forall>k. k \<noteq> l \<longrightarrow> loggers st1 k = loggers st k"
    and apps: "set (l_appenders lg) = touched st n"
    and old: "map_of (m_loggers st) n = Some l \<or> map_of (m_loggers st) n = None \<and> loggers st l = None"
    by (rule getLogger_cases [OF assms(1), of n])
  let ?st' = "put_logger l (lg\<lparr>l_level := LEVEL_100, l_appenders := []\<rparr>)
                (put_logger l (lg\<lparr>l_level := LEVEL_100\<rparr>) st1)"
  have run: "logger_setLevel l LEVEL_100 st1 = Inr (put_logger l (lg\<lparr>l_level := LEVEL_100\<rparr>) st1)"
    "clearAppender l (put_logger l (lg\<lparr>l_level := LEVEL_100\<rparr>) st1) = Inr ?st'"
    using lg by (simp_all add: logger_setLevel_def clearAppender_def with_logger_def)
  have "wf_sys ?st'"
    using wf_clearAppender [OF wf_setLevel [OF wf1 run(1)] run(2)] .
  moreover have "works_on n st ?st'"
    unfolding works_on_def using same old named by (auto simp: touched_def)
  moreover have "switched_off ?st' n"
    using named by (auto simp: switched_off_def)
  ultimately show ?thesis using get run by auto
qed

lemma works_on_after_log:
  assumes "log_frame st st1" and "works_on n st1 st2"
  shows "works_on n st st2"
  unfolding works_on_def
proof (intro conjI allI impI)
  fix a assume a: "a < next_aid st" "a \<notin> touched st n"
  with assms touched_log_frame [OF assms(1)] have "rel_option same_config (appenders st1 a) (appenders st2 a)"
    by (simp add: works_on_def log_frame_def)
  with log_frame_at [OF assms(1), of a] show "rel_option same_config (appenders st a) (appenders st2 a)"
    by (rule rel_option_same_config_trans)
qed (use assms touched_log_frame [OF assms(1)] in \<open>auto simp: works_on_def log_frame_def\<close>)

lemma named_distinct:
  assumes "wf_sys st" and "map_of (m_loggers st) n = Some l" and "map_of (m_loggers st) m = Some l"
  shows "m = n"
  using wf_namedD [OF assms(1,2)] wf_namedD [OF assms(1,3)] by auto

lemma works_on_other:
  assumes "works_on n st st'" and "wf_sys st" and "m \<noteq> n" and "map_of (m_loggers st) m = Some l"
    and "loggers st l = Some lg"
  shows "map_of (m_loggers st') m = Some l \<and> loggers st' l = Some lg"
  using assms named_distinct [OF assms(2,4), of n] by (auto simp: works_on_def)

lemma works_on_touched:
  assumes "works_on n st st'" and "wf_sys st" and "m \<noteq> n"
  shows "touched st' m = touched st m"
proof (cases "map_of (m_loggers st) m")
  case None
  with assms show ?thesis by (simp add: works_on_def touched_def)
next
  case (Some l)
  then obtain lg where "loggers st l = Some lg" using wf_namedD [OF assms(2)] by blast
  with works_on_other [OF assms Some] Some show ?thesis by (simp add: touched_def)
qed

lemma works_on_root_ok:
  assumes "root_ok env st" and "works_on n st st'" and "wf_sys st'"
  shows "root_ok env st'"
proof -
  from assms(1) obtain rt where wf: "wf_sys st" and rt: "loggers st (m_root st) = Some rt"
    and fit: "\<forall>a \<in> set (l_appenders rt). fits_now env st a"
    and disj: "\<forall>n. touched st n \<inter> set (l_appenders rt) = {}" by (auto simp: root_ok_def)
  have "l_root rt = None" using wf_rootD [OF wf] rt by auto
  then have "map_of (m_loggers st) n \<noteq> Some (m_root st)"
    using wf_namedD [OF wf, of n] rt by auto
  with assms(2) rt have rt': "loggers st' (m_root st') = Some rt" by (simp add: works_on_def)
  have exists: "a < next_aid st" if "a \<in> set (l_appenders rt)" for a
    using wf_loggerD [OF wf rt] that by (auto simp: wf_logger_def has_fmt_def dest: wf_aid_less [OF wf])
  have "fits_now env st' a" if a: "a \<in> set (l_appenders rt)" for a
  proof -
    have "a \<notin> touched st n" using disj a by blast
    with assms(2) exists [OF a] have "rel_option same_config (appenders st a) (appenders st' a)"
      by (simp add: works_on_def)
    with fit a show ?thesis
      by (cases "appenders st a"; cases "appenders st' a") (auto simp: fits_now_def fits_def same_config_def)
  qed
  moreover have "touched st' m \<inter> set (l_appenders rt) = {}" for m
  proof (cases "m = n")
    case True
    with assms(2) exists show ?thesis by (fastforce simp: works_on_def)
  next
    case False
    with works_on_touched [OF assms(2) wf False] disj show ?thesis by simp
  qed
  ultimately show ?thesis using rt' assms(3) by (auto simp: root_ok_def)
qed

text \<open>The two rounds of the listener.\<close>

lemma conf_round:
  assumes "root_ok env st" and "list_all constructible (ld_appenders v)"
  shows "\<exists>st'. rbind (log_root env c INFO msg st) (\<lambda>st.
       rbind (getLogger (ld_name v) st) (\<lambda>(logger, st). conf_logger logger v st)) = Inr st'
     \<and> root_ok env st' \<and> works_on (ld_name v) st st' \<and> conf_matches st' v"
proof -
  from log_root_ok [OF assms(1), of c INFO msg] obtain st1 where
    log: "log_root env c INFO msg st = Inr st1" and frame: "log_frame st st1" by blast
  have ok1: "root_ok env st1" using assms(1) frame by (rule log_frame_root_ok)
  then have "wf_sys st1" by (simp add: root_ok_def)
  from configure_logger [OF this assms(2)] obtain st' where
    "rbind (getLogger (ld_name v) st1) (\<lambda>(logger, st). conf_logger logger v st) = Inr st'"
    and "wf_sys st'" and "works_on (ld_name v) st1 st'" and "conf_matches st' v" by blast
  with log frame ok1 works_on_after_log works_on_root_ok show ?thesis by (metis rbind_Inr)
qed

lemma delete_round:
  assumes "root_ok env st"
  shows "\<exists>st'. rbind (log_root env c INFO msg st) (\<lambda>st.
       rbind (getLogger n st) (\<lambda>(logger, st).
       rbind (logger_setLevel logger LEVEL_100 st) (clearAppender logger))) = Inr st'
     \<and> root_ok env st' \<and> works_on n st st' \<and> switched_off st' n"
proof -
  from log_root_ok [OF assms(1), of c INFO msg] obtain st1 where
    log: "log_root env c INFO msg st = Inr st1" and frame: "log_frame st st1" by blast
  have ok1: "root_ok env st1" using assms(1) frame by (rule log_frame_root_ok)
  then have "wf_sys st1" by (simp add: root_ok_def)
  from delete_logger [OF this, of n] obtain st' where
    "rbind (getLogger n st1) (\<lambda>(logger, st).
       rbind (logger_setLevel logger LEVEL_100 st) (clearAppender logger)) = Inr st'"
    and "wf_sys st'" and "works_on n st1 st'" and "switched_off st' n" by blast
  with log frame ok1 works_on_after_log works_on_root_ok show ?thesis by (metis rbind_Inr)
qed

subsection \<open>The whole listener\<close>

lemma find_define_Some: "find_define v ds = Some d \<Longrightarrow> d \<in> set ds \<and> ld_name d = ld_name v"
  by (auto simp: find_define_def find_Some_iff log_define_less_def)

lemma find_define_None: "find_define v ds = None \<longleftrightarrow> ld_name v \<notin> ld_name ` set ds"
  by (auto simp: find_define_def find_None_iff log_define_less_def)

definition unchanged :: "log_define list \<Rightarrow> log_define \<Rightarrow> bool" where
  "unchanged old v \<longleftrightarrow> find_define v old = Some v"

text \<open>
  The names worked on so far, \<open>P\<close>, have only appenders created since the beginning, when
  \<open>A\<close> was the next address; all others have only older ones, and are as they were.
\<close>

definition progress :: "env \<Rightarrow> log_sys \<Rightarrow> string set \<Rightarrow> log_sys \<Rightarrow> bool" where
  "progress env st0 P st \<longleftrightarrow> root_ok env st \<and> next_aid st0 \<le> next_aid st \<and>
     (\<forall>n \<in> P. touched st n \<subseteq> {next_aid st0..}) \<and>
     (\<forall>n. n \<notin> P \<longrightarrow> touched st n \<subseteq> {..<next_aid st0}) \<and>
     (\<forall>n l. n \<notin> P \<longrightarrow> map_of (m_loggers st) n = map_of (m_loggers st0) n \<and>
        (map_of (m_loggers st0) n = Some l \<longrightarrow> loggers st l = loggers st0 l))"

lemma progress_start: "root_ok env st \<Longrightarrow> progress env st {} st"
  using touched_existing [of st] by (auto simp: progress_def root_ok_def)

lemma works_on_matches:
  assumes "works_on n st st'" and "wf_sys st" and "ld_name v \<noteq> n" and "conf_matches st v"
    and "touched st n \<inter> touched st (ld_name v) = {}"
  shows "conf_matches st' v"
proof -
  from assms(4) obtain l lg where l: "map_of (m_loggers st) (ld_name v) = Some l" and lg: "loggers st l = Some lg"
    and conf: "l_level lg = ld_level v"
      "ld_formatter v \<noteq> [] \<longrightarrow> l_formatter lg = Some (the_formatter (ld_formatter v))"
    and apps: "list_all2 (\<lambda>ad a. \<exists>ap. appenders st a = Some ap \<and> same_config (built (l_formatter lg) ad) ap)
          (ld_appenders v) (l_appenders lg)" by (auto simp: conf_matches_def)
  have keep: "rel_option same_config (appenders st a) (appenders st' a)" if "a \<in> set (l_appenders lg)" for a
  proof -
    have a: "a \<in> touched st (ld_name v)" using that l lg by (simp add: touched_def)
    then have "a \<notin> touched st n" using assms(5) by blast
    with assms(1) touched_existing [OF assms(2) a] show ?thesis by (simp add: works_on_def)
  qed
  have "list_all2 (\<lambda>ad a. \<exists>ap. appenders st' a = Some ap \<and> same_config (built (l_formatter lg) ad) ap)
          (ld_appenders v) (l_appenders lg)"
    using apps
  proof (rule list.rel_mono_strong)
    fix ad a
    assume "a \<in> set (l_appenders lg)" and "\<exists>ap. appenders st a = Some ap \<and> same_config (built (l_formatter lg) ad) ap"
    with keep [of a] show "\<exists>ap. appenders st' a = Some ap \<and> same_config (built (l_formatter lg) ad) ap"
      using same_config_trans by (auto simp: option_rel_Some1)
  qed
  with works_on_other [OF assms(1-3) l lg] conf show ?thesis unfolding conf_matches_def by blast
qed

lemma works_on_off:
  assumes "works_on n st st'" and "wf_sys st" and "m \<noteq> n" and "switched_off st m"
  shows "switched_off st' m"
  using assms(4) works_on_other [OF assms(1-3)] unfolding switched_off_def by blast

lemma progress_step:
  assumes "progress env st0 P st" and "works_on n st st'" and "root_ok env st'" and "n \<notin> P"
  shows "progress env st0 (insert n P) st'"
proof -
  have wf: "wf_sys st" using assms(1) by (simp add: progress_def root_ok_def)
  note p = assms(1) [unfolded progress_def] and w = assms(2) [unfolded works_on_def]
  have other: "touched st' m = touched st m" if "m \<noteq> n" for m
    using works_on_touched [OF assms(2) wf that] .
  have "touched st' n \<subseteq> {next_aid st0..}" using p w by auto
  then have new: "\<forall>m \<in> insert n P. touched st' m \<subseteq> {next_aid st0..}"
    using p other by (metis insert_iff)
  have old: "\<forall>m. m \<notin> insert n P \<longrightarrow> touched st' m \<subseteq> {..<next_aid st0}"
    using p other by auto
  have "map_of (m_loggers st') m = map_of (m_loggers st0) m \<and>
        (map_of (m_loggers st0) m = Some l \<longrightarrow> loggers st' l = loggers st0 l)" if m: "m \<notin> insert n P" for m l
  proof -
    have eq: "map_of (m_loggers st') m = map_of (m_loggers st) m" "map_of (m_loggers st) m = map_of (m_loggers st0) m"
      using p w m by auto
    moreover have "loggers st' l = loggers st0 l" if "map_of (m_loggers st0) m = Some l"
    proof -
      from that eq have named: "map_of (m_loggers st) m = Some l" by simp
      then obtain lg where "loggers st l = Some lg" using wf_namedD [OF wf] by blast
      with works_on_other [OF assms(2) wf _ named] m p that show ?thesis by auto
    qed
    ultimately show ?thesis by simp
  qed
  with new old assms(3) p w show ?thesis unfolding progress_def by auto
qed

lemma progress_matches:
  assumes "progress env st0 P st" and "works_on n st st'" and "n \<notin> P" and "ld_name v \<in> P" and "conf_matches st v"
  shows "conf_matches st' v"
proof (rule works_on_matches [OF assms(2) _ _ assms(5)])
  show "wf_sys st" using assms(1) by (simp add: progress_def root_ok_def)
  show "ld_name v \<noteq> n" using assms(3,4) by auto
  have "touched st n \<subseteq> {..<next_aid st0}" and "touched st (ld_name v) \<subseteq> {next_aid st0..}"
    using assms(1,3,4) by (auto simp: progress_def)
  then show "touched st n \<inter> touched st (ld_name v) = {}"
    by (meson disjoint_iff atLeast_iff lessThan_iff not_le subsetD)
qed

lemma conf_loop_progress:
  assumes "progress env st0 P st" and "\<forall>v \<in> set ps. conf_matches st v" and "ld_name ` set ps = P"
    and "distinct (map ld_name vs)" and "P \<inter> ld_name ` set vs = {}"
    and "\<forall>v \<in> set vs. list_all constructible (ld_appenders v)"
  shows "\<exists>st'. conf_loop env c old vs st = Inr (list_all (\<lambda>v. \<not> unchanged old v) vs, st')
     \<and> progress env st0 (P \<union> ld_name ` set (takeWhile (\<lambda>v. \<not> unchanged old v) vs)) st'
     \<and> (\<forall>v \<in> set ps \<union> set (takeWhile (\<lambda>v. \<not> unchanged old v) vs). conf_matches st' v)"
  using assms
proof (induction vs arbitrary: ps P st)
  case Nil
  then show ?case by auto
next
  case (Cons v vs)
  show ?case
  proof (cases "unchanged old v")
    case True
    with Cons.prems show ?thesis by (auto simp: unchanged_def)
  next
    case False
    have ok: "root_ok env st" using Cons.prems(1) by (simp add: progress_def)
    obtain what where kind: "(case find_define v old of
                    None \<Rightarrow> Some ''new logger added''
                  | Some d \<Rightarrow> if v \<noteq> d then Some ''logger conf modified'' else None) = Some what"
      using False by (cases "find_define v old") (auto simp: unchanged_def)
    let ?msg = "''logger conf changed: '' @ what @ '', name: '' @ ld_name v"
    from conf_round [OF ok, of v c ?msg] Cons.prems(6) obtain st1 where
      run: "rbind (log_root env c INFO ?msg st) (\<lambda>st.
       rbind (getLogger (ld_name v) st) (\<lambda>(logger, st). conf_logger logger v st)) = Inr st1"
      and st1: "root_ok env st1" "works_on (ld_name v) st st1" "conf_matches st1 v" by auto
    have notin: "ld_name v \<notin> P" using Cons.prems(5) by auto
    have "progress env st0 (insert (ld_name v) P) st1"
      using progress_step [OF Cons.prems(1) st1(2,1) notin] .
    moreover have "\<forall>w \<in> set (v # ps). conf_matches st1 w"
      using progress_matches [OF Cons.prems(1) st1(2) notin] Cons.prems(2,3) st1(3) by auto
    ultimately obtain st' where st': "conf_loop env c old vs st1 = Inr (list_all (\<lambda>v. \<not> unchanged old v) vs, st')"
      "progress env st0 (insert (ld_name v) P \<union> ld_name ` set (takeWhile (\<lambda>v. \<not> unchanged old v) vs)) st'"
      "\<forall>w \<in> set (v # ps) \<union> set (takeWhile (\<lambda>v. \<not> unchanged old v) vs). conf_matches st' w"
      using Cons.IH [of "insert (ld_name v) P" st1 "v # ps"] Cons.prems by auto
    have "conf_loop env c old (v # vs) st = rbind (rbind (log_root env c INFO ?msg st) (\<lambda>st.
       rbind (getLogger (ld_name v) st) (\<lambda>(logger, st). conf_logger logger v st))) (conf_loop env c old vs)"
      using kind by (simp add: rbind_assoc case_prod_unfold)
    with run st' False show ?thesis by auto
  qed
qed

text \<open>The deletions.\<close>

lemma conf_delete_progress:
  assumes "progress env st0 P st" and "\<forall>v \<in> set new. ld_name v \<in> P \<and> conf_matches st v"
    and "distinct (map ld_name ds)" and "\<forall>d \<in> set ds. ld_name d \<notin> P \<or> ld_name d \<in> ld_name ` set new"
    and "\<forall>n \<in> D. n \<in> P \<and> switched_off st n \<and> n \<notin> ld_name ` set ds"
  shows "\<exists>st'. rfold (conf_delete env c new) ds st = Inr st'
     \<and> progress env st0 (P \<union> ld_name ` set ds) st'
     \<and> (\<forall>v \<in> set new. conf_matches st' v)
     \<and> (\<forall>n \<in> D \<union> (ld_name ` set ds - ld_name ` set new). switched_off st' n)"
  using assms
proof (induction ds arbitrary: P D st)
  case Nil
  then show ?case by auto
next
  case (Cons d ds)
  let ?n = "ld_name d"
  show ?case
  proof (cases "?n \<in> ld_name ` set new")
    case True
    then have "conf_delete env c new d st = Inr st"
      using find_define_None [of d new] by (auto simp: conf_delete_def split: option.split)
    moreover have "P \<union> ld_name ` set (d # ds) = P \<union> ld_name ` set ds"
      "ld_name ` set (d # ds) - ld_name ` set new = ld_name ` set ds - ld_name ` set new"
      using True Cons.prems(2) by auto
    ultimately show ?thesis
      using Cons.IH [OF Cons.prems(1,2), of D] Cons.prems(3,4,5) by simp
  next
    case False
    then have notin: "?n \<notin> P" using Cons.prems(4) by auto
    have ok: "root_ok env st" using Cons.prems(1) by (simp add: progress_def)
    then have wf: "wf_sys st" by (simp add: root_ok_def)
    have none: "find_define d new = None" using False find_define_None by blast
    obtain st1 where run: "conf_delete env c new d st = Inr st1"
      and st1: "root_ok env st1" "works_on ?n st st1" "switched_off st1 ?n"
      using delete_round [OF ok, of c "''logger conf changed: logger deleted, name: '' @ ?n" ?n] none
      by (auto simp: conf_delete_def)
    have 1: "progress env st0 (insert ?n P) st1"
      using progress_step [OF Cons.prems(1) st1(2,1) notin] .
    have 2: "\<forall>v \<in> set new. ld_name v \<in> insert ?n P \<and> conf_matches st1 v"
      using progress_matches [OF Cons.prems(1) st1(2) notin] Cons.prems(2) by auto
    have 3: "distinct (map ld_name ds)" using Cons.prems(3) by simp
    have 4: "\<forall>e \<in> set ds. ld_name e \<notin> insert ?n P \<or> ld_name e \<in> ld_name ` set new"
      using Cons.prems(3,4) by (auto simp: image_iff)
    have 5: "\<forall>n \<in> insert ?n D. n \<in> insert ?n P \<and> switched_off st1 n \<and> n \<notin> ld_name ` set ds"
      using Cons.prems(3,5) st1(3) works_on_off [OF st1(2) wf] notin by auto
    obtain st' where "rfold (conf_delete env c new) ds st1 = Inr st'"
      "progress env st0 (insert ?n P \<union> ld_name ` set ds) st'" "\<forall>v \<in> set new. conf_matches st' v"
      "\<forall>n \<in> insert ?n D \<union> (ld_name ` set ds - ld_name ` set new). switched_off st' n"
      using Cons.IH [OF 1 2 3 4 5] by blast
    moreover have "insert ?n P \<union> ld_name ` set ds = P \<union> ld_name ` set (d # ds)"
      "insert ?n D \<union> (ld_name ` set ds - ld_name ` set new) = D \<union> (ld_name ` set (d # ds) - ld_name ` set new)"
      using False by auto
    moreover have "rfold (conf_delete env c new) (d # ds) st = rfold (conf_delete env c new) ds st1"
      using run by simp
    ultimately show ?thesis by metis
  qed
qed

lemma listener_run_effect:
  assumes "root_ok env st" and "distinct (map ld_name old)" and "distinct (map ld_name new)"
    and "\<forall>v \<in> set new. list_all constructible (ld_appenders v)"
  shows "\<exists>st'. log_conf_listener env c old new st = Inr st' \<and> root_ok env st' \<and>
     (let done = takeWhile (\<lambda>v. \<not> unchanged old v) new;
          off = (if done = new then ld_name ` set old - ld_name ` set new else {})
      in (\<forall>v \<in> set done. conf_matches st' v) \<and> (\<forall>n \<in> off. switched_off st' n) \<and>
         (\<forall>n l. n \<notin> ld_name ` set done \<union> off \<longrightarrow> map_of (m_loggers st') n = map_of (m_loggers st) n \<and>
            (map_of (m_loggers st) n = Some l \<longrightarrow> loggers st' l = loggers st l)))"
proof -
  let ?done = "takeWhile (\<lambda>v. \<not> unchanged old v) new"
  from conf_loop_progress [OF progress_start [OF assms(1)], where ps = "[]" and vs = new and old = old and c = c] assms(3,4) obtain st1 where
    run: "conf_loop env c old new st = Inr (list_all (\<lambda>v. \<not> unchanged old v) new, st1)"
    and p1: "progress env st (ld_name ` set ?done) st1"
    and m1: "\<forall>v \<in> set ?done. conf_matches st1 v" by auto
  have all_iff: "list_all (\<lambda>v. \<not> unchanged old v) new \<longleftrightarrow> ?done = new"
    by (simp add: list_all_iff takeWhile_eq_all_conv)
  note run = run [unfolded all_iff]
  show ?thesis
  proof (cases "?done = new")
    case False
    have "log_conf_listener env c old new st = Inr st1"
      unfolding log_conf_listener_def run rbind_Inr prod.case using False by (simp only: if_False)
    moreover have "root_ok env st1" using p1 by (simp add: progress_def)
    ultimately show ?thesis using p1 m1 False by (auto simp: progress_def Let_def)
  next
    case True
    obtain st2 where del: "rfold (conf_delete env c new) old st1 = Inr st2"
      and p2: "progress env st (ld_name ` set new \<union> ld_name ` set old) st2"
      and m2: "\<forall>v \<in> set new. conf_matches st2 v"
      and off: "\<forall>n \<in> ld_name ` set old - ld_name ` set new. switched_off st2 n"
      using conf_delete_progress [where P = "ld_name ` set new" and D = "{}" and ds = old and new = new and c = c, of env st st1] p1 m1 True assms(2) by auto
    have "log_conf_listener env c old new st = Inr st2"
      unfolding log_conf_listener_def run rbind_Inr prod.case using True del by (simp only: if_True simp_thms)
    moreover have "root_ok env st2" using p2 by (simp add: progress_def)
    moreover have "map_of (m_loggers st2) n = map_of (m_loggers st) n \<and>
            (map_of (m_loggers st) n = Some l \<longrightarrow> loggers st2 l = loggers st l)"
      if "n \<notin> ld_name ` set new \<union> (ld_name ` set old - ld_name ` set new)" for n l
      using p2 that by (auto simp: progress_def)
    ultimately show ?thesis using m2 off unfolding Let_def True by simp
  qed
qed

lemma listener_run:
  assumes "root_ok env st" and "distinct (map ld_name old)" and "distinct (map ld_name new)"
    and "\<forall>v \<in> set new. list_all constructible (ld_appenders v)"
  shows "\<exists>st'. log_conf_listener env c old new st = Inr st' \<and> root_ok env st'
     \<and> (\<forall>v \<in> set (takeWhile (\<lambda>v. \<not> unchanged old v) new). conf_matches st' v)"
  using listener_run_effect [OF assms, of c] unfolding Let_def by blast

text \<open>
  C10: the listener of the \<open>logs\<close> variable always comes to its end. Up to the first definition
  that did not change, every definition of the new value is applied: its logger has the level, the
  pattern if one is given, and one appender per entry with the given type, level, file and pattern, in
  order, and nothing else. When every definition changed, the loggers of the names that disappeared
  are switched off as well and all other names keep their loggers; otherwise the definitions from that
  one on are not applied and no logger is switched off.
\<close>

theorem listener_applies_changed_prefix:
  assumes "root_ok env st" and "distinct (map ld_name old)" and "distinct (map ld_name new)"
    and "\<forall>v \<in> set new. list_all constructible (ld_appenders v)"
  shows "\<exists>st'. log_conf_listener env c old new st = Inr st' \<and> root_ok env st' \<and>
     (let done = takeWhile (\<lambda>v. \<not> unchanged old v) new;
          off = (if done = new then ld_name ` set old - ld_name ` set new else {})
      in (\<forall>v \<in> set done. conf_matches st' v) \<and> (\<forall>n \<in> off. switched_off st' n) \<and>
         (\<forall>n l. n \<notin> ld_name ` set done \<union> off \<longrightarrow> map_of (m_loggers st') n = map_of (m_loggers st) n \<and>
            (map_of (m_loggers st) n = Some l \<longrightarrow> loggers st' l = loggers st l)))"
  by (rule listener_run_effect [OF assms])

subsection \<open>From the text of the variable to the loggers\<close>

lemma cless_VLog [simp]: "cless lt (VLog a) (VLog b) = log_define_less a b"
  by (simp add: cless_def lt3_def)

lemma set_insert_VLog:
  "set_insert (cless lt) (VLog d) (map VLog ds) = map VLog (set_insert log_define_less d ds)"
  by (induction log_define_less d ds rule: set_insert.induct) simp_all

lemma transp_log_define_less: "transp log_define_less"
  by (auto simp: transp_def log_define_less_def)

text \<open>A value of \<open>logs\<close> read from text is a set of definitions with distinct names.\<close>

lemma logs_from_string:
  fixes api :: "'b lex_api"
  assumes "from_string api (TSet TLogDefine) s = Inr x"
  shows "\<exists>ds. x = VSet (map VLog ds) \<and> distinct (map ld_name ds)
     \<and> (\<forall>v \<in> set ds. list_all constructible (ld_appenders v))"
proof -
  from assms obtain xs where x: "x = VSet xs"
    and cast: "seq_cast api (from_string api TLogDefine) (set_insert (cless (lex_less api))) [] s = Inr xs"
    by (auto simp: result_simps)
  from cast have "\<exists>ds. xs = map VLog ds \<and> sorted_wrt log_define_less ds"
  proof (rule seq_cast_preserves)
    fix t and y :: "'b cval" and r :: "'b cval list"
    assume "from_string api TLogDefine t = Inr y" and "\<exists>ds. r = map VLog ds \<and> sorted_wrt log_define_less ds"
    then obtain d ds where "y = VLog d" and "r = map VLog ds" and "sorted_wrt log_define_less ds"
      by (auto simp: result_simps)
    then show "\<exists>ds. set_insert (cless (lex_less api)) y r = map VLog ds \<and> sorted_wrt log_define_less ds"
      using set_insert_sorted [OF transp_log_define_less] by (auto simp: set_insert_VLog)
  qed simp
  then obtain ds where ds: "xs = map VLog ds" and sorted: "sorted_wrt log_define_less ds" by blast
  from sorted have "distinct (map ld_name ds)"
    by (induction ds) (auto simp: log_define_less_def)
  moreover have "has_type api (\<lambda>_ _. True) (TSet TLogDefine) x"
    using assms by (rule from_string_typed [rotated]) simp
  ultimately show ?thesis using x ds by (auto simp: list_all_iff)
qed

lemma defines_of_VLog [simp]: "defines_of (VSet (map VLog ds)) = ds"
  by (induction ds) (simp_all add: defines_of_def)

lemma typed_defines:
  assumes "has_type api okb t v" and "d \<in> set (defines_of v)"
  shows "list_all constructible (ld_appenders d)"
proof -
  from assms(2) obtain xs where v: "v = VSet xs" and d: "VLog d \<in> set xs"
    by (auto simp: defines_of_def split: cval.splits)
  have typed: "has_type api okb u (VLog e) \<Longrightarrow> list_all constructible (ld_appenders e)" for u e
    by (cases u) simp_all
  from assms(1) v obtain u where "list_all (has_type api okb u) xs" by (cases t) auto
  with d typed show ?thesis by (auto simp: list_all_iff)
qed

text \<open>Without distinct names the listener still comes to its end.\<close>

lemma conf_loop_total:
  assumes "root_ok env st" and "\<forall>v \<in> set vs. list_all constructible (ld_appenders v)"
  shows "\<exists>b st'. conf_loop env c old vs st = Inr (b, st') \<and> root_ok env st'"
  using assms
proof (induction vs arbitrary: st)
  case (Cons v vs)
  show ?case
  proof (cases "unchanged old v")
    case True
    with Cons.prems show ?thesis by (auto simp: unchanged_def)
  next
    case False
    obtain what where kind: "(case find_define v old of
                    None \<Rightarrow> Some ''new logger added''
                  | Some d \<Rightarrow> if v \<noteq> d then Some ''logger conf modified'' else None) = Some what"
      using False by (cases "find_define v old") (auto simp: unchanged_def)
    let ?msg = "''logger conf changed: '' @ what @ '', name: '' @ ld_name v"
    from conf_round [OF Cons.prems(1), of v c ?msg] Cons.prems(2) obtain st1 where
      run: "rbind (log_root env c INFO ?msg st) (\<lambda>st.
       rbind (getLogger (ld_name v) st) (\<lambda>(logger, st). conf_logger logger v st)) = Inr st1"
      and "root_ok env st1" by auto
    have "conf_loop env c old (v # vs) st = rbind (rbind (log_root env c INFO ?msg st) (\<lambda>st.
       rbind (getLogger (ld_name v) st) (\<lambda>(logger, st). conf_logger logger v st))) (conf_loop env c old vs)"
      using kind by (simp add: rbind_assoc case_prod_unfold)
    with run Cons.IH [OF \<open>root_ok env st1\<close>] Cons.prems(2) show ?thesis by auto
  qed
qed auto

lemma log_conf_listener_total:
  assumes "root_ok env st" and "\<forall>v \<in> set new. list_all constructible (ld_appenders v)"
  shows "\<exists>st'. log_conf_listener env c old new st = Inr st' \<and> root_ok env st'"
proof -
  obtain b st1 where loop: "conf_loop env c old new st = Inr (b, st1)" and "root_ok env st1"
    using conf_loop_total [OF assms, of c old] by blast
  have "\<exists>u. rfold (conf_delete env c new) old st1 = Inr u \<and> root_ok env u"
    using \<open>root_ok env st1\<close>
  proof (rule rfold_invariant)
    fix d u
    assume "root_ok env u"
    with delete_round [of env u c _ "ld_name d"] show "\<exists>w. conf_delete env c new d u = Inr w \<and> root_ok env w"
      unfolding conf_delete_def by (cases "find_define d new") (auto simp: case_prod_unfold)
  qed
  with loop \<open>root_ok env st1\<close> show ?thesis by (auto simp: log_conf_listener_def)
qed

lemma log_cfg_env_ok:
  fixes api :: "'b lex_api"
  assumes "api_throws_std api" and "reads_typed api okb"
  shows "env_ok (log_cfg_env api tn env c) okb (root_ok env)"
proof -
  have "logging_ok (log_cfg_env api tn env c) (root_ok env)"
    using log_root_ok log_frame_root_ok by (fastforce simp: logging_ok_def log_cfg_env_def)
  moreover have "listeners_ok (log_cfg_env api tn env c) okb (root_ok env)"
    unfolding listeners_ok_def
  proof (intro allI impI)
    fix cb :: cb_id and t :: cty and old new :: "'b cval" and w
    assume typed: "has_type (lex (log_cfg_env api tn env c)) okb t new" and "root_ok env w"
    moreover have "\<forall>v \<in> set (defines_of new). list_all constructible (ld_appenders v)"
      using typed_defines [OF typed] by blast
    ultimately show "\<exists>w'. run_cb (log_cfg_env api tn env c) cb old new w = (None, w') \<and> root_ok env w'"
      using log_conf_listener_total [of env w "defines_of new" c "defines_of old"]
      by (auto simp: log_cfg_env_def)
  qed
  ultimately show ?thesis using assms by (simp add: env_ok_def log_cfg_env_def)
qed

text \<open>
  C2: loading any document into a running program, with the logging listener registered, comes to
  its end without a fault, whatever the document says, and leaves a program that can log.
\<close>

theorem load_document_safe:
  assumes "api_throws_std api" and "reads_typed api okb"
    and "root_ok env (world cfg)" and "config_wf api okb cfg"
  shows "\<exists>cfg'. LoadFromYaml (log_cfg_env api tn env c) root cfg = Inr cfg'
     \<and> root_ok env (world cfg') \<and> config_wf api okb cfg'"
proof -
  let ?cenv = "log_cfg_env api tn env c"
  have ok: "env_ok ?cenv okb (root_ok env)" using assms(1,2) by (rule log_cfg_env_ok)
  have lex: "lex ?cenv = api" by (simp add: log_cfg_env_def)
  from ok assms(3) obtain w where w: "ListAllMember ?cenv [] root ([], world cfg) = Inr (members [] root, w)"
    and "root_ok env w"
    using ListAllMember_members [of ?cenv "root_ok env" "([], world cfg)" "[]" root] by (auto simp: env_ok_def)
  from load_entries_ok [OF ok, of "cfg\<lparr>world := w\<rparr>" "members [] root"] \<open>root_ok env w\<close> assms(4)
  obtain cfg' where "rfold (load_entry ?cenv) (members [] root) (cfg\<lparr>world := w\<rparr>) = Inr cfg'"
    and c': "loads_to ?cenv (root_ok env) (members [] root) (cfg\<lparr>world := w\<rparr>) cfg'"
    by (auto simp: config_wf_def)
  with w have load: "LoadFromYaml ?cenv root cfg = Inr cfg'" by (simp add: LoadFromYaml_def)
  moreover have "config_wf api okb cfg'"
    using cfg_step_wf [OF _ cfg_step.load [OF load]] assms(2,4) lex by simp
  ultimately show ?thesis using c' by (simp add: loads_to_def)
qed

text \<open>
  From text to loggers. When the variable \<open>logs\<close>, with the listener of
  \<open>LogIniter\<close> on it, is given a text that can be cast to definitions, the variable takes these
  definitions, whose names are distinct, and every definition before the first unchanged one is applied
  to the logger of its name.
\<close>

lemma logs_text_applied:
  assumes "map_of (datas cfg) ''logs'' = Some cv" and "cv_ty cv = TSet TLogDefine"
    and "cv_cbs cv = [(k, 0)]" and "cv_val cv = VSet (map VLog old)" and "distinct (map ld_name old)"
    and "mwf (datas cfg)" and "root_ok env (world cfg)"
    and "from_string api (TSet TLogDefine) s = Inr x"
  shows "\<exists>cfg' cv' new. var_fromString (log_cfg_env api tn env c) ''logs'' s cfg = Inr (True, cfg')
     \<and> x = VSet (map VLog new) \<and> distinct (map ld_name new)
     \<and> map_of (datas cfg') ''logs'' = Some cv' \<and> cv_val cv' = x \<and> root_ok env (world cfg')
     \<and> (\<forall>v \<in> set (takeWhile (\<lambda>v. \<not> unchanged old v) new). conf_matches (world cfg') v)"
proof -
  let ?cenv = "log_cfg_env api tn env c"
  from logs_from_string [OF assms(8)] obtain new where x: "x = VSet (map VLog new)"
    and new: "distinct (map ld_name new)" "\<forall>v \<in> set new. list_all constructible (ld_appenders v)" by blast
  have cast: "from_string (lex ?cenv) (cv_ty cv) s = Inr x"
    using assms(2,8) by (simp add: log_cfg_env_def)
  show ?thesis
  proof (cases "cv_val cv = x")
    case True
    then have "var_fromString ?cenv ''logs'' s cfg = Inr (True, put_var ''logs'' cv cfg)"
      using assms(1) cast by (simp add: var_fromString_def with_var_def fromString_def setValue_def)
    moreover have "takeWhile (\<lambda>v. \<not> unchanged old v) new = []"
    proof (cases new)
      case (Cons v vs)
      from True x assms(4) have "old = new"
        by (metis cval.inject(3) cval.inject(8) inj_map_eq_map injI)
      with Cons have "unchanged old v" by (simp add: unchanged_def find_define_def log_define_less_def)
      with Cons show ?thesis by simp
    qed simp
    ultimately show ?thesis using assms(1,6,7) x new True by (auto simp: put_var_def)
  next
    case False
    obtain st' where run: "log_conf_listener env c old new (world cfg) = Inr st'" and "root_ok env st'"
      and match: "\<forall>v \<in> set (takeWhile (\<lambda>v. \<not> unchanged old v) new). conf_matches st' v"
      using listener_run [OF assms(7,5) new, of c] by blast
    let ?cv = "cv\<lparr>cv_val := x\<rparr>"
    have "setValue ?cenv x cv (world cfg) = (None, ?cv, st')"
      using False assms(3,4) x run by (simp add: setValue_def log_cfg_env_def)
    then have "var_fromString ?cenv ''logs'' s cfg = Inr (True, put_var ''logs'' ?cv (cfg\<lparr>world := st'\<rparr>))"
      using assms(1) cast by (simp add: var_fromString_def with_var_def fromString_def)
    with match x new \<open>root_ok env st'\<close> assms(6) show ?thesis by (auto simp: put_var_def)
  qed
qed


subsection \<open>Concrete runs\<close>

lemma root_ok_demo: "root_ok (env_at t ok) demo_sys"
proof -
  have "fits_now (env_at t ok) demo_sys 0" using demo_sys_appender by (auto simp: fits_now_def)
  with wf_demo_sys show ?thesis by (auto simp: root_ok_def demo_sys_def touched_def)
qed

definition demo_def :: "string \<Rightarrow> log_define" where
  "demo_def n = \<lparr>ld_name = n, ld_level = WARN, ld_formatter = ''%m'',
     ld_appenders = [\<lparr>ad_type = 2, ad_level = UNKNOW, ad_formatter = [], ad_file = []\<rparr>]\<rparr>"

text \<open>
  From no definitions to one, which is applied; and from one definition to two, where the one that
  stays the same keeps the new one from being applied.
\<close>

lemma listener_applies_changed_prefix_witness:
  "(\<exists>st. log_conf_listener (env_at 1 True) demo_site [] [demo_def ''b''] demo_sys = Inr st
      \<and> conf_matches st (demo_def ''b''))
   \<and> (\<exists>st. log_conf_listener (env_at 1 True) demo_site [demo_def ''a''] [demo_def ''a'', demo_def ''b''] demo_sys
        = Inr st \<and> map_of (m_loggers st) ''b'' = None)"
proof
  have ok: "list_all constructible (ld_appenders (demo_def n))" for n
    by (simp add: demo_def_def constructible_def)
  have name: "ld_name (demo_def n) = n" for n by (simp add: demo_def_def)
  have "\<not> unchanged [] (demo_def ''b'')" by (simp add: unchanged_def find_define_def)
  with listener_applies_changed_prefix [OF root_ok_demo [of 1 True], of "[]" "[demo_def ''b'']" demo_site] ok
  show "\<exists>st. log_conf_listener (env_at 1 True) demo_site [] [demo_def ''b''] demo_sys = Inr st
      \<and> conf_matches st (demo_def ''b'')" by (auto simp: Let_def)
  have "unchanged [demo_def ''a''] (demo_def ''a'')"
    by (simp add: unchanged_def find_define_def log_define_less_def)
  with listener_applies_changed_prefix [OF root_ok_demo [of 1 True],
      of "[demo_def ''a'']" "[demo_def ''a'', demo_def ''b'']" demo_site] ok
  obtain st where "log_conf_listener (env_at 1 True) demo_site [demo_def ''a''] [demo_def ''a'', demo_def ''b''] demo_sys
      = Inr st" and "map_of (m_loggers st) ''b'' = map_of (m_loggers demo_sys) ''b''"
    by (auto simp: Let_def name)
  then show "\<exists>st. log_conf_listener (env_at 1 True) demo_site [demo_def ''a''] [demo_def ''a'', demo_def ''b''] demo_sys
      = Inr st \<and> map_of (m_loggers st) ''b'' = None" by (simp add: demo_sys_def)
qed


text \<open>The registry right after static initialisation.\<close>

abbreviation demo_log_env :: "ynode list \<Rightarrow> (int, log_sys) cfg_env" where
  "demo_log_env nodes \<equiv> log_cfg_env (demo_api nodes) (\<lambda>_. []) (env_at 1 True) demo_site"

definition demo_logs_config :: "(int, log_sys) config" where
  "demo_logs_config = \<lparr>datas = [(''logs'', \<lparr>cv_name = ''logs'', cv_desp = ''logs config'',
       cv_ty = TSet TLogDefine, cv_val = VSet [], cv_cbs = [(0, 0)]\<rparr>)],
     listener_key = (\<lambda>_. 0)(TSet TLogDefine := 1), world = demo_sys\<rparr>"

lemma LogIniter_demo: "LogIniter (demo_log_env nodes) (empty_config demo_sys) = Inr demo_logs_config"
proof -
  have "valid_name ''logs''" "map tolower ''logs'' = ''logs''" by code_simp+
  then show ?thesis
    by (simp add: LogIniter_def Lookup_create_def empty_config_def put_var_def new_config_var_def
        var_addListener_def with_var_def addListener_def demo_logs_config_def)
qed

lemma demo_api_ok: "api_throws_std (demo_api nodes)" "reads_typed (demo_api nodes) (\<lambda>_ _. True)"
  by (auto simp: api_throws_std_def throws_std_def demo_api_def reads_typed_def
      split: option.splits ynode.splits)

lemma load_document_safe_witness:
  "\<exists>cfg'. LogIniter (demo_log_env []) (empty_config demo_sys) = Inr demo_logs_config
     \<and> LoadFromYaml (demo_log_env []) demo_doc demo_logs_config = Inr cfg' \<and> root_ok (env_at 1 True) (world cfg')"
proof -
  have "valid_name ''logs''" by code_simp
  then have "config_wf (demo_api []) (\<lambda>_ _. True) demo_logs_config"
    by (simp add: config_wf_def var_wf_def demo_logs_config_def)
  moreover have "root_ok (env_at 1 True) (world demo_logs_config)"
    using root_ok_demo by (simp add: demo_logs_config_def)
  ultimately show ?thesis
    using load_document_safe [OF demo_api_ok, of "env_at 1 True" demo_logs_config "[]" "\<lambda>_. []" demo_site demo_doc]
      LogIniter_demo by blast
qed

definition demo_logs_doc :: "ynode list" where
  "demo_logs_doc = (let e = YMap demo_entry; a = YSeq [e];
       l = YMap [(YScalar ''name'', YScalar ''system''), (YScalar ''level'', YScalar ''info''), (YScalar ''appender'', a)]
     in [YSeq [l], l, a, e])"

definition demo_logs_value :: log_define where
  "demo_logs_value = \<lparr>ld_name = ''system'', ld_level = INFO, ld_formatter = [],
     ld_appenders = [\<lparr>ad_type = 1, ad_level = ERROR, ad_formatter = [], ad_file = ''a.log''\<rparr>]\<rparr>"

lemma logs_text_applied_witness:
  "\<exists>cfg'. var_fromString (demo_log_env demo_logs_doc) ''logs'' (demo_emit (hd demo_logs_doc)) demo_logs_config
       = Inr (True, cfg') \<and> conf_matches (world cfg') demo_logs_value"
proof -
  have cast: "from_string (demo_api demo_logs_doc) (TSet TLogDefine) (demo_emit (hd demo_logs_doc))
      = Inr (VSet [VLog demo_logs_value])" by code_simp
  let ?cv = "\<lparr>cv_name = ''logs'', cv_desp = ''logs config'',
       cv_ty = TSet TLogDefine, cv_val = VSet [], cv_cbs = [(0, 0)]\<rparr> :: int config_var"
  have root: "root_ok (env_at 1 True) (world demo_logs_config)"
    using root_ok_demo by (simp add: demo_logs_config_def)
  have wf: "map_of (datas demo_logs_config) ''logs'' = Some ?cv" "mwf (datas demo_logs_config)"
    by (simp_all add: demo_logs_config_def)
  have "\<exists>cfg' cv' new. var_fromString (demo_log_env demo_logs_doc) ''logs'' (demo_emit (hd demo_logs_doc)) demo_logs_config
       = Inr (True, cfg')
     \<and> VSet [VLog demo_logs_value] = (VSet (map VLog new) :: int cval) \<and> distinct (map ld_name new)
     \<and> map_of (datas cfg') ''logs'' = Some cv' \<and> cv_val cv' = VSet [VLog demo_logs_value]
     \<and> root_ok (env_at 1 True) (world cfg')
     \<and> (\<forall>v \<in> set (takeWhile (\<lambda>v. \<not> unchanged [] v) new). conf_matches (world cfg') v)"
    by (rule logs_text_applied [OF wf(1) _ _ _ _ wf(2) root cast]) simp_all
  then obtain cfg' new where run: "var_fromString (demo_log_env demo_logs_doc) ''logs'' (demo_emit (hd demo_logs_doc)) demo_logs_config
       = Inr (True, cfg')" and new: "VSet [VLog demo_logs_value] = (VSet (map VLog new) :: int cval)"
    and match: "\<forall>v \<in> set (takeWhile (\<lambda>v. \<not> unchanged [] v) new). conf_matches (world cfg') v"
    by (elim exE conjE) (rule that)
  from new have "new = [demo_logs_value]" by (cases new) auto
  with match run show ?thesis by (auto simp: unchanged_def find_define_def)
qed

end
