(* ===== verification/LogText.thy ===== *)
theory LogText
  imports LogConfProps
begin

section \<open>From a configuration text to what is printed\<close>

text \<open>
  The whole way through logging: the text of the variable \<open>logs\<close> is read, the listener configures the
  loggers, a log statement finds its logger by name, and the appenders print the formatted record.
\<close>

text \<open>
  The text that an event of a level gets by the definition of its logger: each appender's line, if the
  appender's level (\<open>DEBUG\<close> unless given) lets it pass, by the appender's pattern or else the logger's.
\<close>

definition pattern_of :: "log_define \<Rightarrow> log_appender_define \<Rightarrow> log_formatter" where
  "pattern_of v ad = the_formatter (if ad_formatter ad \<noteq> [] then ad_formatter ad else ld_formatter v)"

definition line_of :: "env \<Rightarrow> log_define \<Rightarrow> level \<Rightarrow> log_event \<Rightarrow> log_appender_define \<Rightarrow> string" where
  "line_of env v level ev ad =
     (if (if ad_level ad \<noteq> UNKNOW then ad_level ad else DEBUG) \<le> level
      then concat (map (item_text (lc env) (ld_name v) level ev) (f_items (pattern_of v ad))) else [])"

definition define_text :: "env \<Rightarrow> log_define \<Rightarrow> level \<Rightarrow> log_event \<Rightarrow> string" where
  "define_text env v level ev =
     (if ld_level v \<le> level then concat (map (line_of env v level ev) (ld_appenders v)) else [])"

definition dates_fit_define :: "env \<Rightarrow> log_define \<Rightarrow> log_event \<Rightarrow> bool" where
  "dates_fit_define env v ev \<longleftrightarrow>
     (\<forall>ad \<in> set (ld_appenders v). dates_fit (lc env) ev (f_items (pattern_of v ad)))"

lemma built_console:
  assumes "ad_type ad = 2" and "lf = Some (the_formatter (ld_formatter v))" and "same_config (built lf ad) ap"
  shows "a_file ap = None" "a_formatter ap = Some (pattern_of v ad)"
    "a_level ap = (if ad_level ad \<noteq> UNKNOW then ad_level ad else DEBUG)"
  using assms by (auto simp: built_def with_pattern_def with_level_def blank_appender_def same_config_def
      pattern_of_def new_stdout_appender_def split: if_splits)

lemma conf_prints:
  assumes "wf_sys st" and "conf_matches st v" and pat: "ld_formatter v \<noteq> []" "ld_appenders v \<noteq> []"
    and con: "\<forall>ad \<in> set (ld_appenders v). ad_type ad = 2"
    and fit: "\<And>l. dates_fit_define env v (event_append msg (macro_event env c l level))"
  shows "\<exists>l. getLogger (ld_name v) st = Inr (l, st) \<and> YECC_LOG_LEVEL env c l level msg st =
    Some (Inr (print (define_text env v level (event_append msg (macro_event env c l level))) st))"
proof -
  from assms(2) pat(1) obtain l lg where l: "map_of (m_loggers st) (ld_name v) = Some l" and lg: "loggers st l = Some lg"
    "l_level lg = ld_level v" "l_formatter lg = Some (the_formatter (ld_formatter v))"
    and apps: "list_all2 (\<lambda>ad a. \<exists>ap. appenders st a = Some ap \<and> same_config (built (l_formatter lg) ad) ap)
      (ld_appenders v) (l_appenders lg)" by (auto simp: conf_matches_def)
  let ?ev = "event_append msg (macro_event env c l level)"
  from assms(1) l lg(1) have "\<exists>lg'. loggers st l = Some lg' \<and> l_name lg' = ld_name v"
    unfolding wf_sys_def by blast
  with lg(1) have name: "l_name lg = ld_name v" by simp
  have ev: "e_logger ?ev = l" "e_level ?ev = level" by (simp_all add: event_append_def macro_event_def mk_event_def)
  then have ln: "event_lname ?ev st = Some (ld_name v)" using lg(1) name by (simp add: event_lname_def)
  have each: "list_all2 (\<lambda>ad a. console_appender st a \<and> fits env ?ev st a \<and>
      console_text env level ?ev st a = line_of env v level ?ev ad) (ld_appenders v) (l_appenders lg)"
    using apps
  proof (rule list.rel_mono_strong)
    fix ad a
    assume in_v: "ad \<in> set (ld_appenders v)"
      and "\<exists>ap. appenders st a = Some ap \<and> same_config (built (l_formatter lg) ad) ap"
    then obtain ap where ap: "appenders st a = Some ap" "same_config (built (l_formatter lg) ad) ap" by blast
    from in_v con have "ad_type ad = 2" by blast
    from built_console [OF this lg(3) ap(2)] ap(1) in_v fit [of l] ln
    show "console_appender st a \<and> fits env ?ev st a \<and> console_text env level ?ev st a = line_of env v level ?ev ad"
      by (auto simp: console_appender_def fits_def console_text_def line_of_def dates_fit_define_def)
  qed
  then have set: "\<forall>a \<in> set (l_appenders lg). console_appender st a \<and> fits env ?ev st a"
    by (auto simp: list_all2_conv_all_nth in_set_conv_nth)
  from each have texts: "map (console_text env level ?ev st) (l_appenders lg) = map (line_of env v level ?ev) (ld_appenders v)"
    by (intro nth_equalityI) (auto simp: list_all2_conv_all_nth)
  from each pat(2) have "l_appenders lg \<noteq> []" by (auto simp: list_all2_conv_all_nth)
  from logger_prints [OF lg(1) this set ln, of level] texts lg(1,2) ev
  have "YECC_LOG_LEVEL env c l level msg st = Some (Inr (print (define_text env v level ?ev) st))"
    by (auto simp: YECC_LOG_LEVEL_def wrap_destroy_def define_text_def print_def)
  with l show ?thesis by (auto simp: getLogger_def)
qed

text \<open>
  C4: from a text to what is printed. When the variable \<open>logs\<close>, with the listener of \<open>LogIniter\<close>
  on it, is given a text that can be cast to definitions, the variable takes them and every definition before the
  first unchanged one is applied. If such a definition has a pattern and console appenders, a log statement
  that asks the manager for the logger of its name then prints just what the definition says: nothing below
  the logger's level, otherwise the line of each appender whose level lets the event pass, in order.
\<close>

theorem logs_text_prints:
  assumes "map_of (datas cfg) ''logs'' = Some cv" and "cv_ty cv = TSet TLogDefine"
    and "cv_cbs cv = [(k, 0)]" and "cv_val cv = VSet (map VLog old)" and "distinct (map ld_name old)"
    and "mwf (datas cfg)" and "root_ok env (world cfg)"
    and "from_string api (TSet TLogDefine) s = Inr (VSet (map VLog new))"
    and "v \<in> set (takeWhile (\<lambda>v. \<not> unchanged old v) new)"
    and "ld_formatter v \<noteq> []" "ld_appenders v \<noteq> []" "\<forall>ad \<in> set (ld_appenders v). ad_type ad = 2"
    and "\<And>l. dates_fit_define env v (event_append msg (macro_event env c l level))"
  shows "\<exists>cfg' l. var_fromString (log_cfg_env api tn env c0) ''logs'' s cfg = Inr (True, cfg') \<and>
    conf_matches (world cfg') v \<and> getLogger (ld_name v) (world cfg') = Inr (l, world cfg') \<and>
    YECC_LOG_LEVEL env c l level msg (world cfg') =
      Some (Inr (print (define_text env v level (event_append msg (macro_event env c l level))) (world cfg')))"
proof -
  from logs_text_applied [OF assms(1-8), of tn c0] obtain cfg' new' where
    run: "var_fromString (log_cfg_env api tn env c0) ''logs'' s cfg = Inr (True, cfg')"
    and new: "VSet (map VLog new) = (VSet (map VLog new') :: 'a cval)" and root: "root_ok env (world cfg')"
    and match: "\<forall>v \<in> set (takeWhile (\<lambda>v. \<not> unchanged old v) new'). conf_matches (world cfg') v" by blast
  from new have "new' = new" by (metis cval.inject(3) cval.inject(8) inj_map_eq_map injI)
  with match assms(9) have m: "conf_matches (world cfg') v" by blast
  from root have "wf_sys (world cfg')" by (simp add: root_ok_def)
  from conf_prints [OF this m assms(10-13)] run m show ?thesis by blast
qed

subsection \<open>A concrete text\<close>

definition demo_console_doc :: "ynode list" where
  "demo_console_doc =
    (let e = YMap [(YScalar ''type'', YScalar ''StdoutLogAppender''), (YScalar ''level'', YScalar ''warn'')];
         a = YSeq [e];
         l = YMap [(YScalar ''name'', YScalar ''system''), (YScalar ''level'', YScalar ''info''),
           (YScalar ''formatter'', YScalar ''[%p] %m''), (YScalar ''appender'', a)]
     in [YSeq [l], l, a, e])"

definition demo_console_define :: log_define where
  "demo_console_define = \<lparr>ld_name = ''system'', ld_level = INFO, ld_formatter = ''[%p] %m'',
     ld_appenders = [\<lparr>ad_type = 2, ad_level = WARN, ad_formatter = [], ad_file = []\<rparr>]\<rparr>"

lemma demo_console_text:
  "the_formatter ''[%p] %m'' = \<lparr>f_pattern = ''[%p] %m'', f_items = [StringFormatItem ''['', LevelFormatItem,
     StringFormatItem ''] '', MessageFormatItem], f_isError = False\<rparr>"
  by code_simp

lemma logs_text_prints_witness:
  "\<exists>cfg' l. var_fromString (demo_log_env demo_console_doc) ''logs'' (demo_emit (hd demo_console_doc)) demo_logs_config
       = Inr (True, cfg') \<and> getLogger ''system'' (world cfg') = Inr (l, world cfg') \<and>
     YECC_LOG_LEVEL (env_at 1 True) demo_site l ERROR ''disk'' (world cfg')
       = Some (Inr (print ''[ERROR] disk'' (world cfg')))"
proof -
  have cast: "from_string (demo_api demo_console_doc) (TSet TLogDefine) (demo_emit (hd demo_console_doc))
      = Inr (VSet (map VLog [demo_console_define]))" by code_simp
  let ?cv = "\<lparr>cv_name = ''logs'', cv_desp = ''logs config'',
       cv_ty = TSet TLogDefine, cv_val = VSet [], cv_cbs = [(0, 0)]\<rparr> :: int config_var"
  have root: "root_ok (env_at 1 True) (world demo_logs_config)"
    using root_ok_demo by (simp add: demo_logs_config_def)
  have wf: "map_of (datas demo_logs_config) ''logs'' = Some ?cv" "mwf (datas demo_logs_config)"
    by (simp_all add: demo_logs_config_def)
  let ?ev = "\<lambda>l. event_append ''disk'' (macro_event (env_at 1 True) demo_site l ERROR)"
  have levels: "INFO \<le> ERROR" "WARN \<le> ERROR" by code_simp+
  have line: "define_text (env_at 1 True) demo_console_define ERROR (?ev l) = ''[ERROR] disk''" for l
    by (simp add: define_text_def line_of_def demo_console_define_def pattern_of_def demo_console_text
        event_append_def macro_event_def mk_event_def levels)
  have fit: "dates_fit_define (env_at 1 True) demo_console_define (?ev l)" for l
    by (simp add: dates_fit_define_def dates_fit_def demo_console_define_def pattern_of_def demo_console_text)
  have "\<exists>cfg' l. var_fromString (demo_log_env demo_console_doc) ''logs'' (demo_emit (hd demo_console_doc)) demo_logs_config
       = Inr (True, cfg') \<and> conf_matches (world cfg') demo_console_define \<and>
      getLogger (ld_name demo_console_define) (world cfg') = Inr (l, world cfg') \<and>
      YECC_LOG_LEVEL (env_at 1 True) demo_site l ERROR ''disk'' (world cfg') =
        Some (Inr (print (define_text (env_at 1 True) demo_console_define ERROR (?ev l)) (world cfg')))"
    by (rule logs_text_prints [OF wf(1) _ _ _ _ wf(2) root cast, where old = "[]"])
      (use fit in \<open>simp_all add: unchanged_def find_define_def, simp_all add: demo_console_define_def\<close>)
  then show ?thesis unfolding line by (auto simp: demo_console_define_def)
qed

end
