(* ===== verification/Sync.thy ===== *)
theory Sync
  imports Prelude
begin

section \<open>Mutexes, guards and semaphores\<close>

text \<open>
  \<open>Semaphore\<close>, the guard templates \<open>ScopedMutex\<close>, \<open>ReadScopedMutex\<close> and
  \<open>WriteScopedMutex\<close>, and the mutex classes of \<open>include/thread.hpp\<close> and
  \<open>src/thread.cpp\<close>. The POSIX primitives have their documented behaviour: an operation that
  would wait is \<open>Blocked\<close>, and releasing what the caller does not hold is \<open>Undefined\<close>.
  The contract of a mutex towards its guard is the locale \<open>lockable\<close>; every mutex class is an
  interpretation of it.
\<close>

type_synonym tid = nat

subsection \<open>The mutex classes\<close>

text \<open>\<open>Mutex\<close> and \<open>SpinMutex\<close>: the thread that holds it. Neither is recursive.\<close>

type_synonym mutex = "tid option"

definition new_mutex :: mutex where
  "new_mutex = None"

definition mutex_lock :: "tid \<Rightarrow> mutex \<Rightarrow> mutex result" where
  "mutex_lock t m = (case m of None \<Rightarrow> Inr (Some t) | Some _ \<Rightarrow> Inl (Blocked ''pthread_mutex_lock''))"

definition mutex_unlock :: "tid \<Rightarrow> mutex \<Rightarrow> mutex result" where
  "mutex_unlock t m = (if m = Some t then Inr None else Inl (Undefined ''pthread_mutex_unlock''))"

definition spin_lock :: "tid \<Rightarrow> mutex \<Rightarrow> mutex result" where
  "spin_lock t m = (case m of None \<Rightarrow> Inr (Some t) | Some _ \<Rightarrow> Inl (Blocked ''pthread_spin_lock''))"

definition spin_unlock :: "tid \<Rightarrow> mutex \<Rightarrow> mutex result" where
  "spin_unlock t m = (if m = Some t then Inr None else Inl (Undefined ''pthread_spin_unlock''))"

text \<open>\<open>SpinMutex\<close>'s constructor, and the destructors: destroying a lock that is held is undefined.\<close>

definition new_spin :: mutex where
  "new_spin = None"

definition mutex_destroy :: "mutex \<Rightarrow> unit result" where
  "mutex_destroy m = (case m of None \<Rightarrow> Inr () | Some _ \<Rightarrow> Inl (Undefined ''pthread_mutex_destroy''))"

definition spin_destroy :: "mutex \<Rightarrow> unit result" where
  "spin_destroy m = (case m of None \<Rightarrow> Inr () | Some _ \<Rightarrow> Inl (Undefined ''pthread_spin_destroy''))"

text \<open>\<open>NullMutex\<close> and \<open>NullRWMutex\<close> do nothing.\<close>

definition null_lock :: "tid \<Rightarrow> unit \<Rightarrow> unit result" where
  "null_lock t m = Inr m"

definition null_unlock :: "tid \<Rightarrow> unit \<Rightarrow> unit result" where
  "null_unlock t m = Inr m"

definition null_rdlock :: "tid \<Rightarrow> unit \<Rightarrow> unit result" where
  "null_rdlock t m = Inr m"

definition null_wrlock :: "tid \<Rightarrow> unit \<Rightarrow> unit result" where
  "null_wrlock t m = Inr m"

text \<open>\<open>RWMutex\<close>: how often each thread holds it for reading, and the thread that holds it for writing.\<close>

record rwmutex =
  rw_readers :: "tid \<Rightarrow> nat"
  rw_writer :: "tid option"

definition new_rwmutex :: rwmutex where
  "new_rwmutex = \<lparr>rw_readers = (\<lambda>_. 0), rw_writer = None\<rparr>"

definition rw_rdlock :: "tid \<Rightarrow> rwmutex \<Rightarrow> rwmutex result" where
  "rw_rdlock t m =
     (if rw_writer m \<noteq> None then Inl (Blocked ''pthread_rwlock_rdlock'')
      else Inr (m\<lparr>rw_readers := (rw_readers m)(t := rw_readers m t + 1)\<rparr>))"

definition rw_wrlock :: "tid \<Rightarrow> rwmutex \<Rightarrow> rwmutex result" where
  "rw_wrlock t m =
     (if rw_writer m \<noteq> None \<or> rw_readers m \<noteq> (\<lambda>_. 0) then Inl (Blocked ''pthread_rwlock_wrlock'')
      else Inr (m\<lparr>rw_writer := Some t\<rparr>))"

definition rw_unlock :: "tid \<Rightarrow> rwmutex \<Rightarrow> rwmutex result" where
  "rw_unlock t m =
     (if rw_writer m = Some t then Inr (m\<lparr>rw_writer := None\<rparr>)
      else if rw_readers m t > 0 then Inr (m\<lparr>rw_readers := (rw_readers m)(t := rw_readers m t - 1)\<rparr>)
      else Inl (Undefined ''pthread_rwlock_unlock''))"

definition rw_destroy :: "rwmutex \<Rightarrow> unit result" where
  "rw_destroy m =
     (if rw_writer m = None \<and> rw_readers m = (\<lambda>_. 0) then Inr () else Inl (Undefined ''pthread_rwlock_destroy''))"

subsection \<open>The guards\<close>

text \<open>
  \<open>ScopedMutex\<close>: a guard and its mutex are a pair of \<open>m_locked\<close> and the mutex state, and
  all calls are made by the thread \<open>t\<close> that owns the guard. The operations of the mutex are
  arguments, as the mutex class is an argument of the template.
\<close>

definition guard_ctor :: "(tid \<Rightarrow> 'm \<Rightarrow> 'm result) \<Rightarrow> tid \<Rightarrow> 'm \<Rightarrow> (bool \<times> 'm) result" where
  "guard_ctor acquire t m = rbind (acquire t m) (\<lambda>m. Inr (True, m))"

definition guard_lock :: "(tid \<Rightarrow> 'm \<Rightarrow> 'm result) \<Rightarrow> tid \<Rightarrow> bool \<times> 'm \<Rightarrow> (bool \<times> 'm) result" where
  "guard_lock acquire t g =
     (case g of (m_locked, m) \<Rightarrow>
        if \<not> m_locked then rbind (acquire t m) (\<lambda>m. Inr (True, m)) else Inr (m_locked, m))"

definition guard_unlock :: "(tid \<Rightarrow> 'm \<Rightarrow> 'm result) \<Rightarrow> tid \<Rightarrow> bool \<times> 'm \<Rightarrow> (bool \<times> 'm) result" where
  "guard_unlock release t g =
     (case g of (m_locked, m) \<Rightarrow>
        if m_locked then rbind (release t m) (\<lambda>m. Inr (False, m)) else Inr (m_locked, m))"

definition guard_dtor :: "(tid \<Rightarrow> 'm \<Rightarrow> 'm result) \<Rightarrow> tid \<Rightarrow> bool \<times> 'm \<Rightarrow> 'm result" where
  "guard_dtor release t g = rbind (guard_unlock release t g) (\<lambda>(_, m). Inr m)"

text \<open>
  \<open>ReadScopedMutex\<close> and \<open>WriteScopedMutex\<close> are the same code over \<open>rdlock\<close> and
  \<open>wrlock\<close>.
\<close>

definition ReadScopedMutex_ctor :: "(tid \<Rightarrow> 'm \<Rightarrow> 'm result) \<Rightarrow> tid \<Rightarrow> 'm \<Rightarrow> (bool \<times> 'm) result" where
  "ReadScopedMutex_ctor rdlock = guard_ctor rdlock"

definition ReadScopedMutex_lock :: "(tid \<Rightarrow> 'm \<Rightarrow> 'm result) \<Rightarrow> tid \<Rightarrow> bool \<times> 'm \<Rightarrow> (bool \<times> 'm) result" where
  "ReadScopedMutex_lock rdlock = guard_lock rdlock"

definition ReadScopedMutex_unlock :: "(tid \<Rightarrow> 'm \<Rightarrow> 'm result) \<Rightarrow> tid \<Rightarrow> bool \<times> 'm \<Rightarrow> (bool \<times> 'm) result" where
  "ReadScopedMutex_unlock unlock = guard_unlock unlock"

definition ReadScopedMutex_dtor :: "(tid \<Rightarrow> 'm \<Rightarrow> 'm result) \<Rightarrow> tid \<Rightarrow> bool \<times> 'm \<Rightarrow> 'm result" where
  "ReadScopedMutex_dtor unlock = guard_dtor unlock"

definition WriteScopedMutex_ctor :: "(tid \<Rightarrow> 'm \<Rightarrow> 'm result) \<Rightarrow> tid \<Rightarrow> 'm \<Rightarrow> (bool \<times> 'm) result" where
  "WriteScopedMutex_ctor wrlock = guard_ctor wrlock"

definition WriteScopedMutex_lock :: "(tid \<Rightarrow> 'm \<Rightarrow> 'm result) \<Rightarrow> tid \<Rightarrow> bool \<times> 'm \<Rightarrow> (bool \<times> 'm) result" where
  "WriteScopedMutex_lock wrlock = guard_lock wrlock"

definition WriteScopedMutex_unlock :: "(tid \<Rightarrow> 'm \<Rightarrow> 'm result) \<Rightarrow> tid \<Rightarrow> bool \<times> 'm \<Rightarrow> (bool \<times> 'm) result" where
  "WriteScopedMutex_unlock unlock = guard_unlock unlock"

definition WriteScopedMutex_dtor :: "(tid \<Rightarrow> 'm \<Rightarrow> 'm result) \<Rightarrow> tid \<Rightarrow> bool \<times> 'm \<Rightarrow> 'm result" where
  "WriteScopedMutex_dtor unlock = guard_dtor unlock"

lemmas rw_guard_simps =
  ReadScopedMutex_ctor_def ReadScopedMutex_lock_def ReadScopedMutex_unlock_def ReadScopedMutex_dtor_def
  WriteScopedMutex_ctor_def WriteScopedMutex_lock_def WriteScopedMutex_unlock_def WriteScopedMutex_dtor_def

text \<open>What the code inside the guard's scope does with the guard, and the whole scope.\<close>

datatype guard_op = CallLock | CallUnlock

definition guard_call ::
  "(tid \<Rightarrow> 'm \<Rightarrow> 'm result) \<Rightarrow> (tid \<Rightarrow> 'm \<Rightarrow> 'm result) \<Rightarrow> tid \<Rightarrow> guard_op \<Rightarrow> bool \<times> 'm \<Rightarrow> (bool \<times> 'm) result" where
  "guard_call acquire release t call g =
     (case call of CallLock \<Rightarrow> guard_lock acquire t g | CallUnlock \<Rightarrow> guard_unlock release t g)"

definition guard_scope ::
  "(tid \<Rightarrow> 'm \<Rightarrow> 'm result) \<Rightarrow> (tid \<Rightarrow> 'm \<Rightarrow> 'm result) \<Rightarrow> tid \<Rightarrow> guard_op list \<Rightarrow> 'm \<Rightarrow> 'm result" where
  "guard_scope acquire release t calls m =
     rbind (guard_ctor acquire t m) (\<lambda>g.
     rbind (rfold (guard_call acquire release t) calls g) (guard_dtor release t))"

subsection \<open>The contract between a mutex and its guard\<close>

locale lockable =
  fixes acquire :: "tid \<Rightarrow> 'm \<Rightarrow> 'm result" and release :: "tid \<Rightarrow> 'm \<Rightarrow> 'm result"
  assumes release_acquire: "acquire t m = Inr m' \<Longrightarrow> release t m' = Inr m"
begin

text \<open>The guard's flag tells whether the mutex is in the acquired or in the original state.\<close>

lemma guard_call_invariant:
  assumes "acquire t m = Inr m'" and "g = (True, m') \<or> g = (False, m)"
  shows "\<exists>g'. guard_call acquire release t call g = Inr g' \<and> (g' = (True, m') \<or> g' = (False, m))"
  using assms release_acquire [OF assms(1)]
  by (cases call) (auto simp: guard_call_def guard_lock_def guard_unlock_def)

lemma guard_calls_invariant:
  assumes "acquire t m = Inr m'" and "g = (True, m') \<or> g = (False, m)"
  shows "\<exists>g'. rfold (guard_call acquire release t) calls g = Inr g' \<and> (g' = (True, m') \<or> g' = (False, m))"
  using assms(2)
proof (rule rfold_invariant)
  fix call u
  assume "u = (True, m') \<or> u = (False, m)"
  then show "\<exists>v. guard_call acquire release t call u = Inr v \<and> (v = (True, m') \<or> v = (False, m))"
    using guard_call_invariant [OF assms(1)] by blast
qed

lemma guard_dtor_restores:
  assumes "acquire t m = Inr m'" and "g = (True, m') \<or> g = (False, m)"
  shows "guard_dtor release t g = Inr m"
  using assms release_acquire [OF assms(1)] by (auto simp: guard_dtor_def guard_unlock_def)

lemma guard_scope_restores:
  assumes "acquire t m = Inr m'"
  shows "guard_scope acquire release t calls m = Inr m"
proof -
  obtain g where "rfold (guard_call acquire release t) calls (True, m') = Inr g"
    and "g = (True, m') \<or> g = (False, m)"
    using guard_calls_invariant [OF assms] by blast
  with assms guard_dtor_restores [OF assms] show ?thesis
    by (simp add: guard_scope_def guard_ctor_def)
qed

lemma guard_scope_blocks: "acquire t m = Inl e \<Longrightarrow> guard_scope acquire release t calls m = Inl e"
  by (simp add: guard_scope_def guard_ctor_def)

end

interpretation mutex: lockable mutex_lock mutex_unlock
  by unfold_locales (auto simp: mutex_lock_def mutex_unlock_def split: option.splits)

interpretation spin: lockable spin_lock spin_unlock
  by unfold_locales (auto simp: spin_lock_def spin_unlock_def split: option.splits)

interpretation null: lockable null_lock null_unlock
  by unfold_locales (auto simp: null_lock_def null_unlock_def)

interpretation null_rd: lockable null_rdlock null_unlock
  by unfold_locales (auto simp: null_rdlock_def null_unlock_def)

interpretation null_wr: lockable null_wrlock null_unlock
  by unfold_locales (auto simp: null_wrlock_def null_unlock_def)

interpretation rd: lockable rw_rdlock rw_unlock
  by unfold_locales (auto simp: rw_rdlock_def rw_unlock_def split: if_splits)

interpretation wr: lockable rw_wrlock rw_unlock
  by unfold_locales (auto simp: rw_wrlock_def rw_unlock_def split: if_splits)

text \<open>A scope waits where the constructor waits, and otherwise restores the mutex.\<close>

definition scope_balanced ::
  "(tid \<Rightarrow> 'm \<Rightarrow> 'm result) \<Rightarrow> (tid \<Rightarrow> 'm \<Rightarrow> 'm result) \<Rightarrow> tid \<Rightarrow> guard_op list \<Rightarrow> 'm \<Rightarrow> bool" where
  "scope_balanced acquire release t calls m \<longleftrightarrow>
     guard_scope acquire release t calls m = (case acquire t m of Inl e \<Rightarrow> Inl e | Inr _ \<Rightarrow> Inr m)"

context lockable
begin

lemma scope_is_balanced: "scope_balanced acquire release t calls m"
  by (auto simp: scope_balanced_def guard_scope_restores guard_scope_blocks split: sum.split)

end

text \<open>
  C28: a guard is balanced. For every mutex class, a scope with a guard either waits where the
  constructor waits, or leaves the mutex exactly as it found it, however often the code inside locks
  and unlocks through the guard, and also when it leaves the scope with the guard unlocked.
\<close>

theorem guards_balanced:
  "scope_balanced mutex_lock mutex_unlock t calls mx \<and> scope_balanced spin_lock spin_unlock t calls mx \<and>
   scope_balanced null_lock null_unlock t calls u \<and>
   scope_balanced rw_rdlock rw_unlock t calls rw \<and> scope_balanced rw_wrlock rw_unlock t calls rw \<and>
   scope_balanced null_rdlock null_unlock t calls u \<and> scope_balanced null_wrlock null_unlock t calls u"
  by (intro conjI mutex.scope_is_balanced spin.scope_is_balanced null.scope_is_balanced rd.scope_is_balanced
      wr.scope_is_balanced null_rd.scope_is_balanced null_wr.scope_is_balanced)

subsection \<open>Threads with guards on a read-write mutex\<close>

text \<open>
  Every thread has at most one guard on the mutex: \<open>Some (w, l)\<close> is a write guard when \<open>w\<close>
  and is locked when \<open>l\<close>. A call that would wait is not a step.
\<close>

record rw_system =
  sys_mutex :: rwmutex
  sys_guard :: "tid \<Rightarrow> (bool \<times> bool) option"

definition RWLock_ctor :: "bool \<Rightarrow> tid \<Rightarrow> rwmutex \<Rightarrow> (bool \<times> rwmutex) result" where
  "RWLock_ctor w = (if w then WriteScopedMutex_ctor rw_wrlock else ReadScopedMutex_ctor rw_rdlock)"

definition RWLock_call :: "bool \<Rightarrow> tid \<Rightarrow> guard_op \<Rightarrow> bool \<times> rwmutex \<Rightarrow> (bool \<times> rwmutex) result" where
  "RWLock_call w t call =
     (case call of
        CallLock \<Rightarrow> (if w then WriteScopedMutex_lock rw_wrlock t else ReadScopedMutex_lock rw_rdlock t)
      | CallUnlock \<Rightarrow> (if w then WriteScopedMutex_unlock rw_unlock t else ReadScopedMutex_unlock rw_unlock t))"

definition RWLock_dtor :: "bool \<Rightarrow> tid \<Rightarrow> bool \<times> rwmutex \<Rightarrow> rwmutex result" where
  "RWLock_dtor w = (if w then WriteScopedMutex_dtor rw_unlock else ReadScopedMutex_dtor rw_unlock)"

inductive rw_step :: "rw_system \<Rightarrow> rw_system \<Rightarrow> bool" where
  enter_scope: "sys_guard s t = None \<Longrightarrow> RWLock_ctor w t (sys_mutex s) = Inr (l, m)
     \<Longrightarrow> rw_step s (s\<lparr>sys_mutex := m, sys_guard := (sys_guard s)(t \<mapsto> (w, l))\<rparr>)"
| call_guard: "sys_guard s t = Some (w, l) \<Longrightarrow> RWLock_call w t call (l, sys_mutex s) = Inr (l', m)
     \<Longrightarrow> rw_step s (s\<lparr>sys_mutex := m, sys_guard := (sys_guard s)(t \<mapsto> (w, l'))\<rparr>)"
| leave_scope: "sys_guard s t = Some (w, l) \<Longrightarrow> RWLock_dtor w t (l, sys_mutex s) = Inr m
     \<Longrightarrow> rw_step s (s\<lparr>sys_mutex := m, sys_guard := (sys_guard s)(t := None)\<rparr>)"

text \<open>The two kinds of guard as one guard over the operation that acquires the mutex.\<close>

definition rw_acquire :: "bool \<Rightarrow> tid \<Rightarrow> rwmutex \<Rightarrow> rwmutex result" where
  "rw_acquire w = (if w then rw_wrlock else rw_rdlock)"

lemma RWLock_guard:
  "RWLock_ctor w = guard_ctor (rw_acquire w)" "RWLock_dtor w = guard_dtor rw_unlock"
  "RWLock_call w t call = guard_call (rw_acquire w) rw_unlock t call"
  by (auto simp: RWLock_ctor_def RWLock_dtor_def RWLock_call_def rw_guard_simps rw_acquire_def
      guard_call_def fun_eq_iff split: guard_op.split)

inductive rw_reach :: "rw_system \<Rightarrow> bool" where
  rw_start: "rw_reach \<lparr>sys_mutex = new_rwmutex, sys_guard = (\<lambda>_. None)\<rparr>"
| rw_next: "rw_reach s \<Longrightarrow> rw_step s s' \<Longrightarrow> rw_reach s'"

text \<open>The mutex is held exactly as the locked guards say.\<close>

definition rw_inv :: "rw_system \<Rightarrow> bool" where
  "rw_inv s \<longleftrightarrow>
     (\<forall>t. rw_writer (sys_mutex s) = Some t \<longleftrightarrow> sys_guard s t = Some (True, True)) \<and>
     (\<forall>t. rw_readers (sys_mutex s) t = (if sys_guard s t = Some (False, True) then 1 else 0)) \<and>
     (rw_writer (sys_mutex s) \<noteq> None \<longrightarrow> rw_readers (sys_mutex s) = (\<lambda>_. 0))"

lemma rw_inv_acquire:
  assumes "rw_inv s" and "sys_guard s t = None \<or> sys_guard s t = Some (w, False)"
    and "rw_acquire w t (sys_mutex s) = Inr m"
  shows "rw_inv (s\<lparr>sys_mutex := m, sys_guard := (sys_guard s)(t \<mapsto> (w, True))\<rparr>)"
proof (cases w)
  case True
  with assms(3) have m: "m = (sys_mutex s)\<lparr>rw_writer := Some t\<rparr>" and free: "rw_writer (sys_mutex s) = None"
    and zero: "rw_readers (sys_mutex s) = (\<lambda>_. 0)"
    by (auto simp: rw_acquire_def rw_wrlock_def split: if_splits)
  from assms(1) free have nw: "sys_guard s u \<noteq> Some (True, True)" for u
    by (auto simp: rw_inv_def)
  from assms(1) zero have nr: "sys_guard s u \<noteq> Some (False, True)" for u
    by (auto simp: rw_inv_def split: if_splits)
  show ?thesis using m nw nr zero True by (auto simp: rw_inv_def)
next
  case False
  with assms(3) have m: "m = (sys_mutex s)\<lparr>rw_readers := (rw_readers (sys_mutex s))(t := rw_readers (sys_mutex s) t + 1)\<rparr>"
    and free: "rw_writer (sys_mutex s) = None"
    by (auto simp: rw_acquire_def rw_rdlock_def split: if_splits)
  with assms(1,2) False show ?thesis by (auto simp: rw_inv_def)
qed

lemma rw_inv_release:
  assumes "rw_inv s" and "sys_guard s t = Some (w, True)"
  shows "\<exists>m. rw_unlock t (sys_mutex s) = Inr m
     \<and> rw_inv (s\<lparr>sys_mutex := m, sys_guard := (sys_guard s)(t := None)\<rparr>)
     \<and> rw_inv (s\<lparr>sys_mutex := m, sys_guard := (sys_guard s)(t \<mapsto> (w, False))\<rparr>)"
proof (cases w)
  case True
  with assms have "rw_writer (sys_mutex s) = Some t" by (simp add: rw_inv_def)
  then have "rw_unlock t (sys_mutex s) = Inr ((sys_mutex s)\<lparr>rw_writer := None\<rparr>)"
    and zero: "rw_readers (sys_mutex s) = (\<lambda>_. 0)"
    using assms(1) by (simp_all add: rw_unlock_def rw_inv_def)
  moreover have "sys_guard s u \<noteq> Some (False, True)" for u
    using assms(1) zero by (auto simp: rw_inv_def split: if_splits)
  moreover have "u = t" if "sys_guard s u = Some (True, True)" for u
    using assms(1) that \<open>rw_writer (sys_mutex s) = Some t\<close> by (auto simp: rw_inv_def)
  ultimately show ?thesis using True by (auto simp: rw_inv_def)
next
  case False
  with assms have r: "rw_readers (sys_mutex s) t = 1" by (simp add: rw_inv_def)
  with assms(1) have free: "rw_writer (sys_mutex s) = None" by (auto simp: rw_inv_def)
  with r have "rw_unlock t (sys_mutex s) =
      Inr ((sys_mutex s)\<lparr>rw_readers := (rw_readers (sys_mutex s))(t := 0)\<rparr>)"
    by (simp add: rw_unlock_def)
  with assms False free show ?thesis by (auto simp: rw_inv_def)
qed

lemma rw_inv_unlocked:
  "rw_inv s \<Longrightarrow> sys_guard s t = Some (w, False) \<Longrightarrow> rw_inv (s\<lparr>sys_guard := (sys_guard s)(t := None)\<rparr>)"
  by (auto simp: rw_inv_def)

lemma rw_step_inv:
  assumes "rw_step s s'" and "rw_inv s"
  shows "rw_inv s'"
  using assms
proof (induction rule: rw_step.induct [unfolded RWLock_guard, consumes 1, case_names enter_scope call_guard leave_scope])
  case (enter_scope s t w l m)
  then have "rw_acquire w t (sys_mutex s) = Inr m" and "l = True"
    by (auto simp: guard_ctor_def result_simps)
  with enter_scope rw_inv_acquire show ?case by blast
next
  case (call_guard s t w l call l' m)
  show ?case
  proof (cases "call = CallLock \<longleftrightarrow> l")
    case True
    then have "l' = l \<and> m = sys_mutex s"
      using call_guard(2) by (cases call; cases l) (auto simp: guard_call_def guard_lock_def guard_unlock_def)
    with call_guard(1,3) show ?thesis by (simp add: fun_upd_idem)
  next
    case False
    then consider "call = CallLock" "\<not> l" | "call = CallUnlock" "l" by (cases call) auto
    then show ?thesis
    proof cases
      case 1
      with call_guard(2) have "rw_acquire w t (sys_mutex s) = Inr m" and "l' = True"
        by (auto simp: guard_call_def guard_lock_def result_simps)
      with 1 call_guard(1,3) rw_inv_acquire [of s t w m] show ?thesis by simp
    next
      case 2
      with call_guard(2) have "rw_unlock t (sys_mutex s) = Inr m" and "l' = False"
        by (auto simp: guard_call_def guard_unlock_def result_simps)
      with 2 call_guard(1,3) rw_inv_release show ?thesis by fastforce
    qed
  qed
next
  case (leave_scope s t w l m)
  show ?case
  proof (cases l)
    case True
    with leave_scope(2) have "rw_unlock t (sys_mutex s) = Inr m"
      by (auto simp: guard_dtor_def guard_unlock_def result_simps)
    with True leave_scope(1,3) rw_inv_release show ?thesis by fastforce
  next
    case False
    with leave_scope(2) have "m = sys_mutex s" by (simp add: guard_dtor_def guard_unlock_def)
    with False leave_scope(1,3) rw_inv_unlocked show ?thesis by simp
  qed
qed

lemma rw_reach_inv: "rw_reach s \<Longrightarrow> rw_inv s"
proof (induction rule: rw_reach.induct)
  case rw_start
  then show ?case by (simp add: rw_inv_def new_rwmutex_def)
qed (rule rw_step_inv)

text \<open>
  C11: readers or one writer. In every interleaving of scopes with read and write guards, a locked
  write guard is the only locked guard; a guard's destructor never waits and never releases what its
  thread does not hold; and when no guard is left the mutex is free.
\<close>

theorem guards_exclude:
  assumes "rw_reach s"
  shows "(\<forall>t u w. sys_guard s t = Some (True, True) \<and> sys_guard s u = Some (w, True) \<longrightarrow> u = t) \<and>
    (\<forall>t w l. sys_guard s t = Some (w, l) \<longrightarrow> (\<exists>m. RWLock_dtor w t (l, sys_mutex s) = Inr m)) \<and>
    ((\<forall>t. sys_guard s t = None) \<longrightarrow> sys_mutex s = new_rwmutex)"
proof (intro conjI allI impI)
  note inv = rw_reach_inv [OF assms]
  fix t u w assume *: "sys_guard s t = Some (True, True) \<and> sys_guard s u = Some (w, True)"
  with inv have writer: "rw_writer (sys_mutex s) = Some t" by (simp add: rw_inv_def)
  with inv have "rw_readers (sys_mutex s) u = 0" by (simp add: rw_inv_def)
  moreover have "rw_readers (sys_mutex s) u = (if sys_guard s u = Some (False, True) then 1 else 0)"
    using inv by (simp only: rw_inv_def)
  ultimately have w using * by (cases w) auto
  with * inv have "rw_writer (sys_mutex s) = Some u" by (simp add: rw_inv_def)
  with writer show "u = t" by simp
next
  note inv = rw_reach_inv [OF assms]
  fix t w l assume "sys_guard s t = Some (w, l)"
  with rw_inv_release [OF inv] show "\<exists>m. RWLock_dtor w t (l, sys_mutex s) = Inr m"
    by (cases l) (force simp: RWLock_guard guard_dtor_def guard_unlock_def)+
next
  note inv = rw_reach_inv [OF assms]
  assume "\<forall>t. sys_guard s t = None"
  with inv have "rw_writer (sys_mutex s) = None" and "rw_readers (sys_mutex s) = (\<lambda>_. 0)"
    by (auto simp: rw_inv_def fun_eq_iff)
  then show "sys_mutex s = new_rwmutex" by (simp add: new_rwmutex_def)
qed

text \<open>Two readers at the same time, and what follows for a third thread's write guard.\<close>

lemma guards_exclude_witness:
  "\<exists>s. rw_reach s \<and> sys_guard s 1 = Some (False, True) \<and> sys_guard s 2 = Some (False, True) \<and>
     (\<forall>t. sys_guard s t \<noteq> Some (True, True))"
proof -
  let ?s0 = "\<lparr>sys_mutex = new_rwmutex, sys_guard = (\<lambda>_. None)\<rparr>"
  let ?m1 = "new_rwmutex\<lparr>rw_readers := (\<lambda>_. 0)(1 := 1)\<rparr>"
  let ?s1 = "?s0\<lparr>sys_mutex := ?m1, sys_guard := (\<lambda>_. None)(1 \<mapsto> (False, True))\<rparr>"
  let ?m2 = "?m1\<lparr>rw_readers := (\<lambda>_. 0)(1 := 1, 2 := 1)\<rparr>"
  let ?s2 = "?s1\<lparr>sys_mutex := ?m2, sys_guard := (\<lambda>_. None)(1 \<mapsto> (False, True), 2 \<mapsto> (False, True))\<rparr>"
  have "rw_step ?s0 ?s1"
    using rw_step.enter_scope [of ?s0 1 False True ?m1]
    by (simp add: RWLock_guard guard_ctor_def rw_acquire_def rw_rdlock_def new_rwmutex_def)
  moreover have "rw_step ?s1 ?s2"
    using rw_step.enter_scope [of ?s1 2 False True ?m2]
    by (simp add: RWLock_guard guard_ctor_def rw_acquire_def rw_rdlock_def new_rwmutex_def)
  ultimately have reach: "rw_reach ?s2" using rw_start rw_next by blast
  from guards_exclude [OF reach] have "sys_guard ?s2 t \<noteq> Some (True, True)" for t
    by (auto split: if_splits)
  with reach show ?thesis by (intro exI [of _ ?s2]) simp
qed

subsection \<open>Semaphores\<close>

text \<open>
  \<open>SEM_VALUE_MAX\<close> is the platform's; \<open>interrupted\<close> says whether a signal handler
  interrupts \<open>sem_wait\<close>.
\<close>

definition Semaphore_ctor :: "nat \<Rightarrow> u32 \<Rightarrow> nat result" where
  "Semaphore_ctor sem_value_max count =
     (if sem_value_max < unat count then Inl (StdException ''sem_init error'') else Inr (unat count))"

definition Semaphore_wait :: "bool \<Rightarrow> nat \<Rightarrow> nat result" where
  "Semaphore_wait interrupted v =
     (if v > 0 then Inr (v - 1)
      else if interrupted then Inl (StdException ''sem_wait error'')
      else Inl (Blocked ''sem_wait''))"

definition Semaphore_notify :: "nat \<Rightarrow> nat \<Rightarrow> nat result" where
  "Semaphore_notify sem_value_max v =
     (if v = sem_value_max then Inl (StdException ''sem_post error'') else Inr (v + 1))"

text \<open>Destroying a semaphore on which threads wait is undefined.\<close>

definition Semaphore_dtor :: "bool \<Rightarrow> nat \<Rightarrow> unit result" where
  "Semaphore_dtor waited_for v = (if waited_for then Inl (Undefined ''sem_destroy'') else Inr ())"

lemma notify_then_wait: "Semaphore_notify mx v = Inr v' \<Longrightarrow> Semaphore_wait i v' = Inr v"
  by (auto simp: Semaphore_notify_def Semaphore_wait_def split: if_splits)

end
