(* ===== verification/LockActs.thy ===== *)
theory LockActs
  imports Logger Sync
begin

section \<open>What the threads share in logging and configuration\<close>

text \<open>
  Several threads that log, configure loggers and use configuration variables. The registry of variables,
  every variable, the logger manager, every logger and every appender has a lock, and the operations of
  \<open>log.cpp\<close>, \<open>config.hpp\<close> and \<open>config.cpp\<close> take some of them while they hold others.
  This theory keeps only what concerns other threads: an operation is the sequence of its accesses to
  shared members, of the locks it takes and releases, and of the characters it prints, for whatever it reads
  meanwhile (levels, appenders, the clock, values). Threads are interleaved at every action. A mutex is a
  read-write lock that is taken for writing only.
\<close>

datatype lock_id = RegistryLock | VarLock string | ManagerLock | LoggerLock lid | AppenderLock aid

text \<open>
  The members that change while other threads may use them: the map of variables, \<open>m_val\<close>, \<open>m_cbs\<close>
  and the counter \<open>key\<close> of \<open>addListener\<close>, which all variables of one type share; the map of loggers;
  a logger's \<open>m_level\<close>, \<open>m_appenders\<close> and \<open>m_formatter\<close>; an appender's \<open>m_level\<close>,
  \<open>m_formatter\<close>, \<open>has_formatter\<close>, \<open>m_last_time\<close> and \<open>m_filestream\<close>.
\<close>

datatype shared_member =
    Registry | VarValue string | VarListeners string | KeyCounter string
  | LoggerTable | LoggerLevel lid | LoggerAppenders lid | LoggerFormatter lid
  | AppenderLevel aid | AppenderFormatter aid | HasFormatter aid | LastTime aid | FileStream aid

text \<open>
  \<open>Print a c\<close> puts a character of a record into the stream of the appender \<open>a\<close>, and \<open>Cout c\<close>
  one of a msg into \<open>std::cout\<close>.
\<close>

datatype lock_act =
    Acq lock_id | AcqRead lock_id | Rel lock_id
  | Get shared_member | Put shared_member
  | Print aid char | Cout char

text \<open>A guard around a body: \<open>MutexType::Lock\<close>, \<open>WriteLock\<close>, and \<open>ReadLock\<close>.\<close>

definition critical :: "lock_id \<Rightarrow> lock_act list \<Rightarrow> lock_act list" where
  "critical k body = Acq k # body @ [Rel k]"

definition reading :: "lock_id \<Rightarrow> lock_act list \<Rightarrow> lock_act list" where
  "reading k body = AcqRead k # body @ [Rel k]"

subsection \<open>The operations of the logging framework\<close>

text \<open>
  \<open>log\<close> of an appender, by what it reads: the event is below its level, or it prints the formatted
  text; a file appender calls \<open>reopen\<close> first when the clock moved.
\<close>

datatype app_view = Refused | Printed string | Filed bool string

definition appender_log_acts :: "app_view \<Rightarrow> aid \<Rightarrow> lock_act list" where
  "appender_log_acts view a = Get (AppenderLevel a) #
     (case view of
        Refused \<Rightarrow> []
      | Printed msg \<Rightarrow> critical (AppenderLock a) (Get (AppenderFormatter a) # map (Print a) msg)
      | Filed reopens msg \<Rightarrow> Get (LastTime a) #
          (if reopens then Put (LastTime a) # critical (AppenderLock a) [Put (FileStream a)] else []) @
          critical (AppenderLock a) (Get (AppenderFormatter a) # Put (FileStream a) # map (Print a) msg))"

text \<open>The loop of \<open>Logger::log\<close> over the appenders, with what each of them reads.\<close>

definition appenders_log_acts :: "(app_view \<times> aid) list \<Rightarrow> lock_act list" where
  "appenders_log_acts views = concat (map (\<lambda>(v, a). appender_log_acts v a) views)"

text \<open>
  \<open>Logger::log\<close>: below the level nothing; otherwise the appenders, or nothing if there are none and
  \<open>m_root\<close> is null, or the root logger, whose own root is null and whose level may refuse the event.
\<close>

datatype log_view = Below | ToAppenders "(app_view \<times> aid) list" | NoRoot | ToRoot "(app_view \<times> aid) list option"

definition Logger_log_acts :: "lid \<Rightarrow> lid \<Rightarrow> log_view \<Rightarrow> lock_act list" where
  "Logger_log_acts root l view = Get (LoggerLevel l) #
     (case view of
        Below \<Rightarrow> []
      | ToAppenders views \<Rightarrow> critical (LoggerLock l) (Get (LoggerAppenders l) # appenders_log_acts views)
      | NoRoot \<Rightarrow> critical (LoggerLock l) [Get (LoggerAppenders l)]
      | ToRoot rv \<Rightarrow> critical (LoggerLock l) (Get (LoggerAppenders l) #
          (if l = root then []
           else Get (LoggerLevel root) #
             (case rv of
                None \<Rightarrow> []
              | Some views \<Rightarrow> critical (LoggerLock root) (Get (LoggerAppenders root) # appenders_log_acts views)))))"

text \<open>A log statement: the macro asks for the level before it builds an event; \<open>None\<close> if that fails.\<close>

definition statement_acts :: "lid \<Rightarrow> lid \<Rightarrow> log_view option \<Rightarrow> lock_act list" where
  "statement_acts root l st =
     Get (LoggerLevel l) # (case st of None \<Rightarrow> [] | Some view \<Rightarrow> Logger_log_acts root l view)"

definition addAppender_acts :: "lid \<Rightarrow> bool \<Rightarrow> aid \<Rightarrow> lock_act list" where
  "addAppender_acts l lacks_formatter a =
     critical (LoggerLock l)
       (critical (AppenderLock a) [Get (AppenderFormatter a)] @
        (if lacks_formatter
         then Get (LoggerFormatter l) # critical (AppenderLock a) [Put (AppenderFormatter a)] else []) @
        [Put (LoggerAppenders l)])"

definition delAppender_acts :: "lid \<Rightarrow> lock_act list" where
  "delAppender_acts l = critical (LoggerLock l) [Put (LoggerAppenders l)]"

text \<open>\<open>setFormatter\<close> in both forms, with the appenders and whether they have a formatter of their own.\<close>

definition inherit_acts :: "(aid \<times> bool) list \<Rightarrow> lock_act list" where
  "inherit_acts apps = concat (map (\<lambda>(a, has).
     Get (HasFormatter a) # (if has then [] else critical (AppenderLock a) [Put (AppenderFormatter a)])) apps)"

definition setFormatter_ptr_acts :: "lid \<Rightarrow> (aid \<times> bool) list \<Rightarrow> lock_act list" where
  "setFormatter_ptr_acts l apps =
     critical (LoggerLock l) (Put (LoggerFormatter l) # Get (LoggerAppenders l) # inherit_acts apps)"

definition setFormatter_acts :: "string \<Rightarrow> lid \<Rightarrow> (aid \<times> bool) list \<Rightarrow> lock_act list" where
  "setFormatter_acts msg l apps =
     map Cout msg @
     critical (LoggerLock l) (Get (LoggerAppenders l) # inherit_acts apps @ [Put (LoggerFormatter l)])"

definition setLevel_acts :: "lid \<Rightarrow> lock_act list" where
  "setLevel_acts l = [Put (LoggerLevel l)]"

definition getLevel_acts :: "lid \<Rightarrow> lock_act list" where
  "getLevel_acts l = [Get (LoggerLevel l)]"

definition getFormatter_acts :: "lid \<Rightarrow> lock_act list" where
  "getFormatter_acts l = [Get (LoggerFormatter l)]"

definition ToYamlStr_acts :: "lid \<Rightarrow> aid list \<Rightarrow> lock_act list" where
  "ToYamlStr_acts l as = Get (LoggerLevel l) #
     critical (LoggerLock l) (Get (LoggerFormatter l) # Get (LoggerAppenders l) #
       concat (map (\<lambda>a. critical (AppenderLock a) [Get (AppenderFormatter a)] @ [Get (AppenderLevel a)]) as))"

definition getLogger_acts :: "bool \<Rightarrow> lock_act list" where
  "getLogger_acts fresh = critical ManagerLock (Get LoggerTable # (if fresh then [Put LoggerTable] else []))"

text \<open>The setters and getters of an appender.\<close>

definition app_setFormatter_ptr_acts :: "aid \<Rightarrow> lock_act list" where
  "app_setFormatter_ptr_acts a = critical (AppenderLock a) [Put (AppenderFormatter a)]"

definition app_setFormatter_acts :: "string \<Rightarrow> aid \<Rightarrow> lock_act list" where
  "app_setFormatter_acts msg a =
     map Cout msg @ critical (AppenderLock a) [Put (AppenderFormatter a), Put (HasFormatter a)]"

definition app_getFormatter_acts :: "aid \<Rightarrow> lock_act list" where
  "app_getFormatter_acts a = critical (AppenderLock a) [Get (AppenderFormatter a)]"

definition app_setLevel_acts :: "aid \<Rightarrow> lock_act list" where
  "app_setLevel_acts a = [Put (AppenderLevel a)]"

definition app_getLevel_acts :: "aid \<Rightarrow> lock_act list" where
  "app_getLevel_acts a = [Get (AppenderLevel a)]"

text \<open>All of them but \<open>Logger::getFormatter\<close>, which reads without the lock.\<close>

inductive log_op :: "lid \<Rightarrow> lock_act list \<Rightarrow> bool" for root where
  "log_op root (statement_acts root l st)"
| "log_op root (Logger_log_acts root l view)"
| "log_op root (addAppender_acts l b a)"
| "log_op root (delAppender_acts l)"
| "log_op root (setFormatter_ptr_acts l apps)"
| "log_op root (setFormatter_acts msg l apps)"
| "log_op root (setLevel_acts l)"
| "log_op root (getLevel_acts l)"
| "log_op root (ToYamlStr_acts l as)"
| "log_op root (getLogger_acts fresh)"
| "log_op root (app_setFormatter_ptr_acts a)"
| "log_op root (app_setFormatter_acts msg a)"
| "log_op root (app_getFormatter_acts a)"
| "log_op root (app_setLevel_acts a)"
| "log_op root (app_getLevel_acts a)"

text \<open>
  The listener of \<open>logs\<close>: for each new or changed definition a log statement, the manager's logger, its
  level, its pattern if one is given (with the complaint and the appenders that inherit it), no appenders, and
  for each appender of the definition its level and pattern, if given, before it is added; for each definition
  that disappeared a log statement, the level and no appenders.
\<close>

definition conf_appender_acts :: "lid \<Rightarrow> aid \<times> bool \<times> string option \<Rightarrow> lock_act list list" where
  "conf_appender_acts l = (\<lambda>(a, has_level, pattern).
     (if has_level then [app_setLevel_acts a] else []) @
     (case pattern of None \<Rightarrow> [] | Some msg \<Rightarrow> [app_setFormatter_acts msg a]) @
     [addAppender_acts l (pattern = None) a])"

record conf_round =
  cr_log :: "log_view option"
  cr_fresh :: bool
  cr_logger :: lid
  cr_pattern :: "(string \<times> (aid \<times> bool) list) option"
  cr_appenders :: "(aid \<times> bool \<times> string option) list"

definition conf_round_acts :: "lid \<Rightarrow> conf_round \<Rightarrow> lock_act list list" where
  "conf_round_acts root r =
     [statement_acts root root (cr_log r), getLogger_acts (cr_fresh r), setLevel_acts (cr_logger r)] @
     (case cr_pattern r of None \<Rightarrow> [] | Some (msg, apps) \<Rightarrow> [setFormatter_acts msg (cr_logger r) apps]) @
     [delAppender_acts (cr_logger r)] @ concat (map (conf_appender_acts (cr_logger r)) (cr_appenders r))"

definition conf_delete_acts :: "lid \<Rightarrow> log_view option \<times> bool \<times> lid \<Rightarrow> lock_act list list" where
  "conf_delete_acts root = (\<lambda>(st, fresh, l).
     [statement_acts root root st, getLogger_acts fresh, setLevel_acts l, delAppender_acts l])"

definition listener_acts :: "lid \<Rightarrow> conf_round list \<Rightarrow> (log_view option \<times> bool \<times> lid) list \<Rightarrow> lock_act list list" where
  "listener_acts root rounds gone =
     concat (map (conf_round_acts root) rounds) @ concat (map (conf_delete_acts root) gone)"

lemma listener_is_log_ops: "op \<in> set (listener_acts root rounds gone) \<Longrightarrow> log_op root op"
  by (auto simp: listener_acts_def conf_round_acts_def conf_delete_acts_def conf_appender_acts_def
      intro: log_op.intros split: option.splits if_splits prod.splits)

subsection \<open>The operations of a configuration variable\<close>

text \<open>
  \<open>toString\<close> and \<open>fromString\<close> log through the root logger when a cast throws, after the guard
  is gone; \<open>failed\<close> is what that log statement reads.
\<close>

definition maybe_log :: "lid \<Rightarrow> log_view option option \<Rightarrow> lock_act list" where
  "maybe_log root failed = (case failed of None \<Rightarrow> [] | Some st \<Rightarrow> statement_acts root root st)"

definition toString_acts :: "lid \<Rightarrow> string \<Rightarrow> log_view option option \<Rightarrow> lock_act list" where
  "toString_acts root v failed = reading (VarLock v) [Get (VarValue v)] @ maybe_log root failed"

text \<open>
  \<open>setValue\<close>: nothing more for an equal value; otherwise the listeners' operations under the read lock, and
  the write unless a listener threw.
\<close>

definition setValue_acts :: "string \<Rightarrow> (lock_act list list \<times> bool) option \<Rightarrow> lock_act list" where
  "setValue_acts v change =
     (case change of
        None \<Rightarrow> reading (VarLock v) [Get (VarValue v)]
      | Some (listeners, writes) \<Rightarrow>
          reading (VarLock v) (Get (VarValue v) # Get (VarListeners v) # concat listeners) @
          (if writes then critical (VarLock v) [Put (VarValue v)] else []))"

text \<open>\<open>fromString\<close>: the cast throws, or the value is set; a listener may throw as well.\<close>

definition fromString_acts ::
  "lid \<Rightarrow> string \<Rightarrow> (lock_act list list \<times> bool) option option \<Rightarrow> log_view option option \<Rightarrow> lock_act list" where
  "fromString_acts root v assigned failed =
     (case assigned of None \<Rightarrow> [] | Some change \<Rightarrow> setValue_acts v change) @ maybe_log root failed"

definition getValue_acts :: "string \<Rightarrow> lock_act list" where
  "getValue_acts v = reading (VarLock v) [Get (VarValue v)]"

text \<open>\<open>key\<close> belongs to the type \<open>ty\<close> of the variable.\<close>

definition addListener_acts :: "string \<Rightarrow> string \<Rightarrow> lock_act list" where
  "addListener_acts ty v =
     critical (VarLock v) [Get (KeyCounter ty), Put (VarListeners v), Put (KeyCounter ty)]"

text \<open>\<open>delListener\<close> and \<open>clearListener\<close>.\<close>

definition delListener_acts :: "string \<Rightarrow> lock_act list" where
  "delListener_acts v = critical (VarLock v) [Put (VarListeners v)]"

definition getListener_acts :: "string \<Rightarrow> lock_act list" where
  "getListener_acts v = reading (VarLock v) [Get (VarListeners v)]"

text \<open>Listeners use the logging framework, as the one for \<open>logs\<close> does, and no variables.\<close>

inductive var_op :: "lid \<Rightarrow> lock_act list \<Rightarrow> bool" for root where
  "var_op root (toString_acts root v failed)"
| "\<forall>ls w. change = Some (ls, w) \<longrightarrow> (\<forall>op \<in> set ls. log_op root op) \<Longrightarrow> var_op root (setValue_acts v change)"
| "\<forall>ls w. assigned = Some (Some (ls, w)) \<longrightarrow> (\<forall>op \<in> set ls. log_op root op)
     \<Longrightarrow> var_op root (fromString_acts root v assigned failed)"
| "var_op root (getValue_acts v)"
| "var_op root (addListener_acts ty v)"
| "var_op root (delListener_acts v)"
| "var_op root (getListener_acts v)"

subsection \<open>The operations of the registry\<close>

text \<open>
  The creating \<open>Lookup\<close>: a new variable, or a log statement under the write lock. When the variable
  has another type and the statement is not switched off, it asks the variable for its text.
\<close>

datatype lookup_view =
    Created
  | Exists "log_view option"
  | OtherType "(string \<times> log_view option option \<times> log_view) option"
  | InvalidName "log_view option"

definition Lookup_acts :: "lid \<Rightarrow> lookup_view \<Rightarrow> lock_act list" where
  "Lookup_acts root view =
     critical RegistryLock (Get Registry #
       (case view of
          Created \<Rightarrow> [Put Registry]
        | Exists st \<Rightarrow> statement_acts root root st
        | OtherType None \<Rightarrow> statement_acts root root None
        | OtherType (Some (v, failed, logs)) \<Rightarrow>
            Get (LoggerLevel root) # toString_acts root v failed @ Logger_log_acts root root logs
        | InvalidName st \<Rightarrow> statement_acts root root st))"

text \<open>\<open>LookupBase\<close>, and \<open>Lookup\<close> with a name only.\<close>

definition LookupBase_acts :: "lock_act list" where
  "LookupBase_acts = reading RegistryLock [Get Registry]"

text \<open>
  \<open>LoadFromYaml\<close>: the reports of invalid names, then for each entry \<open>LookupBase\<close> and, when the
  variable exists, \<open>fromString\<close>.
\<close>

definition LoadFromYaml_acts :: "lid \<Rightarrow> log_view option list \<Rightarrow> lock_act list list \<Rightarrow> lock_act list" where
  "LoadFromYaml_acts root reports assigns =
     concat (map (statement_acts root root) reports) @ concat (map (\<lambda>op. LookupBase_acts @ op) assigns)"

text \<open>\<open>Visit\<close> calls back under the read lock; the callback uses variables and the logging framework.\<close>

definition Visit_acts :: "lock_act list list \<Rightarrow> lock_act list" where
  "Visit_acts calls = reading RegistryLock (Get Registry # concat calls)"

inductive config_op :: "lid \<Rightarrow> lock_act list \<Rightarrow> bool" for root where
  "config_op root (Lookup_acts root view)"
| "config_op root LookupBase_acts"
| "\<forall>op \<in> set assigns. op = [] \<or> var_op root op \<Longrightarrow> config_op root (LoadFromYaml_acts root reports assigns)"
| "\<forall>op \<in> set calls. var_op root op \<or> log_op root op \<Longrightarrow> config_op root (Visit_acts calls)"
| "var_op root op \<Longrightarrow> config_op root op"
| "log_op root op \<Longrightarrow> config_op root op"

subsection \<open>Threads\<close>

text \<open>\<open>consoles\<close> are the appenders that print to \<open>std::cout\<close>; the others have a stream of their own.\<close>

datatype sink = Console | Stream aid

record lock_sys =
  locks :: "lock_id \<Rightarrow> rwmutex"
  todo :: "tid \<Rightarrow> lock_act list"
  consoles :: "aid set"
  printed :: "sink \<Rightarrow> string"

definition sink_of :: "aid set \<Rightarrow> aid \<Rightarrow> sink" where
  "sink_of C a = (if a \<in> C then Console else Stream a)"

definition put_char :: "sink \<Rightarrow> char \<Rightarrow> lock_sys \<Rightarrow> lock_sys" where
  "put_char k c s = s\<lparr>printed := (printed s)(k := printed s k @ [c])\<rparr>"

lemma put_char_simps [simp]:
  "locks (put_char k c s) = locks s" "todo (put_char k c s) = todo s" "consoles (put_char k c s) = consoles s"
  "printed (put_char k c s) = (printed s)(k := printed s k @ [c])"
  by (simp_all add: put_char_def)

definition on_lock :: "(rwmutex \<Rightarrow> rwmutex result) \<Rightarrow> lock_id \<Rightarrow> lock_sys \<Rightarrow> lock_sys result" where
  "on_lock f k s = rbind (f (locks s k)) (\<lambda>m. Inr (s\<lparr>locks := (locks s)(k := m)\<rparr>))"

fun act_on :: "lock_act \<Rightarrow> tid \<Rightarrow> lock_sys \<Rightarrow> lock_sys result" where
  "act_on (Acq k) t s = on_lock (rw_wrlock t) k s"
| "act_on (AcqRead k) t s = on_lock (rw_rdlock t) k s"
| "act_on (Rel k) t s = on_lock (rw_unlock t) k s"
| "act_on (Get f) t s = Inr s"
| "act_on (Put f) t s = Inr s"
| "act_on (Print a c) t s = Inr (put_char (sink_of (consoles s) a) c s)"
| "act_on (Cout c) t s = Inr (put_char Console c s)"

inductive lock_step :: "lock_sys \<Rightarrow> lock_sys \<Rightarrow> bool" where
  act: "todo s t = a # rest \<Longrightarrow> act_on a t s = Inr s' \<Longrightarrow> lock_step s (s'\<lparr>todo := (todo s)(t := rest)\<rparr>)"

text \<open>A mutex is a read-write lock without readers.\<close>

lemma mutex_is_rw:
  "rw_wrlock t \<lparr>rw_readers = (\<lambda>_. 0), rw_writer = m\<rparr> = (case mutex_lock t m of
     Inl _ \<Rightarrow> Inl (Blocked ''pthread_rwlock_wrlock'') | Inr m' \<Rightarrow> Inr \<lparr>rw_readers = (\<lambda>_. 0), rw_writer = m'\<rparr>)"
  "rw_unlock t \<lparr>rw_readers = (\<lambda>_. 0), rw_writer = m\<rparr> = (case mutex_unlock t m of
     Inl _ \<Rightarrow> Inl (Undefined ''pthread_rwlock_unlock'') | Inr m' \<Rightarrow> Inr \<lparr>rw_readers = (\<lambda>_. 0), rw_writer = m'\<rparr>)"
  by (auto simp: rw_wrlock_def rw_unlock_def mutex_lock_def mutex_unlock_def split: option.splits)

text \<open>Finitely many threads, each about to run some operations one after the other.\<close>

definition lock_start :: "lid \<Rightarrow> lock_sys \<Rightarrow> bool" where
  "lock_start root s \<longleftrightarrow> locks s = (\<lambda>_. new_rwmutex) \<and> finite {t. todo s t \<noteq> []} \<and> printed s = (\<lambda>_. []) \<and>
     (\<forall>t. \<exists>ops. (\<forall>op \<in> set ops. config_op root op) \<and> todo s t = concat ops)"

definition all_done :: "lock_sys \<Rightarrow> bool" where
  "all_done s \<longleftrightarrow> (\<forall>t. todo s t = []) \<and> locks s = (\<lambda>_. new_rwmutex)"

end
