(* ===== verification/LockOrder.thy ===== *)
theory LockOrder
  imports LockActs
begin

section \<open>Lock order and lock discipline\<close>

text \<open>
  The operations take their locks in one order and touch guarded members only under the lock that guards
  them. Threads that use them never deadlock and never race on a guarded member; the members that no lock
  guards are raced on.
\<close>

subsection \<open>The discipline\<close>

text \<open>
  The registry's lock before a variable's, a variable's before the manager's, the manager's before a
  logger's, a logger's before the root logger's, appenders' last.
\<close>

fun lock_rank :: "lid \<Rightarrow> lock_id \<Rightarrow> nat" where
  "lock_rank root RegistryLock = 0"
| "lock_rank root (VarLock v) = 1"
| "lock_rank root ManagerLock = 2"
| "lock_rank root (LoggerLock l) = (if l = root then 4 else 3)"
| "lock_rank root (AppenderLock a) = 5"

text \<open>The lock that guards a member; there is none for levels, \<open>has_formatter\<close>, \<open>m_last_time\<close> and \<open>key\<close>.\<close>

fun guard_of :: "shared_member \<Rightarrow> lock_id option" where
  "guard_of Registry = Some RegistryLock"
| "guard_of (VarValue v) = Some (VarLock v)"
| "guard_of (VarListeners v) = Some (VarLock v)"
| "guard_of (KeyCounter ty) = None"
| "guard_of LoggerTable = Some ManagerLock"
| "guard_of (LoggerLevel l) = None"
| "guard_of (LoggerAppenders l) = Some (LoggerLock l)"
| "guard_of (LoggerFormatter l) = Some (LoggerLock l)"
| "guard_of (AppenderLevel a) = None"
| "guard_of (AppenderFormatter a) = Some (AppenderLock a)"
| "guard_of (HasFormatter a) = None"
| "guard_of (LastTime a) = None"
| "guard_of (FileStream a) = Some (AppenderLock a)"

text \<open>
  A sequence that starts with some locks held, exclusively (\<open>True\<close>) or not, takes only locks of higher
  rank, reads a guarded member under its lock, writes it and prints under an exclusive one, and ends
  with no lock.
\<close>

type_synonym held_locks = "(bool \<times> lock_id) list"

definition below :: "lid \<Rightarrow> lock_id \<Rightarrow> held_locks \<Rightarrow> bool" where
  "below root k held \<longleftrightarrow> (\<forall>h \<in> snd ` set held. lock_rank root h < lock_rank root k)"

definition may_get :: "held_locks \<Rightarrow> shared_member \<Rightarrow> bool" where
  "may_get held f \<longleftrightarrow> (\<forall>k. guard_of f = Some k \<longrightarrow> k \<in> snd ` set held)"

definition may_put :: "held_locks \<Rightarrow> shared_member \<Rightarrow> bool" where
  "may_put held f \<longleftrightarrow> (\<forall>k. guard_of f = Some k \<longrightarrow> (True, k) \<in> set held)"

fun ascending :: "lid \<Rightarrow> held_locks \<Rightarrow> lock_act list \<Rightarrow> bool" where
  "ascending root held [] \<longleftrightarrow> held = []"
| "ascending root held (Acq k # acts) \<longleftrightarrow> below root k held \<and> ascending root ((True, k) # held) acts"
| "ascending root held (AcqRead k # acts) \<longleftrightarrow> below root k held \<and> ascending root ((False, k) # held) acts"
| "ascending root held (Rel k # acts) \<longleftrightarrow> (case held of [] \<Rightarrow> False | h # hs \<Rightarrow> snd h = k \<and> ascending root hs acts)"
| "ascending root held (Get f # acts) \<longleftrightarrow> may_get held f \<and> ascending root held acts"
| "ascending root held (Put f # acts) \<longleftrightarrow> may_put held f \<and> ascending root held acts"
| "ascending root held (Print a c # acts) \<longleftrightarrow> (True, AppenderLock a) \<in> set held \<and> ascending root held acts"
| "ascending root held (Cout c # acts) \<longleftrightarrow> ascending root held acts"

text \<open>A body that can be put in front of anything while some locks are held.\<close>

definition fits_under :: "lid \<Rightarrow> held_locks \<Rightarrow> lock_act list \<Rightarrow> bool" where
  "fits_under root held body \<longleftrightarrow> (\<forall>rest. ascending root held rest \<longrightarrow> ascending root held (body @ rest))"

text \<open>All locks held are of a rank below \<open>n\<close>.\<close>

definition under :: "lid \<Rightarrow> nat \<Rightarrow> held_locks \<Rightarrow> bool" where
  "under root n held \<longleftrightarrow> (\<forall>h \<in> snd ` set held. lock_rank root h < n)"

lemma under_simps [simp]:
  "under root n []"
  "under root n (h # held) \<longleftrightarrow> lock_rank root (snd h) < n \<and> under root n held"
  by (auto simp: under_def)

lemma under_mono: "under root m held \<Longrightarrow> m \<le> n \<Longrightarrow> under root n held"
  by (auto simp: under_def)

lemma under_two [simp]:
  "under root 2 held \<Longrightarrow> under root 3 held"
  "under root 2 held \<Longrightarrow> under root 4 held"
  "under root 2 held \<Longrightarrow> under root 5 held"
  by (erule under_mono; simp)+

lemma under_one [simp]: "under root (Suc 0) held \<Longrightarrow> under root 2 held"
  by (erule under_mono) simp

named_theorems fits

lemma fits_Nil [fits]: "fits_under root held []"
  by (simp add: fits_under_def)

lemma fits_append [fits]: "fits_under root held xs \<Longrightarrow> fits_under root held ys \<Longrightarrow> fits_under root held (xs @ ys)"
  by (simp add: fits_under_def)

lemma fits_guard [fits]:
  assumes "under root (lock_rank root k) held"
  shows "fits_under root ((True, k) # held) body \<Longrightarrow> fits_under root held (critical k body)"
    "fits_under root ((False, k) # held) body \<Longrightarrow> fits_under root held (reading k body)"
  using assms by (simp_all add: fits_under_def critical_def reading_def under_def below_def)

lemma fits_access [fits]:
  "may_get held f \<Longrightarrow> fits_under root held body \<Longrightarrow> fits_under root held (Get f # body)"
  "may_put held f \<Longrightarrow> fits_under root held body \<Longrightarrow> fits_under root held (Put f # body)"
  by (simp_all add: fits_under_def)

lemma fits_chars [fits]:
  "(True, AppenderLock a) \<in> set held \<Longrightarrow> fits_under root held (map (Print a) msg)"
  "fits_under root held (map Cout msg)"
  by (induction msg) (auto simp: fits_under_def)

lemma fits_concat [fits]: "(\<And>x. x \<in> set xs \<Longrightarrow> fits_under root held x) \<Longrightarrow> fits_under root held (concat xs)"
  by (induction xs) (auto intro: fits)

lemma may_simps [simp]:
  "may_get held f = (case guard_of f of None \<Rightarrow> True | Some k \<Rightarrow> k \<in> snd ` set held)"
  "may_put held f = (case guard_of f of None \<Rightarrow> True | Some k \<Rightarrow> (True, k) \<in> set held)"
  by (auto simp: may_get_def may_put_def split: option.split)

text \<open>Each kind of operation fits under the locks that may be held when it is called.\<close>

lemma appender_fits: "under root 5 held \<Longrightarrow> fits_under root held (appender_log_acts v a)"
  by (cases v) (auto simp: appender_log_acts_def intro!: fits)

lemma appenders_fit: "under root 5 held \<Longrightarrow> fits_under root held (appenders_log_acts views)"
  by (auto simp: appenders_log_acts_def intro!: fits_concat appender_fits)

lemma log_fits: "under root 2 held \<Longrightarrow> fits_under root held (Logger_log_acts root l view)"
  by (auto simp: Logger_log_acts_def split: log_view.split option.split intro!: fits appenders_fit)

lemma statement_fits: "under root 2 held \<Longrightarrow> fits_under root held (statement_acts root l st)"
  by (auto simp: statement_acts_def split: option.split intro!: fits log_fits)

lemma inherit_fits: "under root 5 held \<Longrightarrow> fits_under root held (inherit_acts apps)"
  by (auto simp: inherit_acts_def intro!: fits)

lemma log_op_fits: "log_op root op \<Longrightarrow> under root 2 held \<Longrightarrow> fits_under root held op"
  by (induction rule: log_op.induct)
    (auto simp: addAppender_acts_def delAppender_acts_def setFormatter_ptr_acts_def setFormatter_acts_def
      setLevel_acts_def getLevel_acts_def ToYamlStr_acts_def getLogger_acts_def app_setFormatter_ptr_acts_def
      app_setFormatter_acts_def app_getFormatter_acts_def app_setLevel_acts_def app_getLevel_acts_def
      intro!: fits log_fits statement_fits inherit_fits)

lemma log_ops_fit: "\<forall>op \<in> set ops. log_op root op \<Longrightarrow> under root 2 held \<Longrightarrow> fits_under root held (concat ops)"
  by (auto intro: fits_concat log_op_fits)

lemma maybe_log_fits: "under root 2 held \<Longrightarrow> fits_under root held (maybe_log root failed)"
  by (auto simp: maybe_log_def split: option.split intro!: fits statement_fits)

lemma toString_fits: "under root (Suc 0) held \<Longrightarrow> fits_under root held (toString_acts root v failed)"
  by (auto simp: toString_acts_def intro!: fits maybe_log_fits)

lemma setValue_fits:
  "\<forall>ls w. change = Some (ls, w) \<longrightarrow> (\<forall>op \<in> set ls. log_op root op) \<Longrightarrow> under root (Suc 0) held
   \<Longrightarrow> fits_under root held (setValue_acts v change)"
  by (auto simp: setValue_acts_def split: option.split intro!: fits_append fits_guard fits_access fits_Nil log_ops_fit)

lemma var_op_fits: "var_op root op \<Longrightarrow> under root (Suc 0) held \<Longrightarrow> fits_under root held op"
  by (induction rule: var_op.induct)
    (auto simp: getValue_acts_def addListener_acts_def delListener_acts_def getListener_acts_def
      fromString_acts_def split: option.split intro!: fits toString_fits setValue_fits maybe_log_fits)

lemma calls_fit:
  "\<forall>op \<in> set calls. var_op root op \<or> log_op root op \<Longrightarrow> fits_under root [(False, RegistryLock)] (concat calls)"
  using var_op_fits [of root _ "[(False, RegistryLock)]"] log_op_fits [of root _ "[(False, RegistryLock)]"]
  by (intro fits_concat) auto

lemma config_op_fits: "config_op root op \<Longrightarrow> fits_under root [] op"
proof (induction rule: config_op.induct)
  case (1 view)
  show ?case
    by (auto simp: Lookup_acts_def split: lookup_view.split option.split
        intro!: fits statement_fits toString_fits log_fits)
next
  case (4 calls)
  then show ?case by (auto simp: Visit_acts_def intro!: fits_guard fits_access calls_fit)
next
  case (3 assigns reports)
  then have "fits_under root [] (LookupBase_acts @ op)" if "op \<in> set assigns" for op
    using that var_op_fits [of root op "[]"] by (auto simp: LookupBase_acts_def intro!: fits)
  then show ?case
    by (auto simp: LoadFromYaml_acts_def intro!: fits_append [OF fits_concat fits_concat] statement_fits)
qed (auto simp: LookupBase_acts_def intro!: fits intro: var_op_fits log_op_fits)

lemma ops_ascending: "\<forall>op \<in> set ops. config_op root op \<Longrightarrow> ascending root [] (concat ops)"
  using fits_concat [of ops root "[]"] config_op_fits [of root] unfolding fits_under_def
  by (metis append_Nil2 ascending.simps(1))

subsection \<open>No deadlock\<close>

text \<open>A thread has a lock exclusively when it is the writer, and shared when it is among the readers.\<close>

definition has_lock :: "tid \<Rightarrow> bool \<Rightarrow> rwmutex \<Rightarrow> bool" where
  "has_lock t x m \<longleftrightarrow> (if x then rw_writer m = Some t else rw_readers m t > 0)"

text \<open>No thread reads twice, and none reads while another writes.\<close>

definition lock_ok :: "rwmutex \<Rightarrow> bool" where
  "lock_ok m \<longleftrightarrow> (\<forall>t. rw_readers m t \<le> 1) \<and> (rw_writer m \<noteq> None \<longrightarrow> rw_readers m = (\<lambda>_. 0))"

lemma take_lock:
  assumes "lock_ok m" and "\<And>y. \<not> has_lock t y m"
  shows "rw_wrlock t m = Inr m' \<Longrightarrow> lock_ok m' \<and> (\<forall>u y. has_lock u y m' \<longleftrightarrow> u = t \<and> y \<or> has_lock u y m)"
    "rw_rdlock t m = Inr m' \<Longrightarrow> lock_ok m' \<and> (\<forall>u y. has_lock u y m' \<longleftrightarrow> u = t \<and> \<not> y \<or> has_lock u y m)"
  using assms(1) assms(2) [of True] assms(2) [of False]
  by (auto simp: rw_wrlock_def rw_rdlock_def lock_ok_def has_lock_def split: if_splits)

lemma release_lock:
  assumes "rw_unlock t m = Inr m'" and "lock_ok m"
  shows "lock_ok m' \<and> (\<forall>u y. has_lock u y m' \<longleftrightarrow> u \<noteq> t \<and> has_lock u y m)"
proof (cases "rw_writer m = Some t")
  case True
  with assms show ?thesis by (auto simp: rw_unlock_def lock_ok_def has_lock_def)
next
  case False
  with assms have m': "m' = m\<lparr>rw_readers := (rw_readers m)(t := rw_readers m t - 1)\<rparr>" "rw_readers m t = 1"
    using le_antisym [of "rw_readers m t" 1] by (auto simp: rw_unlock_def lock_ok_def split: if_splits)
  with assms(2) have "rw_writer m = None" by (auto simp: lock_ok_def)
  with m' assms(2) show ?thesis by (auto simp: lock_ok_def has_lock_def)
qed

text \<open>What the threads hold, in the state \<open>s\<close>.\<close>

definition holds_ok :: "lid \<Rightarrow> lock_sys \<Rightarrow> (tid \<Rightarrow> held_locks) \<Rightarrow> bool" where
  "holds_ok root s held \<longleftrightarrow>
     (\<forall>t. ascending root (held t) (todo s t) \<and> distinct (map snd (held t))) \<and>
     (\<forall>t y k. has_lock t y (locks s k) \<longleftrightarrow> (y, k) \<in> set (held t)) \<and> (\<forall>k. lock_ok (locks s k)) \<and>
     finite {t. todo s t \<noteq> []}"

lemma holds_okD:
  assumes "holds_ok root s held"
  shows "ascending root (held t) (todo s t)" "distinct (map snd (held t))"
    "has_lock t y (locks s k) \<longleftrightarrow> (y, k) \<in> set (held t)" "finite {t. todo s t \<noteq> []}" "lock_ok (locks s k)"
  using assms by (auto simp: holds_ok_def)

lemma start_holds: "lock_start root s \<Longrightarrow> holds_ok root s (\<lambda>_. [])"
  by (auto simp: lock_start_def holds_ok_def new_rwmutex_def has_lock_def lock_ok_def) (metis ops_ascending)

lemma finite_todo: "finite {t. todo s t \<noteq> []} \<Longrightarrow> finite {t. ((todo s)(u := x)) t \<noteq> []}"
  by (rule finite_subset [of _ "insert u {t. todo s t \<noteq> []}"]) auto

text \<open>An action changes the locks as \<open>hold_after\<close> says.\<close>

fun hold_after :: "lock_act \<Rightarrow> held_locks \<Rightarrow> held_locks" where
  "hold_after (Acq k) held = (True, k) # held"
| "hold_after (AcqRead k) held = (False, k) # held"
| "hold_after (Rel k) held = tl held"
| "hold_after _ held = held"

lemma step_keeps_holds:
  assumes ok: "holds_ok root s held" and todo: "todo s t = a # rest" and act: "act_on a t s = Inr s'"
  shows "holds_ok root (s'\<lparr>todo := (todo s)(t := rest)\<rparr>) (held(t := hold_after a (held t)))"
proof -
  note D = holds_okD [OF ok]
  have fin: "finite {u. ((todo s)(t := rest)) u \<noteq> []}" by (rule finite_todo [OF D(4)])
  have same: "?thesis" if "locks s' = locks s" "hold_after a (held t) = held t" "ascending root (held t) rest"
    using that D fin unfolding holds_ok_def by auto
  have taken: ?thesis
    if k: "on_lock f k s = Inr s'" and f: "f = rw_wrlock t \<and> x \<or> f = rw_rdlock t \<and> \<not> x" and b: "below root k (held t)"
      and r: "ascending root ((x, k) # held t) rest" and h: "hold_after a (held t) = (x, k) # held t" for f k x
  proof -
    from k obtain m where m: "f (locks s k) = Inr m" "s' = s\<lparr>locks := (locks s)(k := m)\<rparr>"
      by (auto simp: on_lock_def rbind_eq_Inr)
    from b have new: "k \<notin> snd ` set (held t)" by (auto simp: below_def)
    then have no: "\<not> has_lock t y (locks s k)" for y using D(3) by force
    from take_lock [OF D(5) [of k] no] m(1) f
    have "lock_ok m" "\<forall>u y. has_lock u y m \<longleftrightarrow> u = t \<and> y = x \<or> has_lock u y (locks s k)" by auto
    with D m(2) fin new r h show ?thesis unfolding holds_ok_def by auto
  qed
  from D(1) [of t] todo act show ?thesis
  proof (cases a)
    case (Rel k)
    with D(1) [of t] todo obtain h hs where hs: "held t = h # hs" "snd h = k" "ascending root hs rest"
      by (auto split: list.splits)
    from Rel act obtain m where m: "rw_unlock t (locks s k) = Inr m" "s' = s\<lparr>locks := (locks s)(k := m)\<rparr>"
      by (auto simp: on_lock_def rbind_eq_Inr)
    have un: "lock_ok m" "has_lock u y m \<longleftrightarrow> u \<noteq> t \<and> (y, k) \<in> set (held u)" for u y
      using release_lock [OF m(1) D(5)] D(3) by auto
    have ne: "(y, k) \<notin> set hs" and dis: "distinct (map snd hs)" for y
      using D(2) [of t] hs by (auto simp: image_iff)
    have hld: "has_lock u y (((locks s)(k := m)) k') \<longleftrightarrow> (y, k') \<in> set ((held(t := hs)) u)" for u y k'
      using un(2) D(3) [of u y k'] ne hs by (cases "k' = k"; cases "u = t") auto
    show ?thesis unfolding holds_ok_def using D(1,2,5) fin m(2) hs un(1) dis hld Rel by auto
  qed (use same taken in auto)
qed

lemma reach_holds: "lock_step\<^sup>*\<^sup>* s s' \<Longrightarrow> holds_ok root s held \<Longrightarrow> \<exists>held'. holds_ok root s' held'"
proof (induction arbitrary: held rule: converse_rtranclp_induct)
  case (step s s1)
  then show ?case by (elim lock_step.cases) (metis step_keeps_holds)
qed blast

text \<open>The thread that waits for the highest lock cannot wait: who holds the lock has finished.\<close>

fun wanted :: "lock_act \<Rightarrow> lock_id option" where
  "wanted (Acq k) = Some k"
| "wanted (AcqRead k) = Some k"
| "wanted _ = None"

lemma lock_busy:
  "rw_wrlock t m = Inl e \<Longrightarrow> \<exists>u y. has_lock u y m" "rw_rdlock t m = Inl e \<Longrightarrow> \<exists>u y. has_lock u y m"
proof -
  have w: "\<exists>u y. has_lock u y m" if "rw_writer m \<noteq> None" using that by (auto simp: has_lock_def)
  have r: "\<exists>u y. has_lock u y m" if "rw_readers m \<noteq> (\<lambda>_. 0)"
    using that by (auto simp: has_lock_def fun_eq_iff intro: exI [of _ False])
  show "rw_wrlock t m = Inl e \<Longrightarrow> \<exists>u y. has_lock u y m" "rw_rdlock t m = Inl e \<Longrightarrow> \<exists>u y. has_lock u y m"
    using w r by (auto simp: rw_wrlock_def rw_rdlock_def split: if_splits)
qed

lemma blocked_by: "act_on a t s = Inl e \<Longrightarrow> wanted a = Some k \<Longrightarrow> \<exists>u y. has_lock u y (locks s k)"
  by (cases a) (auto simp: on_lock_def rbind_eq_Inl intro: lock_busy)

lemma only_locks_block:
  assumes ok: "holds_ok root s held" and todo: "todo s t = a # rest" and e: "act_on a t s = Inl e"
  shows "\<exists>k. wanted a = Some k"
proof (cases a)
  case (Rel k)
  with holds_okD(1) [OF ok, of t] todo obtain h hs where "held t = h # hs" "snd h = k" by (auto split: list.splits)
  then have "(fst h, k) \<in> set (held t)" by (cases h) auto
  with holds_okD(3) [OF ok] have "has_lock t (fst h) (locks s k)" by blast
  with e Rel show ?thesis by (auto simp: on_lock_def rbind_eq_Inl rw_unlock_def has_lock_def split: if_splits)
qed (use e in auto)

lemma lock_progress:
  assumes ok: "holds_ok root s held" and t0: "todo s t0 \<noteq> []"
  shows "\<exists>s'. lock_step s s'"
proof (rule ccontr)
  assume stuck: "\<nexists>s'. lock_step s s'"
  note D = holds_okD [OF ok]
  have fails: "\<exists>e. act_on a t s = Inl e" if "todo s t = a # rest" for t a rest
    using lock_step.act [OF that] stuck by (cases "act_on a t s") auto
  have waits: "\<exists>a k rest. todo s t = a # rest \<and> wanted a = Some k" if ne: "todo s t \<noteq> []" for t
  proof -
    from ne obtain a rest where ar: "todo s t = a # rest" by (cases "todo s t") auto
    from fails [OF ar] only_locks_block [OF ok ar] ar show ?thesis by blast
  qed
  define P where "P k \<longleftrightarrow> (\<exists>t a rest. todo s t = a # rest \<and> wanted a = Some k)" for k
  obtain k0 where "P k0" using waits [OF t0] by (auto simp: P_def)
  moreover have "lock_rank root k < 6" for k by (cases "(root, k)" rule: lock_rank.cases) auto
  ultimately obtain k where k: "P k" and highest: "\<And>k'. P k' \<Longrightarrow> lock_rank root k' \<le> lock_rank root k"
    using ex_has_greatest_nat [of P k0 "lock_rank root" 6] by auto
  then obtain t a rest where t: "todo s t = a # rest" and a: "wanted a = Some k" by (auto simp: P_def)
  from fails [OF t] blocked_by [OF _ a] obtain u y where "has_lock u y (locks s k)" by blast
  with D(3) have held: "(y, k) \<in> set (held u)" by simp
  with D(1) [of u] have "todo s u \<noteq> []" by auto
  then obtain b k' rest' where u: "todo s u = b # rest'" "wanted b = Some k'" using waits by blast
  with D(1) [of u] have "below root k' (held u)" by (cases b) auto
  with held have "lock_rank root k < lock_rank root k'" by (force simp: below_def)
  with highest [of k'] u show False by (auto simp: P_def)
qed

text \<open>Every action is taken once.\<close>

definition pending :: "lock_sys \<Rightarrow> nat" where
  "pending s = (\<Sum>t \<in> {t. todo s t \<noteq> []}. length (todo s t))"

lemma pending_on:
  assumes "finite A" "{t. todo s t \<noteq> []} \<subseteq> A"
  shows "pending s = (\<Sum>t \<in> A. length (todo s t))"
  unfolding pending_def by (rule sum.mono_neutral_left) (use assms in auto)

lemma step_pending: "lock_step s s' \<Longrightarrow> finite {t. todo s t \<noteq> []} \<Longrightarrow> pending s' < pending s"
proof -
  assume step: "lock_step s s'" and fin: "finite {t. todo s t \<noteq> []}"
  from step obtain t a rest where t: "todo s t = a # rest" and s': "todo s' = (todo s)(t := rest)"
    by (cases rule: lock_step.cases) auto
  let ?A = "{t. todo s t \<noteq> []}"
  have "pending s' = (\<Sum>u \<in> ?A. length (todo s' u))"
    by (rule pending_on [OF fin]) (use s' t in \<open>auto split: if_splits\<close>)
  also have "\<dots> < (\<Sum>u \<in> ?A. length (todo s u))"
    by (rule sum_strict_mono_ex1 [OF fin]) (use t s' in auto)
  finally show ?thesis by (simp add: pending_def)
qed

lemma done_free:
  assumes ok: "holds_ok root s held" and "\<forall>t. todo s t = []"
  shows "all_done s"
proof -
  note D = holds_okD [OF ok]
  from assms(2) D(1) have "held t = []" for t by (metis ascending.simps(1))
  with D(3) have free: "\<not> has_lock t y (locks s k)" for t y k by simp
  have "locks s k = new_rwmutex" for k
    using free [of _ True k] free [of _ False k] by (cases "rw_writer (locks s k)")
      (auto simp: has_lock_def new_rwmutex_def intro!: rwmutex.equality)
  with assms(2) show ?thesis by (auto simp: all_done_def)
qed

lemma done_destroyable: "all_done s \<Longrightarrow> rw_destroy (locks s k) = Inr ()"
  by (simp add: all_done_def rw_destroy_def new_rwmutex_def)

lemma runs_to_end: "holds_ok root s held \<Longrightarrow> \<exists>s'. lock_step\<^sup>*\<^sup>* s s' \<and> all_done s'"
proof (induction "pending s" arbitrary: s held rule: less_induct)
  case less
  show ?case
  proof (cases "\<forall>t. todo s t = []")
    case True
    with done_free [OF less.prems] show ?thesis by blast
  next
    case False
    with lock_progress [OF less.prems] obtain s1 where s1: "lock_step s s1" by blast
    with reach_holds [OF _ less.prems] obtain held1 where "holds_ok root s1 held1" by blast
    with less.hyps [OF step_pending [OF s1 holds_okD(4) [OF less.prems]]] s1
    show ?thesis by (meson converse_rtranclp_into_rtranclp)
  qed
qed


subsection \<open>No races on guarded members\<close>

text \<open>Two threads are about to access a member, one of them to change it. Printing changes an appender's stream.\<close>

fun reads_or_writes :: "shared_member \<Rightarrow> lock_act \<Rightarrow> bool" where
  "reads_or_writes f (Get g) \<longleftrightarrow> f = g"
| "reads_or_writes f (Put g) \<longleftrightarrow> f = g"
| "reads_or_writes f (Print a c) \<longleftrightarrow> f = FileStream a"
| "reads_or_writes f _ \<longleftrightarrow> False"

fun writes_to :: "shared_member \<Rightarrow> lock_act \<Rightarrow> bool" where
  "writes_to f (Put g) \<longleftrightarrow> f = g"
| "writes_to f (Print a c) \<longleftrightarrow> f = FileStream a"
| "writes_to f _ \<longleftrightarrow> False"

definition racing :: "shared_member \<Rightarrow> lock_sys \<Rightarrow> bool" where
  "racing f s \<longleftrightarrow> (\<exists>t u a b as bs. t \<noteq> u \<and> todo s t = a # as \<and> todo s u = b # bs \<and>
     reads_or_writes f a \<and> writes_to f b)"

lemma guarded_no_race:
  assumes ok: "holds_ok root s held" and k: "guard_of f = Some k"
  shows "\<not> racing f s"
proof
  assume "racing f s"
  then obtain t u a b as bs where tu: "t \<noteq> u" "todo s t = a # as" "todo s u = b # bs"
    and acc: "reads_or_writes f a" "writes_to f b" by (auto simp: racing_def)
  note D = holds_okD [OF ok]
  from D(1) [of t] tu(2) acc(1) k obtain y where "(y, k) \<in> set (held t)" by (cases a) auto
  moreover from D(1) [of u] tu(3) acc(2) k have "(True, k) \<in> set (held u)" by (cases b) auto
  ultimately have "has_lock t y (locks s k)" "has_lock u True (locks s k)" by (simp_all add: D(3))
  with D(5) [of k] tu(1) show False by (cases y) (auto simp: has_lock_def lock_ok_def)
qed

subsection \<open>Concrete threads\<close>

definition run_by :: "(tid \<times> lock_act list) list \<Rightarrow> aid set \<Rightarrow> lock_sys" where
  "run_by ops C = \<lparr>locks = (\<lambda>_. new_rwmutex), todo = (\<lambda>t. case map_of ops t of None \<Rightarrow> [] | Some op \<Rightarrow> op),
     consoles = C, printed = (\<lambda>_. [])\<rparr>"

lemma run_by_start:
  assumes "\<And>t op. (t, op) \<in> set ops \<Longrightarrow> config_op root op"
  shows "lock_start root (run_by ops C)"
proof -
  have "finite {t. todo (run_by ops C) t \<noteq> []}"
    by (rule finite_subset [of _ "fst ` set ops"]) (auto simp: run_by_def split: option.splits dest!: map_of_SomeD intro: rev_image_eqI)
  moreover have "\<exists>xs. (\<forall>op \<in> set xs. config_op root op) \<and> todo (run_by ops C) t = concat xs" for t
  proof (cases "map_of ops t")
    case None
    then show ?thesis by (intro exI [of _ "[]"]) (simp add: run_by_def)
  next
    case (Some op)
    with assms [OF map_of_SomeD [OF Some]] show ?thesis by (intro exI [of _ "[op]"]) (simp add: run_by_def)
  qed
  ultimately show ?thesis by (simp add: lock_start_def) (simp add: run_by_def)
qed

text \<open>
  Two threads: one loads a document whose entry changes \<open>logs\<close>, with the listener reconfiguring a
  logger, the other logs through the root logger.
\<close>

definition new_logs :: "lock_act list list" where
  "new_logs = listener_acts 0 [\<lparr>cr_log = None, cr_fresh = False, cr_logger = 5, cr_pattern = Some ([], [(9, False)]),
     cr_appenders = [(10, True, None)]\<rparr>] []"

definition two_threads :: lock_sys where
  "two_threads = run_by
     [(1, LoadFromYaml_acts 0 [] [setValue_acts ''logs'' (Some (new_logs, True))]),
      (2, Logger_log_acts 0 5 (ToRoot (Some [(Filed True ''text'', 9)])))] {}"

lemma two_threads_start: "lock_start 0 two_threads"
proof -
  have "var_op 0 (setValue_acts ''logs'' (Some (new_logs, True)))"
    by (rule var_op.intros(2)) (auto simp: new_logs_def intro: listener_is_log_ops)
  then show ?thesis
    unfolding two_threads_def by (intro run_by_start) (auto intro: config_op.intros log_op.intros)
qed


subsection \<open>Races on the members without a guard\<close>

text \<open>The threads named in the list make a step each, in this order.\<close>

fun steps_of :: "tid list \<Rightarrow> lock_sys \<Rightarrow> lock_sys option" where
  "steps_of [] s = Some s"
| "steps_of (t # ts) s =
     (case todo s t of
        [] \<Rightarrow> None
      | a # rest \<Rightarrow> (case act_on a t s of Inl _ \<Rightarrow> None | Inr s' \<Rightarrow> steps_of ts (s'\<lparr>todo := (todo s)(t := rest)\<rparr>)))"

lemma steps_reach: "steps_of ts s = Some s' \<Longrightarrow> lock_step\<^sup>*\<^sup>* s s'"
  by (induction ts s rule: steps_of.induct)
    (auto split: list.splits sum.splits intro: converse_rtranclp_into_rtranclp lock_step.act)

lemma races_after:
  assumes "config_op root x" "config_op root y" "steps_of ts (run_by [(1, x), (2, y)] {}) = Some s" "racing f s"
  shows "\<exists>s0 s. lock_start root s0 \<and> lock_step\<^sup>*\<^sup>* s0 s \<and> racing f s"
proof -
  have "lock_start root (run_by [(1, x), (2, y)] {})" by (rule run_by_start) (use assms(1,2) in auto)
  with steps_reach [OF assms(3)] assms(4) show ?thesis by blast
qed

lemma racing_two:
  "todo s 1 = a # as \<Longrightarrow> todo s 2 = b # bs \<Longrightarrow> reads_or_writes f a \<Longrightarrow> writes_to f b \<Longrightarrow> racing f s"
  unfolding racing_def by (intro exI [of _ 1] exI [of _ 2]) auto

lemmas step_simps = run_by_def critical_def on_lock_def rw_wrlock_def new_rwmutex_def

text \<open>
  Levels are set without a lock; the others are written under a lock that another thread need not take:
  \<open>has_formatter\<close> is read by the logger, \<open>m_last_time\<close> is changed by each logger that has the
  appender, and \<open>key\<close> belongs to all variables of a type.
\<close>

lemma unguarded_race:
  assumes "guard_of f = None"
  shows "\<exists>s0 s. lock_start root s0 \<and> lock_step\<^sup>*\<^sup>* s0 s \<and> racing f s"
proof -
  note ops = config_op.intros(5,6) log_op.intros var_op.intros
  note go = races_after [OF ops(2) ops(2)] races_after [OF ops(1) ops(1)]
  show ?thesis
  proof (cases f)
    case (LoggerLevel l)
    show ?thesis
      by (rule go(1) [of root "setLevel_acts l" "setLevel_acts l" "[]"])
        (rule ops | simp add: LoggerLevel run_by_def setLevel_acts_def racing_two)+
  next
    case (AppenderLevel a)
    show ?thesis
      by (rule go(1) [of root "app_setLevel_acts a" "app_setLevel_acts a" "[]"])
        (rule ops | simp add: AppenderLevel run_by_def app_setLevel_acts_def racing_two)+
  next
    case (HasFormatter a)
    show ?thesis
      by (rule go(1) [of root "setFormatter_ptr_acts 1 [(a, True)]" "app_setFormatter_acts [] a" "[1, 1, 1, 2, 2]"])
        (rule ops | simp add: HasFormatter step_simps setFormatter_ptr_acts_def inherit_acts_def
          app_setFormatter_acts_def racing_two)+
  next
    case (LastTime a)
    show ?thesis
      by (rule go(1) [of root "Logger_log_acts root 1 (ToAppenders [(Filed True [], a)])"
            "Logger_log_acts root 2 (ToAppenders [(Filed True [], a)])" "[1, 1, 1, 1, 2, 2, 2, 2, 2]"])
        (rule ops | simp add: LastTime step_simps Logger_log_acts_def appenders_log_acts_def appender_log_acts_def racing_two)+
  next
    case (KeyCounter ty)
    show ?thesis
      by (rule go(2) [of root "addListener_acts ty ''a''" "addListener_acts ty ''b''" "[1, 2, 2, 2]"])
        (rule ops | simp add: KeyCounter step_simps addListener_acts_def racing_two)+
  qed (use assms in auto)
qed


end
