(* ===== verification/LockRecords.thy ===== *)
theory LockRecords
  imports LockOrder
begin

section \<open>Whole records\<close>

text \<open>
  An appender prints a record under its mutex. What reaches a stream that belongs to one appender is
  therefore a sequence of whole records, each thread's in its order. Appenders of the console have a mutex
  each and share \<open>std::cout\<close>, where their records may be torn.
\<close>

text \<open>
  The records that a sequence of actions prints with the appender \<open>a\<close>, after the characters \<open>p\<close> of
  the first one: a record ends where the appender's mutex is released.
\<close>

fun records :: "aid \<Rightarrow> string \<Rightarrow> lock_act list \<Rightarrow> string list" where
  "records a p [] = []"
| "records a p (Print b c # acts) = records a (if b = a then p @ [c] else p) acts"
| "records a p (Rel k # acts) =
     (if k = AppenderLock a \<and> p \<noteq> [] then p # records a [] acts else records a p acts)"
| "records a p (Acq k # acts) = records a p acts"
| "records a p (AcqRead k # acts) = records a p acts"
| "records a p (Get f # acts) = records a p acts"
| "records a p (Put f # acts) = records a p acts"
| "records a p (Cout c # acts) = records a p acts"

subsection \<open>The records of the operations\<close>

lemma records_print: "records a p (map (Print b) msg @ acts) = records a (if b = a then p @ msg else p) acts"
  by (induction msg arbitrary: p) auto

definition view_text :: "app_view \<Rightarrow> string" where
  "view_text v = (case v of Refused \<Rightarrow> [] | Printed msg \<Rightarrow> msg | Filed reopens msg \<Rightarrow> msg)"

lemma records_appender:
  "records a [] (appender_log_acts v b @ acts) =
   (if b = a \<and> view_text v \<noteq> [] then [view_text v] else []) @ records a [] acts"
  by (cases v) (auto simp: appender_log_acts_def critical_def view_text_def records_print)

text \<open>A log operation prints one record with each appender that its view lets print one.\<close>

lemma records_appenders:
  "records a [] (appenders_log_acts views @ acts) =
   concat (map (\<lambda>(v, b). if b = a \<and> view_text v \<noteq> [] then [view_text v] else []) views) @ records a [] acts"
  by (induction views) (auto simp: appenders_log_acts_def records_appender)

lemma records_log:
  "records a [] (Logger_log_acts root l (ToAppenders views) @ acts) =
   concat (map (\<lambda>(v, b). if b = a \<and> view_text v \<noteq> [] then [view_text v] else []) views) @ records a [] acts"
  by (simp add: Logger_log_acts_def critical_def records_appenders)

subsection \<open>Streams of one appender\<close>

definition holds_app :: "aid \<Rightarrow> held_locks \<Rightarrow> bool" where
  "holds_app a held \<longleftrightarrow> (True, AppenderLock a) \<in> set held"

text \<open>
  What was printed: the records that are complete, with the thread of each, and the part of the record of
  the thread that has the mutex. With what the threads are still to do it makes up what they set out to do.
\<close>

definition prints_ok ::
  "aid \<Rightarrow> (tid \<Rightarrow> string list) \<Rightarrow> (tid \<Rightarrow> held_locks) \<Rightarrow> (tid \<times> string) list \<Rightarrow> string \<Rightarrow> lock_sys \<Rightarrow> bool" where
  "prints_ok a plan held order part s \<longleftrightarrow>
     printed s (sink_of (consoles s) a) = concat (map snd order) @ part \<and>
     (\<forall>t. map snd (filter (\<lambda>r. fst r = t) order) @ records a (if holds_app a (held t) then part else []) (todo s t)
        = plan t) \<and>
     (part \<noteq> [] \<longrightarrow> (\<exists>t. holds_app a (held t)))"

lemma one_holder:
  assumes ok: "holds_ok root s held" and "holds_app a (held t)" "(y, AppenderLock a) \<in> set (held u)"
  shows "u = t"
proof -
  from holds_okD(3) [OF ok] assms(2,3) have "has_lock t True (locks s (AppenderLock a))"
    "has_lock u y (locks s (AppenderLock a))" by (simp_all add: holds_app_def)
  with holds_okD(5) [OF ok, of "AppenderLock a"] show ?thesis
    by (cases y) (auto simp: has_lock_def lock_ok_def)
qed

text \<open>A step that neither prints with the appender nor ends a record.\<close>

lemma prints_same:
  assumes pr: "prints_ok a plan held order part s" and todo: "todo s t = x # rest"
    and s1: "todo s1 = (todo s)(t := rest)" "consoles s1 = consoles s"
      "printed s1 (sink_of (consoles s) a) = printed s (sink_of (consoles s) a)"
    and rec: "records a (if holds_app a (held t) then part else []) (x # rest)
      = records a (if holds_app a h then part else []) rest"
    and keep: "part \<noteq> [] \<Longrightarrow> holds_app a h = holds_app a (held t)"
  shows "prints_ok a plan (held(t := h)) order part s1"
proof -
  have "map snd (filter (\<lambda>r. fst r = u) order) @
      records a (if holds_app a ((held(t := h)) u) then part else []) (todo s1 u) = plan u" for u
    using pr todo s1(1) rec by (cases "u = t") (auto simp: prints_ok_def dest: spec [of _ u])
  moreover have "part \<noteq> [] \<longrightarrow> (\<exists>u. holds_app a ((held(t := h)) u))"
    using pr keep unfolding prints_ok_def by (metis fun_upd_apply)
  ultimately show ?thesis using pr s1(2,3) by (simp add: prints_ok_def)
qed

lemma prints_step:
  assumes ok: "holds_ok root s held" and pr: "prints_ok a plan held order part s"
    and todo: "todo s t = x # rest" and act: "act_on x t s = Inr s'"
    and sole: "\<forall>b. sink_of (consoles s) b = sink_of (consoles s) a \<longrightarrow> b = a"
    and quiet: "\<forall>c. x = Cout c \<longrightarrow> sink_of (consoles s) a \<noteq> Console"
  shows "\<exists>order' part'. prints_ok a plan (held(t := hold_after x (held t))) order' part' (s'\<lparr>todo := (todo s)(t := rest)\<rparr>)"
proof -
  note D = holds_okD [OF ok]
  note same = prints_same [OF pr todo, of "s'\<lparr>todo := (todo s)(t := rest)\<rparr>"]
  from pr have out: "printed s (sink_of (consoles s) a) = concat (map snd order) @ part"
    and rec: "map snd (filter (\<lambda>r. fst r = u) order) @ records a (if holds_app a (held u) then part else []) (todo s u) = plan u"
    and hold: "part \<noteq> [] \<Longrightarrow> \<exists>u. holds_app a (held u)" for u
    by (auto simp: prints_ok_def)
  from D(1) [of t] todo have asc: "ascending root (held t) (x # rest)" by simp
  have alone: "\<not> holds_app a (held u)" if "holds_app a (held t)" "u \<noteq> t" for u
    using that one_holder [OF ok that(1), of True u] by (auto simp: holds_app_def)
  show ?thesis
  proof (cases x)
    case (Acq k)
    then obtain m where s': "s' = s\<lparr>locks := (locks s)(k := m)\<rparr>" "rw_wrlock t (locks s k) = Inr m"
      using act by (auto simp: on_lock_def rbind_eq_Inr)
    have free: "part = []" if "k = AppenderLock a"
    proof (rule ccontr)
      assume "part \<noteq> []"
      with hold obtain u where "holds_app a (held u)" by blast
      then have "has_lock u True (locks s k)" using that D(3) by (simp add: holds_app_def)
      with s'(2) show False by (simp add: has_lock_def rw_wrlock_def)
    qed
    have "prints_ok a plan (held(t := (True, k) # held t)) order part (s'\<lparr>todo := (todo s)(t := rest)\<rparr>)"
      by (rule same) (use free in \<open>auto simp: Acq s'(1) holds_app_def\<close>)
    with Acq show ?thesis by auto
  next
    case (AcqRead k)
    with act obtain m where s': "s' = s\<lparr>locks := (locks s)(k := m)\<rparr>" by (auto simp: on_lock_def rbind_eq_Inr)
    have "prints_ok a plan (held(t := (False, k) # held t)) order part (s'\<lparr>todo := (todo s)(t := rest)\<rparr>)"
      by (rule same) (auto simp: AcqRead s' holds_app_def)
    with AcqRead show ?thesis by auto
  next
    case (Rel k)
    with act obtain m where s': "s' = s\<lparr>locks := (locks s)(k := m)\<rparr>" by (auto simp: on_lock_def rbind_eq_Inr)
    from asc Rel obtain h hs where "held t = h # hs" "snd h = k" by (auto split: list.splits)
    then obtain y where hs: "held t = (y, k) # hs" by (cases h) simp
    from D(2) [of t] hs have no: "(z, k) \<notin> set hs" for z by (auto simp: image_iff)
    show ?thesis
    proof (cases "k = AppenderLock a \<and> y \<and> part \<noteq> []")
      case True
      then have h: "holds_app a (held t)" "\<not> holds_app a hs" using hs no by (auto simp: holds_app_def)
      have "map snd (filter (\<lambda>r. fst r = u) (order @ [(t, part)])) @ records a [] (((todo s)(t := rest)) u) = plan u" for u
        using rec [of u] True Rel todo h(1) alone [OF h(1), of u] by (cases "u = t") auto
      with out s' have "prints_ok a plan (held(t := hs)) (order @ [(t, part)]) [] (s'\<lparr>todo := (todo s)(t := rest)\<rparr>)"
        by (simp add: prints_ok_def)
      then show ?thesis using Rel hs by auto
    next
      case False
      have "prints_ok a plan (held(t := hs)) order part (s'\<lparr>todo := (todo s)(t := rest)\<rparr>)"
        by (rule same) (use False hs no in \<open>auto simp: Rel s' holds_app_def\<close>)
      then show ?thesis using Rel hs by auto
    qed
  next
    case (Print b c)
    then have s': "s' = put_char (sink_of (consoles s) b) c s" using act by simp
    show ?thesis
    proof (cases "b = a")
      case True
      with asc Print have h: "holds_app a (held t)" by (simp add: holds_app_def)
      have "map snd (filter (\<lambda>r. fst r = u) order) @
          records a (if holds_app a (held u) then part @ [c] else []) (((todo s)(t := rest)) u) = plan u" for u
        using rec [of u] True Print todo h alone [OF h, of u] by (cases "u = t") auto
      with out s' True h have "prints_ok a plan (held(t := held t)) order (part @ [c]) (s'\<lparr>todo := (todo s)(t := rest)\<rparr>)"
        by (auto simp: prints_ok_def)
      then show ?thesis using Print by auto
    next
      case False
      with sole have "sink_of (consoles s) b \<noteq> sink_of (consoles s) a" by blast
      then have "prints_ok a plan (held(t := held t)) order part (s'\<lparr>todo := (todo s)(t := rest)\<rparr>)"
        by (intro same) (auto simp: Print s' False)
      then show ?thesis using Print by auto
    qed
  next
    case (Cout c)
    then have "prints_ok a plan (held(t := held t)) order part (s'\<lparr>todo := (todo s)(t := rest)\<rparr>)"
      using act quiet by (intro same) auto
    then show ?thesis using Cout by auto
  next
    case (Get f)
    then have "prints_ok a plan (held(t := held t)) order part (s'\<lparr>todo := (todo s)(t := rest)\<rparr>)"
      using act by (intro same) auto
    then show ?thesis using Get by auto
  next
    case (Put f)
    then have "prints_ok a plan (held(t := held t)) order part (s'\<lparr>todo := (todo s)(t := rest)\<rparr>)"
      using act by (intro same) auto
    then show ?thesis using Put by auto
  qed
qed

lemma prints_reach:
  assumes "lock_step\<^sup>*\<^sup>* s s'" "holds_ok root s held" "prints_ok a plan held order part s"
    and sole: "\<forall>b. sink_of (consoles s) b = sink_of (consoles s) a \<longrightarrow> b = a"
    and quiet: "\<forall>t c. Cout c \<in> set (todo s t) \<longrightarrow> sink_of (consoles s) a \<noteq> Console"
  shows "\<exists>held order part. holds_ok root s' held \<and> prints_ok a plan held order part s' \<and> consoles s' = consoles s"
  using assms
proof (induction arbitrary: held order part rule: converse_rtranclp_induct)
  case (step s s1)
  from step.hyps(1) obtain t x rest s2 where t: "todo s t = x # rest" "act_on x t s = Inr s2"
    and s1: "s1 = s2\<lparr>todo := (todo s)(t := rest)\<rparr>" by (auto elim: lock_step.cases)
  have C: "consoles s1 = consoles s" using t(2) s1 by (cases x) (auto simp: on_lock_def rbind_eq_Inr)
  have q: "\<forall>c. x = Cout c \<longrightarrow> sink_of (consoles s) a \<noteq> Console" using step.prems(4) t(1) by (metis list.set_intros(1))
  from prints_step [OF step.prems(1,2) t step.prems(3) q] step_keeps_holds [OF step.prems(1) t]
  obtain h order1 part1 where "holds_ok root s1 h" "prints_ok a plan h order1 part1 s1" unfolding s1 by blast
  moreover have "\<forall>u c. Cout c \<in> set (todo s1 u) \<longrightarrow> Cout c \<in> set (todo s u)"
    using t(1) s1 by auto
  ultimately show ?case
    using step.IH [of h order1 part1] step.prems(3,4) C by auto
qed blast

lemma whole_records:
  assumes "lock_start root s0" "lock_step\<^sup>*\<^sup>* s0 s" "all_done s"
    and sole: "\<forall>b. sink_of (consoles s0) b = sink_of (consoles s0) a \<longrightarrow> b = a"
    and quiet: "\<forall>t c. Cout c \<in> set (todo s0 t) \<longrightarrow> sink_of (consoles s0) a \<noteq> Console"
  shows "\<exists>order. printed s (sink_of (consoles s0) a) = concat (map snd order) \<and>
    (\<forall>t. map snd (filter (\<lambda>r. fst r = t) order) = records a [] (todo s0 t))"
proof -
  have "prints_ok a (\<lambda>t. records a [] (todo s0 t)) (\<lambda>_. []) [] [] s0"
    using assms(1) by (simp add: prints_ok_def lock_start_def)
  from prints_reach [OF assms(2) start_holds [OF assms(1)] this sole quiet] obtain held order part where
    ok: "holds_ok root s held" and pr: "prints_ok a (\<lambda>t. records a [] (todo s0 t)) held order part s"
    and C: "consoles s = consoles s0" by blast
  have "held t = []" for t
    using holds_okD(1) [OF ok, of t] assms(3) by (simp add: all_done_def)
  with pr have "part = []" by (auto simp: prints_ok_def holds_app_def)
  with pr C assms(3) show ?thesis by (intro exI [of _ order]) (auto simp: prints_ok_def all_done_def)
qed


text \<open>Two threads that log through different loggers, each with an appender of the console.\<close>

definition two_consoles :: lock_sys where
  "two_consoles = run_by
     [(1, Logger_log_acts 0 5 (ToAppenders [(Printed ''ab'', 8)])),
      (2, Logger_log_acts 0 6 (ToAppenders [(Printed ''cd'', 9)]))] {8, 9}"

definition shared_file :: lock_sys where
  "shared_file = run_by
     [(1, Logger_log_acts 0 5 (ToAppenders [(Filed True ''ab'', 8)])),
      (2, Logger_log_acts 0 6 (ToAppenders [(Filed False ''cd'', 8), (Printed ''cd'', 9)]))] {9}"

lemma shared_file_start: "lock_start 0 shared_file" "lock_start 0 two_consoles"
  unfolding shared_file_def two_consoles_def
  by (intro run_by_start; auto intro: config_op.intros(6) log_op.intros(2))+


text \<open>Appenders of the console have a mutex each: their records may be torn.\<close>

lemma console_records_torn:
  "\<exists>s. lock_step\<^sup>*\<^sup>* two_consoles s \<and> all_done s \<and> printed s Console = ''acbd''"
proof -
  let ?ts = "replicate 7 1 @ replicate 7 2 @ replicate 3 1 @ replicate 3 2 :: tid list"
  have "\<exists>s. steps_of ?ts two_consoles = Some s \<and> all_done s \<and> printed s Console = ''acbd''"
    by (simp add: two_consoles_def step_simps Logger_log_acts_def appenders_log_acts_def appender_log_acts_def
        eval_nat_numeral sink_of_def rw_unlock_def all_done_def fun_eq_iff)
  with steps_reach show ?thesis by blast
qed

end
