(* ===== verification/LockViews.thy ===== *)
theory LockViews
  imports LockRecords LoggerThms
begin

section \<open>Actions and data\<close>

text \<open>
  What \<open>Logger::log\<close> reads in a state of the loggers decides its actions. They print what the function
  of \<open>Logger\<close> on the data prints, and with the interleaving of threads this says what many threads
  that log leave on a stream.
\<close>

text \<open>What \<open>log\<close> of an appender, and of a logger, reads.\<close>

definition app_text :: "env \<Rightarrow> string option \<Rightarrow> level \<Rightarrow> log_event \<Rightarrow> appender \<Rightarrow> string" where
  "app_text env lname level ev ap = (case app_format env lname level ev ap of Inr s \<Rightarrow> s | Inl _ \<Rightarrow> [])"

definition app_view_of :: "env \<Rightarrow> string option \<Rightarrow> level \<Rightarrow> log_event \<Rightarrow> appender \<Rightarrow> app_view" where
  "app_view_of env lname level ev ap =
     (if level \<ge> a_level ap then
        (case a_file ap of
           None \<Rightarrow> Printed (app_text env lname level ev ap)
         | Some fp \<Rightarrow> Filed (clock env \<noteq> m_last_time fp) (app_text env lname level ev ap))
      else Refused)"

definition app_views_of :: "env \<Rightarrow> level \<Rightarrow> log_event \<Rightarrow> log_sys \<Rightarrow> aid list \<Rightarrow> (app_view \<times> aid) list" where
  "app_views_of env level ev st as = map (\<lambda>a.
     (case appenders st a of None \<Rightarrow> Refused | Some ap \<Rightarrow> app_view_of env (event_lname ev st) level ev ap, a)) as"

definition log_view_of :: "env \<Rightarrow> lid \<Rightarrow> level \<Rightarrow> log_event \<Rightarrow> log_sys \<Rightarrow> log_view" where
  "log_view_of env l level ev st =
     (case loggers st l of
        None \<Rightarrow> Below
      | Some lg \<Rightarrow>
          if level \<ge> l_level lg then
            if l_appenders lg \<noteq> [] then ToAppenders (app_views_of env level ev st (l_appenders lg))
            else (case l_root lg of
                    None \<Rightarrow> NoRoot
                  | Some r \<Rightarrow> ToRoot (case loggers st r of
                        None \<Rightarrow> None
                      | Some rt \<Rightarrow> if level \<ge> l_level rt then Some (app_views_of env level ev st (l_appenders rt)) else None))
          else Below)"

text \<open>The actions of a call of \<open>Logger::log\<close>.\<close>

definition log_acts :: "env \<Rightarrow> log_sys \<Rightarrow> lid \<times> level \<times> log_event \<Rightarrow> lock_act list" where
  "log_acts env st = (\<lambda>(l, level, ev). Logger_log_acts (m_root st) l (log_view_of env l level ev st))"

subsection \<open>One thread\<close>

text \<open>The characters that a sequence of actions puts on the console.\<close>

fun console_chars :: "aid set \<Rightarrow> lock_act list \<Rightarrow> string" where
  "console_chars C [] = []"
| "console_chars C (x # acts) = (case x of
     Print a c \<Rightarrow> if a \<in> C then [c] else [] | Cout c \<Rightarrow> [c] | _ \<Rightarrow> []) @ console_chars C acts"

lemma console_chars_append [simp]: "console_chars C (xs @ ys) = console_chars C xs @ console_chars C ys"
  by (induction xs) auto

lemma console_chars_print [simp]:
  "console_chars C (map (Print a) msg) = (if a \<in> C then msg else [])" "console_chars C (map Cout msg) = msg"
  by (induction msg) auto

lemma console_chars_guard [simp]: "console_chars C (critical k body) = console_chars C body"
  by (simp add: critical_def)

lemma console_chars_appenders:
  "console_chars C (appenders_log_acts views) = concat (map (\<lambda>(v, a). if a \<in> C then view_text v else []) views)"
proof -
  have "console_chars C (appender_log_acts v a) = (if a \<in> C then view_text v else [])" for v a
    by (cases v) (auto simp: appender_log_acts_def view_text_def)
  then show ?thesis by (induction views) (auto simp: appenders_log_acts_def)
qed

definition consoles_of :: "log_sys \<Rightarrow> aid set" where
  "consoles_of st = {a. \<exists>ap. appenders st a = Some ap \<and> a_file ap = None}"

lemma frame_at: "log_frame st st' \<Longrightarrow> rel_option same_config (appenders st a) (appenders st' a)"
  by (simp add: log_frame_def)

lemma consoles_of_frame: "log_frame st st' \<Longrightarrow> consoles_of st' = consoles_of st"
proof (rule set_eqI)
  fix a
  assume "log_frame st st'"
  from frame_at [OF this, of a] show "a \<in> consoles_of st' \<longleftrightarrow> a \<in> consoles_of st"
    by (cases "appenders st a"; cases "appenders st' a") (auto simp: consoles_of_def same_config_def)
qed

text \<open>The text that an event gets from an appender of a state.\<close>

definition text_at :: "env \<Rightarrow> level \<Rightarrow> log_event \<Rightarrow> log_sys \<Rightarrow> aid \<Rightarrow> string" where
  "text_at env level ev st a =
     (case appenders st a of None \<Rightarrow> [] | Some ap \<Rightarrow> view_text (app_view_of env (event_lname ev st) level ev ap))"

lemma text_at_view:
  "text_at env level ev st a = view_text (case appenders st a of None \<Rightarrow> Refused
     | Some ap \<Rightarrow> app_view_of env (event_lname ev st) level ev ap)"
  by (simp add: text_at_def view_text_def split: option.split)

lemma view_text_same: "same_config ap ap' \<Longrightarrow>
    view_text (app_view_of env n level ev ap') = view_text (app_view_of env n level ev ap)"
  by (auto simp: same_config_def app_view_of_def view_text_def app_text_def app_format_def split: option.splits)

lemma text_at_frame: "log_frame st st' \<Longrightarrow> text_at env level ev st' a = text_at env level ev st a"
  using frame_at [of st st' a] view_text_same
  by (cases "appenders st a"; cases "appenders st' a") (auto simp: text_at_def log_frame_def event_lname_def)

definition console_at :: "env \<Rightarrow> level \<Rightarrow> log_event \<Rightarrow> log_sys \<Rightarrow> aid \<Rightarrow> string" where
  "console_at env level ev st a = (if a \<in> consoles_of st then text_at env level ev st a else [])"

lemma console_at_frame: "log_frame st st' \<Longrightarrow> console_at env level ev st' = console_at env level ev st"
  by (rule ext) (simp add: console_at_def consoles_of_frame text_at_frame)

lemma cout_log_to:
  assumes "log_to env level ev a st = Inr st'"
  shows "cout st' = cout st @ console_at env level ev st a"
proof -
  from assms obtain ap s fs' ap' where ap: "appenders st a = Some ap"
    and log: "appender_log env (event_lname ev st) level ev ap (fsys_of st) = Inr (s, fs', ap')"
    and st': "st' = put_appender a ap' (print s st\<lparr>fsys_of := fs'\<rparr>)"
    by (auto simp: log_to_def with_appender_def rbind_eq_Inr split: option.splits)
  have "s = (if a_file ap = None then view_text (app_view_of env (event_lname ev st) level ev ap) else [])"
    using log by (auto simp: appender_log_def stdout_log_def app_view_of_def view_text_def app_text_def rbind_eq_Inr
        split: option.splits if_splits)
  with ap st' show ?thesis by (auto simp: console_at_def consoles_of_def text_at_def put_appender_def print_def)
qed

lemma cout_log_list:
  "rfold (log_to env level ev) as st = Inr st' \<Longrightarrow>
   cout st' = cout st @ concat (map (console_at env level ev st) as)"
proof (induction "as" arbitrary: st)
  case (Cons a "as")
  then obtain st1 where st1: "log_to env level ev a st = Inr st1" "rfold (log_to env level ev) as st1 = Inr st'"
    by (auto simp: rbind_eq_Inr)
  note fr = log_to_frame [OF st1(1)]
  from Cons.IH [OF st1(2)] cout_log_to [OF st1(1)] show ?case
    by (simp add: console_at_frame [OF fr])
qed simp

lemma views_chars:
  "console_chars (consoles_of st) (appenders_log_acts (app_views_of env level ev st as)) =
   concat (map (console_at env level ev st) as)"
  by (simp add: console_chars_appenders app_views_of_def comp_def, rule arg_cong [where f = concat], rule map_cong)
    (simp_all add: console_at_def text_at_view)

text \<open>
  A call of \<open>Logger::log\<close> puts on the console what its actions print, where the loggers satisfy their
  invariant.
\<close>

lemma log_acts_print:
  assumes wf: "wf_sys st" and run: "logger_log env l level ev st = Some (Inr st')"
  shows "cout st' = cout st @ console_chars (consoles_of st) (log_acts env st (l, level, ev))"
proof -
  from run obtain lg where lg: "loggers st l = Some lg" by (subst (asm) logger_log.simps) (auto split: option.splits)
  from wf obtain rt where rt: "loggers st (m_root st) = Some rt" "l_root rt = None" by (auto simp: wf_sys_def)
  show ?thesis
  proof (cases "level \<ge> l_level lg")
    case False
    with run lg show ?thesis by (subst (asm) logger_log.simps) (simp add: log_acts_def log_view_of_def Logger_log_acts_def)
  next
    case True
    show ?thesis
    proof (cases "l_appenders lg = []")
      case False
      with True run lg have "rfold (log_to env level ev) (l_appenders lg) st = Inr st'"
        by (subst (asm) logger_log.simps) simp
      from cout_log_list [OF this] False True lg show ?thesis
        by (simp add: log_acts_def log_view_of_def Logger_log_acts_def views_chars)
    next
      case empty: True
      show ?thesis
      proof (cases "l_root lg")
        case None
        with True run lg empty show ?thesis
          by (subst (asm) logger_log.simps) (simp add: log_acts_def log_view_of_def Logger_log_acts_def)
      next
        case (Some r)
        with wf_loggerD [OF wf lg] have r: "r = m_root st" by (simp add: wf_logger_def)
        with rt Some lg have neq: "l \<noteq> m_root st" by auto
        from True run lg empty Some r have "logger_log env (m_root st) level ev st = Some (Inr st')"
          by (subst (asm) logger_log.simps) simp
        then have "if level \<ge> l_level rt \<and> l_appenders rt \<noteq> [] then rfold (log_to env level ev) (l_appenders rt) st = Inr st'
            else st' = st"
          using rt by (subst (asm) logger_log.simps) (auto split: if_splits)
        with cout_log_list [of env level ev "l_appenders rt" st st'] True lg empty Some r rt neq show ?thesis
          by (auto simp: log_acts_def log_view_of_def Logger_log_acts_def views_chars split: if_splits)
      qed
    qed
  qed
qed

subsection \<open>Many threads\<close>

text \<open>
  Whether a file appender reopens its file depends on the clock and on the calls before it. A view that
  differs from another in this only is as good.
\<close>

definition reopening :: "app_view \<Rightarrow> app_view" where
  "reopening v = (case v of Filed r msg \<Rightarrow> Filed True msg | _ \<Rightarrow> v)"

definition same_prints :: "log_view \<Rightarrow> log_view \<Rightarrow> bool" where
  "same_prints v w \<longleftrightarrow>
     (let f = map (map_prod reopening id) in
      case (v, w) of
        (ToAppenders vs, ToAppenders ws) \<Rightarrow> f vs = f ws
      | (ToRoot (Some vs), ToRoot (Some ws)) \<Rightarrow> f vs = f ws
      | _ \<Rightarrow> v = w)"

text \<open>The appenders a call of \<open>Logger::log\<close> gets to, and the records that one of them prints.\<close>

definition reached :: "log_sys \<Rightarrow> lid \<Rightarrow> level \<Rightarrow> aid list" where
  "reached st l level =
     (case loggers st l of
        None \<Rightarrow> []
      | Some lg \<Rightarrow>
          if level \<ge> l_level lg then
            if l_appenders lg \<noteq> [] then l_appenders lg
            else (case l_root lg of
                    None \<Rightarrow> []
                  | Some r \<Rightarrow> (case loggers st r of None \<Rightarrow> [] | Some rt \<Rightarrow> if level \<ge> l_level rt then l_appenders rt else []))
          else [])"

record log_call =
  lc_env :: env
  lc_logger :: lid
  lc_level :: level
  lc_event :: log_event

definition lines_at :: "log_sys \<Rightarrow> aid \<Rightarrow> log_call \<Rightarrow> string list" where
  "lines_at st a c =
     filter (\<lambda>s. s \<noteq> []) (map (text_at (lc_env c) (lc_level c) (lc_event c) st)
       (filter (\<lambda>b. b = a) (reached st (lc_logger c) (lc_level c))))"

text \<open>A call and what it reads, and the actions of it.\<close>

definition call_view :: "log_sys \<Rightarrow> log_call \<times> log_view \<Rightarrow> bool" where
  "call_view st p \<longleftrightarrow> same_prints (snd p)
     (log_view_of (lc_env (fst p)) (lc_logger (fst p)) (lc_level (fst p)) (lc_event (fst p)) st)"

definition call_acts :: "log_sys \<Rightarrow> log_call \<times> log_view \<Rightarrow> lock_act list" where
  "call_acts st p = Logger_log_acts (m_root st) (lc_logger (fst p)) (snd p)"

definition view_lines :: "aid \<Rightarrow> (app_view \<times> aid) list \<Rightarrow> string list" where
  "view_lines a views = concat (map (\<lambda>(v, b). if b = a \<and> view_text v \<noteq> [] then [view_text v] else []) views)"

lemma view_text_reopening: "view_text (reopening v) = view_text v"
  by (cases v) (simp_all add: reopening_def view_text_def)

lemma view_lines_reopening: "view_lines a (map (map_prod reopening id) views) = view_lines a views"
  by (induction views) (auto simp: view_lines_def view_text_reopening)

lemma same_view_lines: "map (map_prod reopening id) vs = map (map_prod reopening id) ws \<Longrightarrow> view_lines a vs = view_lines a ws"
  using view_lines_reopening [of a vs] view_lines_reopening [of a ws] by simp

lemma view_lines_of:
  "view_lines a (app_views_of env level ev st as) =
   filter (\<lambda>s. s \<noteq> []) (map (text_at env level ev st) (filter (\<lambda>b. b = a) as))"
proof (induction "as")
  case (Cons b "as")
  then show ?case by (simp add: app_views_of_def view_lines_def text_at_view)
qed (simp add: app_views_of_def view_lines_def)

definition view_records :: "aid \<Rightarrow> lid \<Rightarrow> lid \<Rightarrow> log_view \<Rightarrow> string list" where
  "view_records a root l view =
     (case view of
        ToAppenders views \<Rightarrow> view_lines a views
      | ToRoot (Some views) \<Rightarrow> if l = root then [] else view_lines a views
      | _ \<Rightarrow> [])"

lemma records_view: "records a [] (Logger_log_acts root l view @ acts) = view_records a root l view @ records a [] acts"
  by (auto simp: Logger_log_acts_def critical_def records_appenders view_lines_def view_records_def
      split: log_view.split option.split)

lemma same_view_records:
  assumes "same_prints v w"
  shows "view_records a root l v = view_records a root l w"
proof (cases v)
  case (ToAppenders vs)
  with assms show ?thesis
    by (cases w) (auto simp: same_prints_def view_records_def Let_def dest: same_view_lines [of _ _ a])
next
  case (ToRoot rv)
  show ?thesis
  proof (cases rv)
    case None
    with assms ToRoot show ?thesis by (simp add: same_prints_def)
  next
    case (Some vs)
    with assms ToRoot obtain ws where "w = ToRoot (Some ws)" "map (map_prod reopening id) vs = map (map_prod reopening id) ws"
      by (cases w) (auto simp: same_prints_def Let_def split: option.splits)
    with Some ToRoot same_view_lines [of vs ws a] show ?thesis by (simp add: view_records_def)
  qed
qed (use assms in \<open>auto simp: same_prints_def\<close>)

lemma view_records_of:
  assumes "wf_sys st"
  shows "view_records a (m_root st) (lc_logger c) (log_view_of (lc_env c) (lc_logger c) (lc_level c) (lc_event c) st) =
    lines_at st a c"
proof (cases "loggers st (lc_logger c)")
  case None
  then show ?thesis by (simp add: log_view_of_def lines_at_def reached_def view_records_def)
next
  case (Some lg)
  then have "l_root lg \<noteq> None \<Longrightarrow> lc_logger c \<noteq> m_root st" using assms by (auto simp: wf_sys_def)
  with Some show ?thesis
    by (cases "l_root lg")
      (auto simp: log_view_of_def lines_at_def reached_def view_records_def view_lines_of split: option.split)
qed

lemma call_records:
  assumes "wf_sys st" and "call_view st p"
  shows "records a [] (call_acts st p @ acts) = lines_at st a (fst p) @ records a [] acts"
proof -
  have "view_records a (m_root st) (lc_logger (fst p)) (snd p) = lines_at st a (fst p)"
    using same_view_records assms(2) view_records_of [OF assms(1)] unfolding call_view_def by metis
  then show ?thesis by (simp add: call_acts_def records_view)
qed

lemma thread_records:
  assumes wf: "wf_sys st" and v: "\<forall>p \<in> set calls. call_view st p"
  shows "records a [] (concat (map (call_acts st) calls)) = concat (map (\<lambda>p. lines_at st a (fst p)) calls)"
  using v by (induction calls) (simp_all add: call_records [OF wf])

lemma no_complaints: "Cout c \<notin> set (call_acts st p)"
  by (auto simp: call_acts_def Logger_log_acts_def appenders_log_acts_def appender_log_acts_def critical_def
      split: log_view.splits option.splits app_view.splits)

text \<open>Finitely many threads that each make some calls.\<close>

definition logging_sys :: "log_sys \<Rightarrow> (tid \<Rightarrow> (log_call \<times> log_view) list) \<Rightarrow> lock_sys" where
  "logging_sys st calls = \<lparr>locks = (\<lambda>_. new_rwmutex), todo = (\<lambda>t. concat (map (call_acts st) (calls t))),
     consoles = consoles_of st, printed = (\<lambda>_. [])\<rparr>"

lemma logging_start:
  assumes "finite {t. calls t \<noteq> []}"
  shows "lock_start (m_root st) (logging_sys st calls)"
proof -
  have "finite {t. todo (logging_sys st calls) t \<noteq> []}"
    by (rule finite_subset [OF _ assms]) (auto simp: logging_sys_def)
  moreover have "config_op (m_root st) (call_acts st p)" for p
    by (auto simp: call_acts_def intro: config_op.intros log_op.intros)
  then have "\<exists>ops. (\<forall>op \<in> set ops. config_op (m_root st) op) \<and> todo (logging_sys st calls) t = concat ops" for t
    by (intro exI [of _ "map (call_acts st) (calls t)"]) (auto simp: logging_sys_def)
  ultimately show ?thesis by (simp add: lock_start_def) (simp add: logging_sys_def)
qed


text \<open>Two threads that log at the root logger, the first one two records of which one is below the level.\<close>

definition demo_call :: "level \<Rightarrow> string \<Rightarrow> log_call \<times> log_view" where
  "demo_call level msg =
     (let c = \<lparr>lc_env = env_at 1 True, lc_logger = 0, lc_level = level, lc_event = msg_event msg\<rparr>
      in (c, log_view_of (lc_env c) (lc_logger c) (lc_level c) (lc_event c) demo_sys))"

definition demo_calls :: "tid \<Rightarrow> (log_call \<times> log_view) list" where
  "demo_calls = (\<lambda>_. [])(1 := [demo_call DEBUG ''low'', demo_call WARN ''ab''], 2 := [demo_call WARN ''cd''])"

lemma demo_call_view: "call_view demo_sys (demo_call level msg)"
  by (simp add: call_view_def demo_call_def Let_def same_prints_def split: log_view.split option.split)

lemma demo_lines:
  "lines_at demo_sys 0 (fst (demo_call WARN ''ab'')) = [''ab'']"
  "lines_at demo_sys 0 (fst (demo_call WARN ''cd'')) = [''cd'']"
  "lines_at demo_sys 0 (fst (demo_call DEBUG ''low'')) = []"
  by code_simp+


end
