(* ===== verification/Thread.thy ===== *)
theory Thread
  imports Sync
begin

section \<open>Threads\<close>

text \<open>
  \<open>Thread\<close> of \<open>include/thread.hpp\<close> and \<open>src/thread.cpp\<close>: the constructor that
  waits on the object's semaphore until \<open>Thread::run\<close> has registered the new thread, the thread-local
  pointer and name, \<open>join\<close> and the destructor. Objects are named by addresses, operating system
  threads by their handles (0 is the null handle); \<open>ktid\<close> gives the kernel's id of a thread. The
  function a thread runs is a number; what it does is its own affair, apart from \<open>SetName\<close>.
\<close>

type_synonym addr = nat
type_synonym handle = nat

text \<open>\<open>cb.swap(thread->m_cb)\<close> leaves the object's function empty.\<close>

record thread_obj =
  th_id :: int
  th_handle :: handle
  th_cb :: "nat option"
  th_name :: string
  th_sem :: nat

text \<open>
  Where \<open>Thread::run\<close> stands: before it registered itself, before it took the function, before it
  notified the constructor, in the function, returned.
\<close>

datatype run_pc = RunEntry addr | RunTake addr | RunNotify addr nat | RunCall nat | RunDone

datatype join_state = Joinable | Joined | Detached

record os_thread =
  t_thread :: "addr option"
  t_thread_name :: string
  t_kernel_name :: string
  t_pc :: run_pc
  t_join :: join_state

text \<open>Constructors that are past \<open>pthread_create\<close> and not past the semaphore, and finished ones.\<close>

record thread_sys =
  objs :: "addr \<Rightarrow> thread_obj option"
  oss :: "handle \<Rightarrow> os_thread option"
  waiting :: "addr set"
  constructed :: "addr set"

subsection \<open>The constructor\<close>

definition Thread_init :: "nat \<Rightarrow> string \<Rightarrow> thread_obj" where
  "Thread_init cb name = \<lparr>th_id = - 1, th_handle = 0, th_cb = Some cb,
     th_name = (if name = [] then ''UNKNOWN'' else name), th_sem = 0\<rparr>"

text \<open>A thread that has just been created, with the initial values of the thread-local variables.\<close>

definition new_os_thread :: "addr \<Rightarrow> os_thread" where
  "new_os_thread p = \<lparr>t_thread = None, t_thread_name = ''UNKNOWN'', t_kernel_name = [],
     t_pc = RunEntry p, t_join = Joinable\<rparr>"

text \<open>
  The constructor up to the wait: \<open>rt\<close> is the result of \<open>pthread_create\<close>, \<open>h\<close> the
  handle it stores. A constructor that throws leaves no object.
\<close>

definition Thread_create :: "int \<Rightarrow> handle \<Rightarrow> addr \<Rightarrow> nat \<Rightarrow> string \<Rightarrow> thread_sys \<Rightarrow> thread_sys result" where
  "Thread_create rt h p cb name s =
     (if rt \<noteq> 0 then Inl (StdException ''pthread_create error!'')
      else Inr (s\<lparr>objs := (objs s)(p \<mapsto> (Thread_init cb name)\<lparr>th_handle := h\<rparr>),
                  oss := (oss s)(h \<mapsto> new_os_thread p), waiting := insert p (waiting s)\<rparr>))"

definition with_obj :: "addr \<Rightarrow> thread_sys \<Rightarrow> (thread_obj \<Rightarrow> 'a result) \<Rightarrow> 'a result" where
  "with_obj p s k = (case objs s p of None \<Rightarrow> Inl (Undefined ''dead thread object'') | Some th \<Rightarrow> k th)"

definition Thread_wait :: "addr \<Rightarrow> thread_sys \<Rightarrow> thread_sys result" where
  "Thread_wait p s =
     with_obj p s (\<lambda>th.
       rbind (Semaphore_wait False (th_sem th)) (\<lambda>v.
         Inr (s\<lparr>objs := (objs s)(p \<mapsto> th\<lparr>th_sem := v\<rparr>), waiting := waiting s - {p},
                constructed := insert p (constructed s)\<rparr>)))"

subsection \<open>Thread::run\<close>

definition set_os :: "handle \<Rightarrow> os_thread \<Rightarrow> thread_sys \<Rightarrow> thread_sys" where
  "set_os h t s = s\<lparr>oss := (oss s)(h \<mapsto> t)\<rparr>"

definition set_obj :: "addr \<Rightarrow> thread_obj \<Rightarrow> thread_sys \<Rightarrow> thread_sys" where
  "set_obj p th s = s\<lparr>objs := (objs s)(p \<mapsto> th)\<rparr>"

text \<open>One step of the thread \<open>h\<close>; the function's own body is one step.\<close>

definition run_step :: "nat \<Rightarrow> (handle \<Rightarrow> int) \<Rightarrow> handle \<Rightarrow> os_thread \<Rightarrow> thread_sys \<Rightarrow> thread_sys result" where
  "run_step sem_max ktid h t s =
     (case t_pc t of
        RunEntry p \<Rightarrow>
          with_obj p s (\<lambda>th.
            rbind (substr (th_name th) 0 15) (\<lambda>kn.
              Inr (set_obj p (th\<lparr>th_id := ktid h\<rparr>)
                (set_os h (t\<lparr>t_thread := Some p, t_thread_name := th_name th, t_kernel_name := kn,
                             t_pc := RunTake p\<rparr>) s))))
      | RunTake p \<Rightarrow>
          with_obj p s (\<lambda>th.
            case th_cb th of
              None \<Rightarrow> Inl (StdException ''bad_function_call'')
            | Some cb \<Rightarrow> Inr (set_obj p (th\<lparr>th_cb := None\<rparr>) (set_os h (t\<lparr>t_pc := RunNotify p cb\<rparr>) s)))
      | RunNotify p cb \<Rightarrow>
          with_obj p s (\<lambda>th.
            rbind (Semaphore_notify sem_max (th_sem th)) (\<lambda>v.
              Inr (set_obj p (th\<lparr>th_sem := v\<rparr>) (set_os h (t\<lparr>t_pc := RunCall cb\<rparr>) s))))
      | RunCall cb \<Rightarrow> Inr (set_os h (t\<lparr>t_pc := RunDone\<rparr>) s)
      | RunDone \<Rightarrow> Inr s)"

subsection \<open>The static functions, called by a thread\<close>

definition Thread_GetThis :: "os_thread \<Rightarrow> addr option" where
  "Thread_GetThis t = t_thread t"

definition Thread_GetName :: "os_thread \<Rightarrow> string" where
  "Thread_GetName t = t_thread_name t"

definition Thread_getID :: "thread_obj \<Rightarrow> int" where
  "Thread_getID th = th_id th"

definition Thread_getName :: "thread_obj \<Rightarrow> string" where
  "Thread_getName th = th_name th"

definition Thread_SetName :: "handle \<Rightarrow> string \<Rightarrow> os_thread \<Rightarrow> thread_sys \<Rightarrow> thread_sys result" where
  "Thread_SetName h name t s =
     rbind (case t_thread t of
              None \<Rightarrow> Inr s
            | Some p \<Rightarrow> with_obj p s (\<lambda>th. Inr (set_obj p (th\<lparr>th_name := name\<rparr>) s))) (\<lambda>s.
       Inr (set_os h (t\<lparr>t_thread_name := name\<rparr>) s))"

subsection \<open>join and the destructor\<close>

text \<open>
  \<open>pthread_join\<close> and \<open>pthread_detach\<close> of a handle whose thread was joined or detached have
  no defined behaviour; joining waits for the thread to return.
\<close>

definition Thread_join :: "addr \<Rightarrow> thread_sys \<Rightarrow> thread_sys result" where
  "Thread_join p s =
     with_obj p s (\<lambda>th.
       if th_handle th \<noteq> 0 then
         (case oss s (th_handle th) of
            None \<Rightarrow> Inl (Undefined ''pthread_join'')
          | Some t \<Rightarrow>
              if t_join t \<noteq> Joinable then Inl (Undefined ''pthread_join'')
              else if t_pc t \<noteq> RunDone then Inl (Blocked ''pthread_join'')
              else Inr (set_os (th_handle th) (t\<lparr>t_join := Joined\<rparr>) s))
       else Inr s)"

definition Thread_dtor :: "addr \<Rightarrow> thread_sys \<Rightarrow> thread_sys result" where
  "Thread_dtor p s =
     with_obj p s (\<lambda>th.
       rbind (if th_handle th \<noteq> 0 then
                (case oss s (th_handle th) of
                   None \<Rightarrow> Inl (Undefined ''pthread_detach'')
                 | Some t \<Rightarrow>
                     if t_join t \<noteq> Joinable then Inl (Undefined ''pthread_detach'')
                     else Inr (set_os (th_handle th) (t\<lparr>t_join := Detached\<rparr>) s))
              else Inr s) (\<lambda>s.
         Inr (s\<lparr>objs := (objs s)(p := None), constructed := constructed s - {p}\<rparr>)))"

subsection \<open>Executions\<close>

text \<open>
  Threads are created at fresh addresses with fresh handles; only finished constructors leave an
  object that can be joined or destroyed. \<open>SetName\<close> is called from within a thread's function.
\<close>

inductive thr_step :: "nat \<Rightarrow> (handle \<Rightarrow> int) \<Rightarrow> thread_sys \<Rightarrow> thread_sys \<Rightarrow> bool"
  for sem_max :: nat and ktid :: "handle \<Rightarrow> int" where
  ctor_create: "objs s p = None \<Longrightarrow> p \<notin> waiting s \<Longrightarrow> oss s h = None \<Longrightarrow> h \<noteq> 0
     \<Longrightarrow> (\<forall>k t. oss s k = Some t \<longrightarrow> t_thread t \<noteq> Some p)
     \<Longrightarrow> Thread_create 0 h p cb name s = Inr s' \<Longrightarrow> thr_step sem_max ktid s s'"
| ctor_wait: "p \<in> waiting s \<Longrightarrow> Thread_wait p s = Inr s' \<Longrightarrow> thr_step sem_max ktid s s'"
| run: "oss s h = Some t \<Longrightarrow> run_step sem_max ktid h t s = Inr s' \<Longrightarrow> thr_step sem_max ktid s s'"
| set_name: "oss s h = Some t \<Longrightarrow> t_pc t = RunCall cb \<Longrightarrow> Thread_SetName h name t s = Inr s'
     \<Longrightarrow> thr_step sem_max ktid s s'"
| thr_join: "p \<in> constructed s \<Longrightarrow> Thread_join p s = Inr s' \<Longrightarrow> thr_step sem_max ktid s s'"
| thr_dtor: "p \<in> constructed s \<Longrightarrow> Thread_dtor p s = Inr s' \<Longrightarrow> thr_step sem_max ktid s s'"

inductive thr_reach :: "nat \<Rightarrow> (handle \<Rightarrow> int) \<Rightarrow> thread_sys \<Rightarrow> bool"
  for sem_max :: nat and ktid :: "handle \<Rightarrow> int" where
  thr_start: "thr_reach sem_max ktid \<lparr>objs = (\<lambda>_. None), oss = (\<lambda>_. None), waiting = {}, constructed = {}\<rparr>"
| thr_next: "thr_reach sem_max ktid s \<Longrightarrow> thr_step sem_max ktid s s' \<Longrightarrow> thr_reach sem_max ktid s'"

end
