(* ===== verification/ThreadProps.thy ===== *)
theory ThreadProps
  imports Thread
begin

section \<open>The handshake of a thread's constructor\<close>

text \<open>
  The invariant of all executions, what a returned constructor guarantees, that a constructor can
  always return, and what joining does to the destructor.
\<close>

subsection \<open>The invariant\<close>

text \<open>The object a thread is going to use in \<open>Thread::run\<close>.\<close>

fun uses :: "run_pc \<Rightarrow> addr option" where
  "uses (RunEntry p) = Some p"
| "uses (RunTake p) = Some p"
| "uses (RunNotify p cb) = Some p"
| "uses (RunCall cb) = None"
| "uses RunDone = None"

definition registered :: "(handle \<Rightarrow> int) \<Rightarrow> addr \<Rightarrow> thread_obj \<Rightarrow> os_thread \<Rightarrow> bool" where
  "registered ktid p th t \<longleftrightarrow>
     t_thread t = Some p \<and> th_id th = ktid (th_handle th) \<and> th_name th = t_thread_name t"

definition in_step :: "(handle \<Rightarrow> int) \<Rightarrow> addr set \<Rightarrow> addr \<Rightarrow> thread_obj \<Rightarrow> os_thread \<Rightarrow> bool" where
  "in_step ktid W p th t \<longleftrightarrow>
     (case t_pc t of
        RunEntry q \<Rightarrow> q = p \<and> p \<in> W \<and> th_cb th \<noteq> None \<and> th_sem th = 0 \<and> t_thread t = None
      | RunTake q \<Rightarrow> q = p \<and> p \<in> W \<and> th_cb th \<noteq> None \<and> th_sem th = 0 \<and> registered ktid p th t
      | RunNotify q cb \<Rightarrow> q = p \<and> p \<in> W \<and> th_cb th = None \<and> th_sem th = 0 \<and> registered ktid p th t
      | _ \<Rightarrow> th_cb th = None \<and> registered ktid p th t \<and> th_sem th = (if p \<in> W then 1 else 0))"

text \<open>The thread \<open>h\<close> uses and points to no living object but its own.\<close>

definition own_object :: "thread_sys \<Rightarrow> handle \<Rightarrow> os_thread \<Rightarrow> bool" where
  "own_object s h t \<longleftrightarrow>
     (\<forall>p. uses (t_pc t) = Some p \<longrightarrow> objs s p \<noteq> None) \<and>
     (\<forall>p th. objs s p = Some th \<longrightarrow> (uses (t_pc t) = Some p \<or> t_thread t = Some p) \<longrightarrow> th_handle th = h)"

definition thr_inv :: "(handle \<Rightarrow> int) \<Rightarrow> thread_sys \<Rightarrow> bool" where
  "thr_inv ktid s \<longleftrightarrow>
     (\<forall>p. objs s p \<noteq> None \<longleftrightarrow> p \<in> waiting s \<or> p \<in> constructed s) \<and> waiting s \<inter> constructed s = {} \<and>
     (\<forall>p th. objs s p = Some th \<longrightarrow> th_handle th \<noteq> 0 \<and>
        (\<exists>t. oss s (th_handle th) = Some t \<and> in_step ktid (waiting s) p th t)) \<and>
     (\<forall>h t. oss s h = Some t \<longrightarrow> own_object s h t) \<and>
     (\<forall>p q th th'. objs s p = Some th \<longrightarrow> objs s q = Some th' \<longrightarrow> th_handle th = th_handle th' \<longrightarrow> p = q)"

lemma thr_invD:
  assumes "thr_inv ktid s"
  shows "objs s p \<noteq> None \<longleftrightarrow> p \<in> waiting s \<or> p \<in> constructed s"
    and "objs s p = Some th \<Longrightarrow> th_handle th \<noteq> 0"
    and "objs s p = Some th \<Longrightarrow> \<exists>t. oss s (th_handle th) = Some t \<and> in_step ktid (waiting s) p th t"
    and "oss s h = Some t \<Longrightarrow> own_object s h t"
    and "objs s p = Some th \<Longrightarrow> objs s q = Some th' \<Longrightarrow> th_handle th = th_handle th' \<Longrightarrow> p = q"
    and "waiting s \<inter> constructed s = {}"
  using assms unfolding thr_inv_def by blast+

lemma in_step_other: "p \<noteq> q \<Longrightarrow> in_step ktid (insert q W) p th t = in_step ktid W p th t"
  "p \<noteq> q \<Longrightarrow> in_step ktid (W - {q}) p th t = in_step ktid W p th t"
  by (auto simp: in_step_def split: run_pc.splits)

text \<open>A step of a thread and its object.\<close>

lemma thr_inv_update:
  assumes inv: "thr_inv ktid s" and p: "objs s p = Some th"
    and th': "th_handle th' = th_handle th"
    and W: "W = waiting s \<or> W = waiting s - {p}"
    and C: "constructed s' = (if p \<in> W then constructed s - {p} else insert p (constructed s))"
    and ok: "in_step ktid W p th' t'" and t': "t_thread t' = None \<or> t_thread t' = Some p"
      "uses (t_pc t') = None \<or> uses (t_pc t') = Some p"
    and s': "objs s' = (objs s)(p \<mapsto> th')" "oss s' = (oss s)(th_handle th \<mapsto> t')" "waiting s' = W"
  shows "thr_inv ktid s'"
  unfolding thr_inv_def
proof (intro conjI allI impI)
  note D = thr_invD [OF inv]
  show "objs s' q \<noteq> None \<longleftrightarrow> q \<in> waiting s' \<or> q \<in> constructed s'" for q
    using D(1) [of q] D(1) [of p] p W C s' by auto
  show "waiting s' \<inter> constructed s' = {}"
    using D(6) W C s' by auto
  show "th_handle u \<noteq> 0" if "objs s' q = Some u" for q u
    using that D(2) p th' s' by (auto split: if_splits)
  show "\<exists>t. oss s' (th_handle u) = Some t \<and> in_step ktid (waiting s') q u t" if q: "objs s' q = Some u" for q u
  proof (cases "q = p")
    case True
    with q s' th' ok show ?thesis by auto
  next
    case False
    with q s' have u: "objs s q = Some u" by simp
    with D(5) [OF p u] False have "th_handle u \<noteq> th_handle th" by auto
    with D(3) [OF u] s' W in_step_other(2) [OF False] show ?thesis by auto
  qed
  show "own_object s' h t" if h: "oss s' h = Some t" for h t
  proof (cases "h = th_handle th")
    case True
    with h s' have "t = t'" by simp
    with True t' s' th' show ?thesis by (auto simp: own_object_def)
  next
    case False
    with h s' have "own_object s h t" using D(4) by simp
    with False s' p th' show ?thesis by (auto simp: own_object_def)
  qed
  show "q = r" if "objs s' q = Some u" "objs s' r = Some v" "th_handle u = th_handle v" for q r u v
    using that s' th' p D(5) by (auto split: if_splits)
qed

text \<open>A step of a thread whose object is gone, or that has no object.\<close>

lemma thr_inv_os:
  assumes inv: "thr_inv ktid s" and none: "\<And>p th. objs s p = Some th \<Longrightarrow> th_handle th \<noteq> h"
    and t: "oss s h = Some t" and t': "t_thread t' = t_thread t" "uses (t_pc t') = None"
    and s': "objs s' = objs s" "oss s' = (oss s)(h \<mapsto> t')" "waiting s' = waiting s" "constructed s' = constructed s"
  shows "thr_inv ktid s'"
proof -
  note D = thr_invD [OF inv]
  have "own_object s' h t'"
    using D(4) [OF t] t' s' by (auto simp: own_object_def)
  moreover have "own_object s' k u" if "k \<noteq> h" "oss s' k = Some u" for k u
    using D(4) [of k u] that s' by (simp add: own_object_def)
  ultimately have "\<forall>k u. oss s' k = Some u \<longrightarrow> own_object s' k u" using s' by auto
  moreover have "\<forall>p th. objs s' p = Some th \<longrightarrow> th_handle th \<noteq> 0 \<and>
        (\<exists>t. oss s' (th_handle th) = Some t \<and> in_step ktid (waiting s') p th t)"
    using D(2,3) none s' by auto
  ultimately show ?thesis
    using inv s' unfolding thr_inv_def by auto
qed

lemma thr_inv_create:
  assumes inv: "thr_inv ktid s" and fresh: "objs s p = None" "oss s h = None" "h \<noteq> 0"
    and unused: "\<forall>k t. oss s k = Some t \<longrightarrow> t_thread t \<noteq> Some p"
    and run: "Thread_create 0 h p cb name s = Inr s'"
  shows "thr_inv ktid s'"
proof -
  note D = thr_invD [OF inv]
  from run have s': "objs s' = (objs s)(p \<mapsto> (Thread_init cb name)\<lparr>th_handle := h\<rparr>)"
    "oss s' = (oss s)(h \<mapsto> new_os_thread p)" "waiting s' = insert p (waiting s)" "constructed s' = constructed s"
    by (auto simp: Thread_create_def)
  have notin: "p \<notin> waiting s" "p \<notin> constructed s" using D(1) [of p] fresh by auto
  have handles: "th_handle u \<noteq> h" if "objs s q = Some u" for q u
    using D(3) [OF that] fresh by auto
  show ?thesis
    unfolding thr_inv_def
  proof (intro conjI allI impI)
    show "objs s' q \<noteq> None \<longleftrightarrow> q \<in> waiting s' \<or> q \<in> constructed s'" for q
      using D(1) [of q] s' by auto
    show "waiting s' \<inter> constructed s' = {}" using D(6) notin s' by auto
    show "th_handle u \<noteq> 0" if "objs s' q = Some u" for q u
      using that D(2) fresh s' by (auto split: if_splits)
    show "\<exists>t. oss s' (th_handle u) = Some t \<and> in_step ktid (waiting s') q u t" if "objs s' q = Some u" for q u
    proof (cases "q = p")
      case True
      with that s' show ?thesis by (auto simp: in_step_def new_os_thread_def Thread_init_def)
    next
      case False
      with that s' have "objs s q = Some u" by simp
      with D(3) [of q u] handles [of q u] s' in_step_other(1) [OF False] show ?thesis by auto
    qed
    show "own_object s' k t" if "oss s' k = Some t" for k t
    proof (cases "k = h")
      case True
      with that s' handles show ?thesis by (auto simp: own_object_def new_os_thread_def)
    next
      case False
      with that s' have k: "oss s k = Some t" by simp
      with D(4) [OF k] unused fresh s' show ?thesis by (auto simp: own_object_def)
    qed
    show "q = r" if "objs s' q = Some u" "objs s' r = Some v" "th_handle u = th_handle v" for q r u v
      using that s' handles [of q u] handles [of r v] D(5) by (auto split: if_splits)
  qed
qed

lemma thr_inv_destroy:
  assumes inv: "thr_inv ktid s" and p: "objs s p = Some th" "p \<in> constructed s"
    and t: "oss s (th_handle th) = Some t" and t': "t_thread t' = t_thread t" "t_pc t' = t_pc t"
    and s': "objs s' = (objs s)(p := None)" "oss s' = (oss s)(th_handle th \<mapsto> t')"
      "waiting s' = waiting s" "constructed s' = constructed s - {p}"
  shows "thr_inv ktid s'"
proof -
  note D = thr_invD [OF inv]
  have notw: "p \<notin> waiting s" using D(6) p(2) by auto
  have pc: "uses (t_pc t) = None"
    using D(3) [OF p(1)] t notw by (auto simp: in_step_def split: run_pc.splits)
  have other: "uses (t_pc u) \<noteq> Some p" if k: "oss s k = Some u" for k u
  proof
    assume u: "uses (t_pc u) = Some p"
    with D(4) [OF k] p have "th_handle th = k" by (auto simp: own_object_def)
    with k t u pc show False by simp
  qed
  show ?thesis
    unfolding thr_inv_def
  proof (intro conjI allI impI)
    show "objs s' q \<noteq> None \<longleftrightarrow> q \<in> waiting s' \<or> q \<in> constructed s'" for q
      using D(1) [of q] s' notw by auto
    show "waiting s' \<inter> constructed s' = {}" using D(6) s' by auto
    show "th_handle u \<noteq> 0" if "objs s' q = Some u" for q u
      using that D(2) s' by (auto split: if_splits)
    show "\<exists>t. oss s' (th_handle u) = Some t \<and> in_step ktid (waiting s') q u t" if q: "objs s' q = Some u" for q u
    proof -
      from q s' have u: "objs s q = Some u" and "q \<noteq> p" by (auto split: if_splits)
      with D(5) [OF p(1) u] have "th_handle u \<noteq> th_handle th" by auto
      with D(3) [OF u] s' show ?thesis by auto
    qed
    show "own_object s' k u" if "oss s' k = Some u" for k u
    proof (cases "k = th_handle th")
      case True
      with that s' have "u = t'" by simp
      with True D(4) [OF t] t' pc s' show ?thesis by (auto simp: own_object_def)
    next
      case False
      with that s' have k: "oss s k = Some u" by simp
      from D(4) [OF k] other [OF k] s' show ?thesis by (auto simp: own_object_def)
    qed
    show "q = r" if "objs s' q = Some u" "objs s' r = Some v" "th_handle u = th_handle v" for q r u v
      using that s' D(5) by (auto split: if_splits)
  qed
qed

subsection \<open>Every step keeps the invariant\<close>

lemma with_obj_Inr: "with_obj p s k = Inr r \<longleftrightarrow> (\<exists>th. objs s p = Some th \<and> k th = Inr r)"
  by (auto simp: with_obj_def split: option.splits)

lemma set_frame [simp]:
  "objs (set_os h t s) = objs s" "oss (set_os h t s) = (oss s)(h \<mapsto> t)"
  "waiting (set_os h t s) = waiting s" "constructed (set_os h t s) = constructed s"
  "objs (set_obj p th s) = (objs s)(p \<mapsto> th)" "oss (set_obj p th s) = oss s"
  "waiting (set_obj p th s) = waiting s" "constructed (set_obj p th s) = constructed s"
  by (simp_all add: set_os_def set_obj_def)

text \<open>A thread that uses an object is the object's own, and the constructor is still waiting.\<close>

lemma uses_own:
  assumes "thr_inv ktid s" and "oss s h = Some t" and "uses (t_pc t) = Some p"
  obtains th where "objs s p = Some th" and "th_handle th = h" and "in_step ktid (waiting s) p th t"
    and "p \<in> waiting s"
proof -
  note D = thr_invD [OF assms(1)]
  from D(4) [OF assms(2)] assms(3) obtain th where th: "objs s p = Some th" "th_handle th = h"
    by (auto simp: own_object_def)
  with D(3) [OF th(1)] assms(2) have ok: "in_step ktid (waiting s) p th t" by auto
  with assms(3) have "p \<in> waiting s" by (auto simp: in_step_def split: run_pc.splits)
  with th ok that show ?thesis by blast
qed

lemma run_step_inv:
  assumes inv: "thr_inv ktid s" and t: "oss s h = Some t" and run: "run_step mx ktid h t s = Inr s'"
  shows "thr_inv ktid s'"
proof (cases "uses (t_pc t)")
  case None
  note D = thr_invD [OF inv]
  show ?thesis
  proof (cases "\<exists>p th. objs s p = Some th \<and> th_handle th = h")
    case False
    with None run t show ?thesis
      by (cases "t_pc t") (auto simp: run_step_def intro!: thr_inv_os [OF inv _ t, of "t\<lparr>t_pc := RunDone\<rparr>"] inv)
  next
    case True
    then obtain p th where p: "objs s p = Some th" "th_handle th = h" by blast
    from D(3) [OF p(1)] p t have ok: "in_step ktid (waiting s) p th t" by auto
    have C: "constructed s = (if p \<in> waiting s then constructed s - {p} else insert p (constructed s))"
      using D(1) [of p] D(6) p by auto
    from None consider "t_pc t = RunDone" | cb where "t_pc t = RunCall cb" by (cases "t_pc t") auto
    then show ?thesis
    proof cases
      case 1
      with run inv show ?thesis by (simp add: run_step_def)
    next
      case 2
      with run have s': "s' = set_os h (t\<lparr>t_pc := RunDone\<rparr>) s" by (simp add: run_step_def)
      show ?thesis
        by (rule thr_inv_update [OF inv p(1), of th "waiting s" _ "t\<lparr>t_pc := RunDone\<rparr>"])
          (use ok 2 p s' C in \<open>auto simp: in_step_def registered_def fun_upd_idem\<close>)
    qed
  qed
next
  case (Some p)
  note D = thr_invD [OF inv]
  obtain th where th: "objs s p = Some th" "th_handle th = h" and ok: "in_step ktid (waiting s) p th t"
    and p: "p \<in> waiting s" by (rule uses_own [OF inv t Some])
  have C: "constructed s = constructed s - {p}" using D(6) p by auto
  from Some consider "t_pc t = RunEntry p" | "t_pc t = RunTake p" | cb where "t_pc t = RunNotify p cb"
    by (cases "t_pc t") auto
  then show ?thesis
  proof cases
    case 1
    with run th obtain kn where s': "s' = set_obj p (th\<lparr>th_id := ktid h\<rparr>)
        (set_os h (t\<lparr>t_thread := Some p, t_thread_name := th_name th, t_kernel_name := kn, t_pc := RunTake p\<rparr>) s)"
      by (auto simp: run_step_def with_obj_Inr result_simps)
    show ?thesis
      by (rule thr_inv_update [OF inv th(1), of "th\<lparr>th_id := ktid h\<rparr>" "waiting s" _
            "t\<lparr>t_thread := Some p, t_thread_name := th_name th, t_kernel_name := kn, t_pc := RunTake p\<rparr>"])
        (use ok 1 th p C s' in \<open>auto simp: in_step_def registered_def\<close>)
  next
    case 2
    with run th obtain cb where s': "s' = set_obj p (th\<lparr>th_cb := None\<rparr>) (set_os h (t\<lparr>t_pc := RunNotify p cb\<rparr>) s)"
      by (auto simp: run_step_def with_obj_Inr split: option.splits)
    show ?thesis
      by (rule thr_inv_update [OF inv th(1), of "th\<lparr>th_cb := None\<rparr>" "waiting s" _ "t\<lparr>t_pc := RunNotify p cb\<rparr>"])
        (use ok 2 th p C s' in \<open>auto simp: in_step_def registered_def\<close>)
  next
    case 3
    with run th ok obtain v where v: "v = 1" and s': "s' = set_obj p (th\<lparr>th_sem := v\<rparr>) (set_os h (t\<lparr>t_pc := RunCall cb\<rparr>) s)"
      by (auto simp: run_step_def with_obj_Inr result_simps Semaphore_notify_def in_step_def split: if_splits)
    show ?thesis
      by (rule thr_inv_update [OF inv th(1), of "th\<lparr>th_sem := v\<rparr>" "waiting s" _ "t\<lparr>t_pc := RunCall cb\<rparr>"])
        (use ok 3 th p C s' v in \<open>auto simp: in_step_def registered_def\<close>)
  qed
qed

lemma set_name_inv:
  assumes inv: "thr_inv ktid s" and t: "oss s h = Some t" and pc: "t_pc t = RunCall cb"
    and run: "Thread_SetName h name t s = Inr s'"
  shows "thr_inv ktid s'"
proof -
  note D = thr_invD [OF inv]
  let ?t = "t\<lparr>t_thread_name := name\<rparr>"
  show ?thesis
  proof (cases "t_thread t")
    case None
    with run have s': "s' = set_os h ?t s" by (simp add: Thread_SetName_def)
    have "th_handle th \<noteq> h" if "objs s p = Some th" for p th
      using D(3) [OF that] t None pc by (auto simp: in_step_def registered_def)
    then show ?thesis
      by (rule thr_inv_os [OF inv _ t, of ?t]) (use s' pc in auto)
  next
    case (Some p)
    with run obtain th where p: "objs s p = Some th"
      and s': "s' = set_os h ?t (set_obj p (th\<lparr>th_name := name\<rparr>) s)"
      by (auto simp: Thread_SetName_def with_obj_Inr result_simps)
    have h: "th_handle th = h" using D(4) [OF t] p Some by (auto simp: own_object_def)
    with D(3) [OF p] t have ok: "in_step ktid (waiting s) p th t" by auto
    have C: "constructed s = (if p \<in> waiting s then constructed s - {p} else insert p (constructed s))"
      using D(1) [of p] D(6) p by auto
    show ?thesis
      by (rule thr_inv_update [OF inv p, of "th\<lparr>th_name := name\<rparr>" "waiting s" _ ?t])
        (use ok pc p h s' C Some in \<open>auto simp: in_step_def registered_def\<close>)
  qed
qed

lemma wait_inv:
  assumes inv: "thr_inv ktid s" and p: "p \<in> waiting s" and run: "Thread_wait p s = Inr s'"
  shows "thr_inv ktid s'"
proof -
  note D = thr_invD [OF inv]
  from run obtain th v where th: "objs s p = Some th" and v: "Semaphore_wait False (th_sem th) = Inr v"
    and s': "s' = s\<lparr>objs := (objs s)(p \<mapsto> th\<lparr>th_sem := v\<rparr>), waiting := waiting s - {p},
                constructed := insert p (constructed s)\<rparr>"
    by (auto simp: Thread_wait_def with_obj_Inr result_simps)
  from D(3) [OF th] obtain t where t: "oss s (th_handle th) = Some t" and ok: "in_step ktid (waiting s) p th t" by blast
  have "th_sem th \<noteq> 0" using v by (auto simp: Semaphore_wait_def split: if_splits)
  with ok p have pc: "th_sem th = 1" "uses (t_pc t) = None" "registered ktid p th t" "th_cb th = None"
    by (auto simp: in_step_def split: run_pc.splits)
  then have "v = 0" using v by (simp add: Semaphore_wait_def)
  show ?thesis
    by (rule thr_inv_update [OF inv th, of "th\<lparr>th_sem := v\<rparr>" "waiting s - {p}" _ t])
      (use pc t s' \<open>v = 0\<close> in \<open>auto simp: in_step_def registered_def fun_upd_idem split: run_pc.splits\<close>)
qed

lemma join_inv:
  assumes inv: "thr_inv ktid s" and run: "Thread_join p s = Inr s'"
  shows "thr_inv ktid s'"
proof -
  note D = thr_invD [OF inv]
  from run obtain th where p: "objs s p = Some th" by (auto simp: Thread_join_def with_obj_Inr)
  from D(3) [OF p] D(2) [OF p] obtain t where t: "oss s (th_handle th) = Some t" "th_handle th \<noteq> 0"
    and ok: "in_step ktid (waiting s) p th t" by blast
  with run p have s': "s' = set_os (th_handle th) (t\<lparr>t_join := Joined\<rparr>) s" and pc: "t_pc t = RunDone"
    by (auto simp: Thread_join_def with_obj_def split: if_splits)
  have C: "constructed s = (if p \<in> waiting s then constructed s - {p} else insert p (constructed s))"
    using D(1) [of p] D(6) p by auto
  show ?thesis
    by (rule thr_inv_update [OF inv p, of th "waiting s" _ "t\<lparr>t_join := Joined\<rparr>"])
      (use ok pc p s' C in \<open>auto simp: in_step_def registered_def fun_upd_idem\<close>)
qed

lemma dtor_inv:
  assumes inv: "thr_inv ktid s" and p: "p \<in> constructed s" and run: "Thread_dtor p s = Inr s'"
  shows "thr_inv ktid s'"
proof -
  note D = thr_invD [OF inv]
  from run obtain th where th: "objs s p = Some th" by (auto simp: Thread_dtor_def with_obj_Inr)
  from D(3) [OF th] D(2) [OF th] obtain t where t: "oss s (th_handle th) = Some t" "th_handle th \<noteq> 0" by blast
  with run th have s': "s' = (set_os (th_handle th) (t\<lparr>t_join := Detached\<rparr>) s)
      \<lparr>objs := (objs s)(p := None), constructed := constructed s - {p}\<rparr>"
    by (auto simp: Thread_dtor_def with_obj_def split: if_splits)
  show ?thesis
    by (rule thr_inv_destroy [OF inv th p t(1), of "t\<lparr>t_join := Detached\<rparr>"]) (use s' in auto)
qed

lemma thr_reach_inv: "thr_reach mx ktid s \<Longrightarrow> thr_inv ktid s"
proof (induction rule: thr_reach.induct)
  case thr_start
  then show ?case by (simp add: thr_inv_def)
next
  case (thr_next s s')
  from thr_next(2,3) show ?case
    by (cases rule: thr_step.cases)
      (blast intro: thr_inv_create wait_inv run_step_inv set_name_inv join_inv dtor_inv)+
qed

subsection \<open>Progress\<close>

lemma run_step_total:
  assumes inv: "thr_inv ktid s" and t: "oss s h = Some t" and "0 < mx"
  shows "\<exists>s'. run_step mx ktid h t s = Inr s'"
proof (cases "uses (t_pc t)")
  case None
  then show ?thesis by (cases "t_pc t") (auto simp: run_step_def)
next
  case (Some p)
  obtain th where th: "objs s p = Some th" and ok: "in_step ktid (waiting s) p th t"
    by (rule uses_own [OF inv t Some])
  have "\<exists>kn. substr (th_name th) 0 15 = Inr kn" by (rule substr_total) simp_all
  with Some th ok \<open>0 < mx\<close> show ?thesis
    by (cases "t_pc t") (auto simp: run_step_def with_obj_def in_step_def Semaphore_notify_def)
qed

text \<open>How many steps of its own a thread is away from the function it runs.\<close>

fun distance :: "run_pc \<Rightarrow> nat" where
  "distance (RunEntry p) = 3"
| "distance (RunTake p) = 2"
| "distance (RunNotify p cb) = 1"
| "distance _ = 0"

lemma run_step_closer:
  assumes "uses (t_pc t) = Some p" and "run_step mx ktid h t s = Inr s'"
  shows "\<exists>t'. oss s' h = Some t' \<and> Suc (distance (t_pc t')) = distance (t_pc t)"
  using assms
  by (cases "t_pc t") (auto simp: run_step_def with_obj_Inr result_simps split: option.splits)

lemma run_step_keeps_waiting: "run_step mx ktid h t s = Inr s' \<Longrightarrow> waiting s' = waiting s"
  by (auto simp: run_step_def with_obj_Inr result_simps split: run_pc.splits option.splits)

lemma run_step_handle:
  assumes "run_step mx ktid h t s = Inr s'" and "objs s p = Some th"
  shows "\<exists>th'. objs s' p = Some th' \<and> th_handle th' = th_handle th"
  using assms by (auto simp: run_step_def with_obj_Inr result_simps split: run_pc.splits option.splits)

lemma waiting_can_return:
  assumes "0 < mx"
  shows "thr_inv ktid s \<Longrightarrow> p \<in> waiting s \<Longrightarrow> objs s p = Some th \<Longrightarrow> oss s (th_handle th) = Some t
     \<Longrightarrow> distance (t_pc t) = n
     \<Longrightarrow> \<exists>s'. (thr_step mx ktid)\<^sup>*\<^sup>* s s' \<and> p \<in> constructed s'"
proof (induction n arbitrary: s th t)
  case 0
  note D = thr_invD [OF 0(1)]
  from D(3) [OF 0(3)] 0(4) have ok: "in_step ktid (waiting s) p th t" by simp
  with 0(2,5) have "th_sem th = 1" by (cases "t_pc t") (auto simp: in_step_def)
  then have "\<exists>s'. Thread_wait p s = Inr s' \<and> p \<in> constructed s'"
    using 0(3) by (auto simp: Thread_wait_def with_obj_def Semaphore_wait_def)
  then show ?case using thr_step.ctor_wait [OF 0(2)] by blast
next
  case (Suc n)
  note D = thr_invD [OF Suc.prems(1)]
  from D(3) [OF Suc.prems(3)] Suc.prems(4) have ok: "in_step ktid (waiting s) p th t" by simp
  with Suc.prems(5) have uses: "uses (t_pc t) = Some p" by (cases "t_pc t") (auto simp: in_step_def)
  obtain s1 where run: "run_step mx ktid (th_handle th) t s = Inr s1"
    using run_step_total [OF Suc.prems(1,4) assms] by blast
  obtain t1 where t1: "oss s1 (th_handle th) = Some t1" "distance (t_pc t1) = n"
    using run_step_closer [OF uses run] Suc.prems(5) by auto
  obtain th1 where th1: "objs s1 p = Some th1" "th_handle th1 = th_handle th"
    using run_step_handle [OF run Suc.prems(3)] by blast
  have "\<exists>s'. (thr_step mx ktid)\<^sup>*\<^sup>* s1 s' \<and> p \<in> constructed s'"
    using Suc.IH [OF run_step_inv [OF Suc.prems(1,4) run] _ th1(1), of t1] t1 th1(2)
      run_step_keeps_waiting [OF run] Suc.prems(2) by simp
  with thr_step.run [OF Suc.prems(4) run] show ?case
    by (meson converse_rtranclp_into_rtranclp)
qed


lemma reach_steps: "(thr_step mx ktid)\<^sup>*\<^sup>* s s' \<Longrightarrow> thr_reach mx ktid s \<Longrightarrow> thr_reach mx ktid s'"
  by (induction rule: rtranclp_induct) (auto intro: thr_next)

lemma constructed_thread:
  assumes "thr_reach mx ktid s" and "p \<in> constructed s"
  shows "\<exists>th t. objs s p = Some th \<and> oss s (th_handle th) = Some t \<and> th_id th = ktid (th_handle th)
     \<and> th_cb th = None \<and> Thread_GetThis t = Some p \<and> Thread_GetName t = th_name th \<and> uses (t_pc t) = None"
proof -
  note D = thr_invD [OF thr_reach_inv [OF assms(1)]]
  from D(1) [of p] assms(2) obtain th where th: "objs s p = Some th" by auto
  from D(3) [OF th] obtain t where t: "oss s (th_handle th) = Some t" and ok: "in_step ktid (waiting s) p th t"
    by blast
  have "p \<notin> waiting s" using D(6) assms(2) by auto
  with ok th t show ?thesis
    by (auto simp: in_step_def registered_def Thread_GetThis_def Thread_GetName_def split: run_pc.splits)
qed

text \<open>
  C21: what a constructor that returned guarantees. The new thread has registered itself: the object
  has its kernel id and gave its function away, \<open>GetThis\<close> in the thread is the object and
  \<open>GetName\<close> its name; and from then on \<open>Thread::run\<close> does not touch the object again.
\<close>

theorem constructor_handshake:
  assumes "thr_reach mx ktid s" and "p \<in> constructed s"
  shows "\<exists>th t. objs s p = Some th \<and> oss s (th_handle th) = Some t \<and> th_id th = ktid (th_handle th)
     \<and> th_cb th = None \<and> Thread_GetThis t = Some p \<and> Thread_GetName t = th_name th \<and> uses (t_pc t) = None"
  using constructed_thread [OF assms] .


text \<open>
  C32: joining a thread and destroying its object do not go together. \<open>join\<close> leaves the handle in
  place, so after a successful \<open>join\<close> the destructor detaches a thread that was joined, and a second
  \<open>join\<close> joins it again, neither of which has a defined result; without the \<open>join\<close> the
  destructor is fine.
\<close>

theorem destroy_after_join:
  assumes "thr_reach mx ktid s" and "p \<in> constructed s" and "Thread_join p s = Inr s1"
  shows "Thread_dtor p s1 = Inl (Undefined ''pthread_detach'') \<and>
    Thread_join p s1 = Inl (Undefined ''pthread_join'') \<and> (\<exists>s2. Thread_dtor p s = Inr s2)"
proof -
  note D = thr_invD [OF thr_reach_inv [OF assms(1)]]
  from D(1) [of p] assms(2) obtain th where th: "objs s p = Some th" by auto
  from D(2,3) [OF th] obtain t where t: "th_handle th \<noteq> 0" "oss s (th_handle th) = Some t" by blast
  from assms(3) th t have "s1 = set_os (th_handle th) (t\<lparr>t_join := Joined\<rparr>) s" and "t_join t = Joinable"
    by (auto simp: Thread_join_def with_obj_def split: if_splits)
  with th t show ?thesis by (simp add: Thread_join_def Thread_dtor_def with_obj_def)
qed

subsection \<open>A concrete execution\<close>

definition demo_ktid :: "handle \<Rightarrow> int" where
  "demo_ktid h = 1000 + int h"

definition empty_threads :: thread_sys where
  "empty_threads = \<lparr>objs = (\<lambda>_. None), oss = (\<lambda>_. None), waiting = {}, constructed = {}\<rparr>"

definition one_thread :: thread_sys where
  "one_thread = \<lparr>objs = [4 \<mapsto> (Thread_init 7 [])\<lparr>th_handle := 1\<rparr>], oss = [1 \<mapsto> new_os_thread 4],
     waiting = {4}, constructed = {}\<rparr>"

lemma one_thread_reach: "thr_reach 10 demo_ktid one_thread"
proof -
  have "thr_step 10 demo_ktid empty_threads one_thread"
    by (rule thr_step.ctor_create [of _ 4 1 7 "[]"])
      (simp_all add: empty_threads_def one_thread_def Thread_create_def)
  moreover have "thr_reach 10 demo_ktid empty_threads"
    unfolding empty_threads_def by (rule thr_start)
  ultimately show ?thesis using thr_next by blast
qed


lemma one_thread_constructed: "\<exists>s. thr_reach 10 demo_ktid s \<and> 4 \<in> constructed s"
proof -
  have "\<exists>s'. (thr_step 10 demo_ktid)\<^sup>*\<^sup>* one_thread s' \<and> 4 \<in> constructed s'"
    by (rule waiting_can_return [OF _ thr_reach_inv [OF one_thread_reach], where t = "new_os_thread 4"
          and th = "(Thread_init 7 [])\<lparr>th_handle := 1\<rparr>"]) (simp_all add: one_thread_def)
  with reach_steps [OF _ one_thread_reach] show ?thesis by blast
qed

lemma constructor_handshake_witness:
  "\<exists>s th t. thr_reach 10 demo_ktid s \<and> objs s 4 = Some th \<and> oss s (th_handle th) = Some t
     \<and> Thread_GetThis t = Some 4 \<and> Thread_GetName t = th_name th"
  using one_thread_constructed constructor_handshake [of 10 demo_ktid _ 4] by metis


text \<open>The same thread once it returned: its five steps, the constructor's return among them.\<close>

definition one_sys :: "int \<Rightarrow> nat option \<Rightarrow> nat \<Rightarrow> os_thread \<Rightarrow> addr set \<Rightarrow> addr set \<Rightarrow> thread_sys" where
  "one_sys i cb v t w c = \<lparr>objs = [4 \<mapsto> \<lparr>th_id = i, th_handle = 1, th_cb = cb, th_name = ''UNKNOWN'', th_sem = v\<rparr>],
     oss = [1 \<mapsto> t], waiting = w, constructed = c\<rparr>"

definition at_pc :: "run_pc \<Rightarrow> os_thread" where
  "at_pc pc = \<lparr>t_thread = Some 4, t_thread_name = ''UNKNOWN'', t_kernel_name = ''UNKNOWN'', t_pc = pc, t_join = Joinable\<rparr>"

definition finished :: thread_sys where
  "finished = one_sys 1001 None 0 (at_pc RunDone) {} {4}"

lemma one_sys_run:
  "thr_reach 10 demo_ktid (one_sys i cb v t w c) \<Longrightarrow>
   run_step 10 demo_ktid 1 t (one_sys i cb v t w c) = Inr s' \<Longrightarrow> thr_reach 10 demo_ktid s'"
  by (rule thr_next [OF _ thr_step.run [of _ 1 t]]) (simp_all add: one_sys_def)

lemma one_sys_entry:
  "run_step 10 demo_ktid 1 (new_os_thread 4) (one_sys i cb v (new_os_thread 4) w c) =
   Inr (one_sys 1001 cb v (at_pc (RunTake 4)) w c)"
proof -
  have "substr ''UNKNOWN'' 0 15 = Inr ''UNKNOWN''" by code_simp
  then show ?thesis
    by (simp add: run_step_def new_os_thread_def with_obj_def one_sys_def set_os_def set_obj_def
        demo_ktid_def at_pc_def)
qed

lemma one_sys_take:
  "run_step 10 demo_ktid 1 (at_pc (RunTake 4)) (one_sys i (Some f) v (at_pc (RunTake 4)) w c) =
   Inr (one_sys i None v (at_pc (RunNotify 4 f)) w c)"
  by (simp add: run_step_def with_obj_def one_sys_def set_os_def set_obj_def at_pc_def)

lemma one_sys_notify:
  "run_step 10 demo_ktid 1 (at_pc (RunNotify 4 f)) (one_sys i cb 0 (at_pc (RunNotify 4 f)) w c) =
   Inr (one_sys i cb 1 (at_pc (RunCall f)) w c)"
  by (simp add: run_step_def with_obj_def one_sys_def set_os_def set_obj_def at_pc_def Semaphore_notify_def)

lemma one_sys_call:
  "run_step 10 demo_ktid 1 (at_pc (RunCall f)) (one_sys i cb v (at_pc (RunCall f)) w c) =
   Inr (one_sys i cb v (at_pc RunDone) w c)"
  by (simp add: run_step_def one_sys_def set_os_def at_pc_def)

lemma finished_reach: "thr_reach 10 demo_ktid finished"
proof -
  have start: "one_thread = one_sys (- 1) (Some 7) 0 (new_os_thread 4) {4} {}"
    by (simp add: one_thread_def one_sys_def Thread_init_def)
  have "thr_reach 10 demo_ktid (one_sys 1001 None 1 (at_pc RunDone) {4} {})"
    using one_thread_reach unfolding start
    by (rule one_sys_run [THEN one_sys_run, THEN one_sys_run, THEN one_sys_run,
          OF _ one_sys_entry one_sys_take one_sys_notify one_sys_call])
  then show ?thesis
    by (rule thr_next [OF _ thr_step.ctor_wait [of 4]])
      (simp_all add: finished_def one_sys_def Thread_wait_def with_obj_def Semaphore_wait_def)
qed

lemma finished_join:
  "Thread_join 4 finished = Inr (set_os 1 ((at_pc RunDone)\<lparr>t_join := Joined\<rparr>) finished)"
  by (simp add: Thread_join_def with_obj_def finished_def one_sys_def at_pc_def)

lemma destroy_after_join_witness:
  "\<exists>s s1. thr_reach 10 demo_ktid s \<and> Thread_join 4 s = Inr s1 \<and>
     Thread_dtor 4 s1 = Inl (Undefined ''pthread_detach'')"
proof -
  have "4 \<in> constructed finished" by (simp add: finished_def one_sys_def)
  from destroy_after_join [OF finished_reach this finished_join] finished_reach finished_join
  show ?thesis by blast
qed

end
