(* ===== verification/Simulation.thy ===== *)
theory Simulation
  imports Prelude
begin

section \<open>Operations that implement a specification\<close>

text \<open>
  The interface between a component whose operations may fail and the specification its clients rely
  on: under its invariant and the client's precondition no operation fails, and what it does to the
  state is allowed by the specification. It follows for whole runs of operations.
\<close>

primrec run_list :: "('o \<Rightarrow> 's \<Rightarrow> 's result) \<Rightarrow> 'o list \<Rightarrow> 's \<Rightarrow> 's result" where
  "run_list step [] s = Inr s"
| "run_list step (op # ops) s = rbind (step op s) (run_list step ops)"

text \<open>The client meets the precondition of each operation in the state it is called in.\<close>

primrec run_pre :: "('o \<Rightarrow> 's \<Rightarrow> bool) \<Rightarrow> ('o \<Rightarrow> 's \<Rightarrow> 's result) \<Rightarrow> 'o list \<Rightarrow> 's \<Rightarrow> bool" where
  "run_pre pre step [] s = True"
| "run_pre pre step (op # ops) s =
     (pre op s \<and> (case step op s of Inl _ \<Rightarrow> True | Inr s' \<Rightarrow> run_pre pre step ops s'))"

inductive spec_run :: "('o \<Rightarrow> 'a \<Rightarrow> 'a \<Rightarrow> bool) \<Rightarrow> 'o list \<Rightarrow> 'a \<Rightarrow> 'a \<Rightarrow> bool" for spec where
  spec_done: "spec_run spec [] x x"
| spec_more: "spec op x y \<Longrightarrow> spec_run spec ops y z \<Longrightarrow> spec_run spec (op # ops) x z"

lemma run_list_append: "run_list step (xs @ ys) s = rbind (run_list step xs s) (run_list step ys)"
  by (induction xs arbitrary: s) (auto simp: rbind_assoc intro: rbind_cong)

locale implementation =
  fixes step :: "'o \<Rightarrow> 's \<Rightarrow> 's result"
    and pre :: "'o \<Rightarrow> 's \<Rightarrow> bool"
    and inv :: "'s \<Rightarrow> bool"
    and abs :: "'s \<Rightarrow> 'a"
    and spec :: "'o \<Rightarrow> 'a \<Rightarrow> 'a \<Rightarrow> bool"
  assumes implements: "inv s \<Longrightarrow> pre op s \<Longrightarrow> \<exists>s'. step op s = Inr s' \<and> inv s' \<and> spec op (abs s) (abs s')"
begin

lemma runs:
  "inv s \<Longrightarrow> run_pre pre step ops s \<Longrightarrow>
   \<exists>s'. run_list step ops s = Inr s' \<and> inv s' \<and> spec_run spec ops (abs s) (abs s')"
proof (induction ops arbitrary: s)
  case Nil
  then show ?case by (simp add: spec_done)
next
  case (Cons op ops)
  then obtain s1 where s1: "step op s = Inr s1" "inv s1" "spec op (abs s) (abs s1)"
    using implements [of s op] by auto
  with Cons.IH [of s1] Cons.prems(2) obtain s2
    where "run_list step ops s1 = Inr s2" "inv s2" "spec_run spec ops (abs s1) (abs s2)" by auto
  with s1 show ?case by (auto intro: spec_more)
qed

lemma keeps: "inv s \<Longrightarrow> run_pre pre step ops s \<Longrightarrow> run_list step ops s = Inr s' \<Longrightarrow> inv s'"
  using runs by fastforce

lemma never_fails: "inv s \<Longrightarrow> run_pre pre step ops s \<Longrightarrow> run_list step ops s \<noteq> Inl e"
  using runs by fastforce

end

end
