(* ===== verification/Fiber.thy ===== *)
theory Fiber
  imports Simulation
begin

section \<open>Fibers\<close>

text \<open>
  \<open>Fiber\<close> of \<open>include/fiber.hpp\<close> and \<open>src/fiber.cpp\<close>: one thread's fibers, its
  thread-local \<open>cur_fiber\<close> and \<open>last_s_fiber\<close>, and the two global counters. A callback is
  a number (\<open>None\<close> for an empty \<open>std::function\<close>); the code that is in control (a callback or
  the thread's own code) is not modelled, it calls the operations of the class in any order it likes.
  What is modelled of it is where control is: \<open>stack_now\<close> is \<open>None\<close> on the thread's own
  stack and \<open>Some f\<close> on the stack of the fiber \<open>f\<close>.

  Objects are named by addresses, which are not used twice. They are held by \<open>shared_ptr\<close>:
  \<open>f_refs\<close> counts all references, \<open>p_refs\<close> those of the calling program; the others are
  \<open>last_s_fiber\<close> and the local variables \<open>cur\<close> of \<open>MainFunc\<close> and of the yield functions.
\<close>

type_synonym fib_addr = nat

text \<open>\<open>FTERM\<close> is the source's \<open>TERM\<close>, a keyword here.\<close>

datatype fiber_state = INIT | HOLD | EXEC | FTERM | READY | EXCEP

text \<open>
  A \<open>ucontext_t\<close>. \<open>CtxCtor\<close> was filled by \<open>getcontext\<close> in the private constructor, whose
  frame is gone once the constructor returned; \<open>CtxEntry\<close> was made by \<open>makecontext\<close> and
  starts \<open>MainFunc\<close>; \<open>CtxCall\<close> was saved by \<open>swapcontext\<close> in a \<open>swapIn\<close> or
  \<open>swapOut\<close> called on the given stack, with the fiber that the calling yield function's \<open>cur\<close>
  holds; \<open>CtxEnd\<close> was saved by the last call of \<open>MainFunc\<close>. A context that was resumed is
  stale: the frame it returns into is gone.
\<close>

datatype ucontext =
    CtxCtor
  | CtxEntry
  | CtxCall "fib_addr option" "fib_addr option"
  | CtxEnd
  | CtxStale

text \<open>\<open>f_stack\<close> tells whether \<open>m_stack\<close> is not null.\<close>

record fiber_obj =
  f_id :: u64
  f_stack_size :: u64
  f_state :: fiber_state
  f_ctx :: ucontext
  f_stack :: bool
  f_cb :: "nat option"
  f_refs :: nat

record fiber_sys =
  fibs :: "fib_addr \<Rightarrow> fiber_obj option"
  cur_fiber :: "fib_addr option"
  last_s_fiber :: "fib_addr option"
  g_fiber_id :: u64
  g_fiber_count :: u64
  stack_now :: "fib_addr option"
  p_refs :: "fib_addr \<Rightarrow> nat"
  next_fib :: fib_addr

text \<open>
  The environment: the value of the configuration variable \<open>fiber.stack_size\<close>, and the results
  of \<open>getcontext\<close>, \<open>swapcontext\<close> (0 is success) and \<open>malloc\<close> (whether it is not null).
\<close>

record fiber_env =
  fe_stack_size :: u32
  fe_getcontext :: int
  fe_swapcontext :: int
  fe_malloc :: "u64 \<Rightarrow> bool"

definition start_sys :: "u64 \<Rightarrow> u64 \<Rightarrow> fiber_sys" where
  "start_sys i n = \<lparr>fibs = (\<lambda>_. None), cur_fiber = None, last_s_fiber = None, g_fiber_id = i,
     g_fiber_count = n, stack_now = None, p_refs = (\<lambda>_. 0), next_fib = 0\<rparr>"

subsection \<open>Memory\<close>

definition with_fib :: "fib_addr \<Rightarrow> fiber_sys \<Rightarrow> (fiber_obj \<Rightarrow> 'a result) \<Rightarrow> 'a result" where
  "with_fib a s k = (case fibs s a of None \<Rightarrow> Inl (Undefined ''destroyed fiber'') | Some f \<Rightarrow> k f)"

definition set_fib :: "fib_addr \<Rightarrow> fiber_obj \<Rightarrow> fiber_sys \<Rightarrow> fiber_sys" where
  "set_fib a f s = s\<lparr>fibs := (fibs s)(a \<mapsto> f)\<rparr>"

definition Fiber_SetThis :: "fib_addr option \<Rightarrow> fiber_sys \<Rightarrow> fiber_sys" where
  "Fiber_SetThis f s = s\<lparr>cur_fiber := f\<rparr>"

text \<open>The destructor. The object is gone afterwards; an assertion that fails aborts the program.\<close>

definition Fiber_dtor :: "fib_addr \<Rightarrow> fiber_sys \<Rightarrow> fiber_sys result" where
  "Fiber_dtor a s0 =
     with_fib a s0 (\<lambda>f.
       let s = s0\<lparr>g_fiber_count := g_fiber_count s0 - 1\<rparr>; gone = (\<lambda>s. s\<lparr>fibs := (fibs s)(a := None)\<rparr>) in
       if f_stack f then
         (if f_state f = INIT \<or> f_state f = FTERM \<or> f_state f = EXCEP then Inr (gone s)
          else Inl (AssertAbort ''m_state == INIT || m_state == TERM || m_state == EXCEP''))
       else if f_cb f \<noteq> None then Inl (AssertAbort ''!m_cb'')
       else if f_state f \<noteq> EXEC then Inl (AssertAbort ''m_state == EXEC'')
       else Inr (gone (if cur_fiber s = Some a then Fiber_SetThis None s else s)))"

text \<open>A \<open>shared_ptr\<close> is copied, and goes away; the last one destroys the fiber.\<close>

definition add_ref :: "fib_addr \<Rightarrow> fiber_sys \<Rightarrow> fiber_sys result" where
  "add_ref a s = with_fib a s (\<lambda>f. Inr (set_fib a (f\<lparr>f_refs := f_refs f + 1\<rparr>) s))"

definition drop_ref :: "fib_addr \<Rightarrow> fiber_sys \<Rightarrow> fiber_sys result" where
  "drop_ref a s =
     with_fib a s (\<lambda>f.
       if f_refs f \<le> 1 then Fiber_dtor a s else Inr (set_fib a (f\<lparr>f_refs := f_refs f - 1\<rparr>) s))"

definition drop_opt :: "fib_addr option \<Rightarrow> fiber_sys \<Rightarrow> fiber_sys result" where
  "drop_opt p s = (case p of None \<Rightarrow> Inr s | Some a \<Rightarrow> drop_ref a s)"

subsection \<open>The constructors and reset\<close>

text \<open>\<open>StackMallocator\<close>: \<open>malloc\<close>, whose result may be null. \<open>Free\<close> is part of the destructor.\<close>

definition StackMallocator_Alloc :: "fiber_env \<Rightarrow> u64 \<Rightarrow> bool" where
  [simp]: "StackMallocator_Alloc env n = fe_malloc env n"

definition Fiber_getId :: "fiber_obj \<Rightarrow> u64" where
  "Fiber_getId f = f_id f"

text \<open>The private constructor, for the thread's main fiber; the new pointer is the only reference.\<close>

definition Fiber_main_ctor :: "fiber_env \<Rightarrow> fiber_sys \<Rightarrow> (fib_addr \<times> fiber_sys) result" where
  "Fiber_main_ctor env s0 =
     (let a = next_fib s0;
          s = Fiber_SetThis (Some a) (s0\<lparr>next_fib := a + 1\<rparr>);
          f = \<lparr>f_id = 0, f_stack_size = 0, f_state = EXEC, f_ctx = CtxCtor, f_stack = False, f_cb = None,
               f_refs = 1\<rparr>
      in if fe_getcontext env \<noteq> 0 then Inl (AssertAbort ''getcontext'')
         else Inr (a, set_fib a f (s\<lparr>g_fiber_count := g_fiber_count s + 1\<rparr>)))"

definition Fiber_ctor :: "fiber_env \<Rightarrow> nat option \<Rightarrow> u64 \<Rightarrow> fiber_sys \<Rightarrow> (fib_addr \<times> fiber_sys) result" where
  "Fiber_ctor env cb stack_size s0 =
     (let a = next_fib s0;
          s = s0\<lparr>next_fib := a + 1, g_fiber_id := g_fiber_id s0 + 1, g_fiber_count := g_fiber_count s0 + 1\<rparr>;
          size = (if stack_size \<noteq> 0 then stack_size else ucast (fe_stack_size env));
          f = \<lparr>f_id = g_fiber_id s, f_stack_size = size, f_state = INIT, f_ctx = CtxEntry,
               f_stack = StackMallocator_Alloc env size, f_cb = cb, f_refs = 1\<rparr>
      in if fe_getcontext env \<noteq> 0 then Inl (AssertAbort ''getcontext'') else Inr (a, set_fib a f s))"

definition Fiber_reset :: "fiber_env \<Rightarrow> fib_addr \<Rightarrow> nat option \<Rightarrow> fiber_sys \<Rightarrow> fiber_sys result" where
  "Fiber_reset env a cb s =
     with_fib a s (\<lambda>f.
       if \<not> f_stack f then Inl (AssertAbort ''m_stack'')
       else if \<not> (f_state f = INIT \<or> f_state f = FTERM \<or> f_state f = EXCEP)
         then Inl (AssertAbort ''m_state == INIT || m_state == TERM || m_state == EXCEP'')
       else if fe_getcontext env \<noteq> 0 then Inl (AssertAbort ''getcontext'')
       else Inr (set_fib a (f\<lparr>f_cb := cb, f_ctx := CtxEntry, f_state := INIT\<rparr>) s))"

subsection \<open>GetThis\<close>

text \<open>
  The reference that is returned is counted. \<open>last_s_fiber = fiber\<close> drops the reference it held
  before, and the local variable \<open>fiber\<close> goes away at the end.
\<close>

definition Fiber_GetThis :: "fiber_env \<Rightarrow> fiber_sys \<Rightarrow> (fib_addr \<times> fiber_sys) result" where
  "Fiber_GetThis env s =
     (case cur_fiber s of
        Some a \<Rightarrow> rbind (add_ref a s) (\<lambda>s. Inr (a, s))
      | None \<Rightarrow>
          rbind (Fiber_main_ctor env s) (\<lambda>(fiber, s).
            if Some fiber \<noteq> cur_fiber s then Inl (AssertAbort ''fiber.get() == cur_fiber'')
            else rbind (add_ref fiber s) (\<lambda>s.
              rbind (drop_opt (last_s_fiber s) (s\<lparr>last_s_fiber := Some fiber\<rparr>)) (\<lambda>s.
                rbind (add_ref fiber s) (\<lambda>s.
                  rbind (drop_ref fiber s) (\<lambda>s. Inr (fiber, s)))))))"

definition TotalFibers :: "fiber_sys \<Rightarrow> u64" where
  "TotalFibers s = g_fiber_count s"

definition GetCurFiberId :: "fiber_sys \<Rightarrow> u64 result" where
  "GetCurFiberId s = (case cur_fiber s of None \<Rightarrow> Inr 0 | Some a \<Rightarrow> with_fib a s (\<lambda>f. Inr (f_id f)))"

subsection \<open>Switching contexts\<close>

text \<open>
  \<open>setcontext\<close>: control goes where the context of \<open>b\<close> says. \<open>entry\<close> is what happens at
  the start of \<open>MainFunc\<close>. A saved context continues on a stack that must still exist, and the
  yield function it returns into drops its reference. The end of \<open>MainFunc\<close> ends the thread,
  because \<open>uc_link\<close> is null.
\<close>

definition resume :: "(fib_addr \<Rightarrow> fiber_sys \<Rightarrow> fiber_sys result) \<Rightarrow> fib_addr \<Rightarrow> fiber_sys \<Rightarrow> fiber_sys result" where
  "resume entry b s =
     with_fib b s (\<lambda>f.
       let s' = set_fib b (f\<lparr>f_ctx := CtxStale\<rparr>) s in
       case f_ctx f of
         CtxCtor \<Rightarrow> Inl (Undefined ''context of a frame that returned'')
       | CtxStale \<Rightarrow> Inl (Undefined ''context of a frame that returned'')
       | CtxEnd \<Rightarrow> Inl ThreadExit
       | CtxEntry \<Rightarrow> if f_stack f then entry b (s'\<lparr>stack_now := Some b\<rparr>) else Inl (Undefined ''context without a stack'')
       | CtxCall st held \<Rightarrow>
           (case st of
              None \<Rightarrow> drop_opt held (s'\<lparr>stack_now := None\<rparr>)
            | Some g \<Rightarrow> with_fib g s' (\<lambda>_. drop_opt held (s'\<lparr>stack_now := Some g\<rparr>))))"

text \<open>\<open>swapcontext(&(a->m_ctx), &(b->m_ctx))\<close>: the context \<open>c\<close> of the caller is saved first.\<close>

definition swapcontext ::
  "fiber_env \<Rightarrow> (fib_addr \<Rightarrow> fiber_sys \<Rightarrow> fiber_sys result) \<Rightarrow> ucontext \<Rightarrow> fib_addr \<Rightarrow> fib_addr \<Rightarrow> fiber_sys \<Rightarrow> fiber_sys result" where
  "swapcontext env entry c a b s =
     (if fe_swapcontext env \<noteq> 0 then Inl (AssertAbort ''swapcontext'')
      else with_fib a s (\<lambda>f. resume entry b (set_fib a (f\<lparr>f_ctx := c\<rparr>) s)))"

text \<open>
  \<open>swapOut\<close>, with the context to save as an argument: it tells a call from the end of
  \<open>MainFunc\<close> and from a yield function apart. The fiber it goes to is a main fiber, which has no
  stack and is never entered.
\<close>

definition Fiber_swapOut_as :: "fiber_env \<Rightarrow> ucontext \<Rightarrow> fib_addr \<Rightarrow> fiber_sys \<Rightarrow> fiber_sys result" where
  "Fiber_swapOut_as env c a s0 =
     (let s = Fiber_SetThis (last_s_fiber s0) s0 in
      case last_s_fiber s of
        None \<Rightarrow> Inl (NullDeref ''last_s_fiber'')
      | Some m \<Rightarrow> swapcontext env (\<lambda>_ _. Inl (Undefined ''main fiber entered'')) c a m s)"

definition Fiber_swapOut :: "fiber_env \<Rightarrow> fib_addr \<Rightarrow> fiber_sys \<Rightarrow> fiber_sys result" where
  "Fiber_swapOut env a s = Fiber_swapOut_as env (CtxCall (stack_now s) None) a s"

subsection \<open>MainFunc\<close>

text \<open>
  The two ends of \<open>MainFunc\<close> for the fiber \<open>a\<close>: the callback returned, or it threw. The last
  reference may be the variable \<open>cur\<close> itself; \<open>raw_ptr->swapOut()\<close> then uses a destroyed object.
\<close>

definition MainFunc_leave :: "fiber_env \<Rightarrow> fib_addr \<Rightarrow> fiber_sys \<Rightarrow> fiber_sys result" where
  "MainFunc_leave env a s =
     rbind (drop_ref a s) (\<lambda>s. with_fib a s (\<lambda>_. Fiber_swapOut_as env CtxEnd a s))"

definition MainFunc_return :: "fiber_env \<Rightarrow> fib_addr \<Rightarrow> fiber_sys \<Rightarrow> fiber_sys result" where
  "MainFunc_return env a s =
     with_fib a s (\<lambda>f. MainFunc_leave env a (set_fib a (f\<lparr>f_cb := None, f_state := FTERM\<rparr>) s))"

definition MainFunc_throw :: "fiber_env \<Rightarrow> fib_addr \<Rightarrow> fiber_sys \<Rightarrow> fiber_sys result" where
  "MainFunc_throw env a s =
     with_fib a s (\<lambda>f. MainFunc_leave env a (set_fib a (f\<lparr>f_state := EXCEP\<rparr>) s))"

text \<open>\<open>MainFunc\<close> up to the callback's first statement. Calling an empty function throws.\<close>

definition MainFunc_begin :: "fiber_env \<Rightarrow> fib_addr \<Rightarrow> fiber_sys \<Rightarrow> fiber_sys result" where
  "MainFunc_begin env b s =
     rbind (Fiber_GetThis env s) (\<lambda>(cur, s).
       with_fib cur s (\<lambda>f. case f_cb f of None \<Rightarrow> MainFunc_throw env cur s | Some _ \<Rightarrow> Inr s))"

subsection \<open>swapIn and the yield functions\<close>

definition Fiber_swapIn :: "fiber_env \<Rightarrow> fib_addr \<Rightarrow> fiber_sys \<Rightarrow> fiber_sys result" where
  "Fiber_swapIn env a s0 =
     with_fib a s0 (\<lambda>f.
       if f_state f = EXEC then Inl (AssertAbort ''m_state != EXEC'')
       else
         let s = Fiber_SetThis (Some a) (set_fib a (f\<lparr>f_state := EXEC\<rparr>) s0) in
         case last_s_fiber s of
           None \<Rightarrow> Inl (NullDeref ''last_s_fiber'')
         | Some m \<Rightarrow> swapcontext env (MainFunc_begin env) (CtxCall (stack_now s) None) m a s)"

definition yield_with :: "fiber_state \<Rightarrow> fiber_env \<Rightarrow> fiber_sys \<Rightarrow> fiber_sys result" where
  "yield_with st env s =
     rbind (Fiber_GetThis env s) (\<lambda>(cur, s).
       with_fib cur s (\<lambda>f.
         let s = set_fib cur (f\<lparr>f_state := st\<rparr>) s in
         Fiber_swapOut_as env (CtxCall (stack_now s) (Some cur)) cur s))"

definition YieldToReady :: "fiber_env \<Rightarrow> fiber_sys \<Rightarrow> fiber_sys result" where
  "YieldToReady = yield_with READY"

definition YieldToHold :: "fiber_env \<Rightarrow> fiber_sys \<Rightarrow> fiber_sys result" where
  "YieldToHold = yield_with HOLD"

subsection \<open>What the code in control can do\<close>

text \<open>
  \<open>FReturn\<close> and \<open>FThrow\<close> end the callback whose stack is current, \<open>FCopy\<close> and
  \<open>FDrop\<close> copy and release one of the program's own pointers, \<open>FThreadEnd\<close> ends the
  thread, which destroys \<open>last_s_fiber\<close>.
\<close>

datatype fop =
    FNew "nat option" u64
  | FGetThis
  | FSetThis "fib_addr option"
  | FSwapIn fib_addr
  | FSwapOut fib_addr
  | FReady
  | FHold
  | FReturn
  | FThrow
  | FReset fib_addr "nat option"
  | FCopy fib_addr
  | FDrop fib_addr
  | FThreadEnd

definition own :: "fib_addr \<Rightarrow> fiber_sys \<Rightarrow> fiber_sys" where
  "own a s = s\<lparr>p_refs := (p_refs s)(a := p_refs s a + 1)\<rparr>"

definition disown :: "fib_addr \<Rightarrow> fiber_sys \<Rightarrow> fiber_sys" where
  "disown a s = s\<lparr>p_refs := (p_refs s)(a := p_refs s a - 1)\<rparr>"

definition end_callback :: "(fiber_env \<Rightarrow> fib_addr \<Rightarrow> fiber_sys \<Rightarrow> fiber_sys result) \<Rightarrow> fiber_env \<Rightarrow> fiber_sys \<Rightarrow> fiber_sys result" where
  "end_callback m env s =
     (case stack_now s of None \<Rightarrow> Inl (Undefined ''not in a callback'') | Some a \<Rightarrow> m env a s)"

fun fib_op :: "fiber_env \<Rightarrow> fop \<Rightarrow> fiber_sys \<Rightarrow> fiber_sys result" where
  "fib_op env (FNew cb n) s = rbind (Fiber_ctor env cb n s) (\<lambda>(a, s). Inr (own a s))"
| "fib_op env FGetThis s = rbind (Fiber_GetThis env s) (\<lambda>(a, s). Inr (own a s))"
| "fib_op env (FSetThis f) s = Inr (Fiber_SetThis f s)"
| "fib_op env (FSwapIn a) s = Fiber_swapIn env a s"
| "fib_op env (FSwapOut a) s = Fiber_swapOut env a s"
| "fib_op env FReady s = YieldToReady env s"
| "fib_op env FHold s = YieldToHold env s"
| "fib_op env FReturn s = end_callback MainFunc_return env s"
| "fib_op env FThrow s = end_callback MainFunc_throw env s"
| "fib_op env (FReset a cb) s = Fiber_reset env a cb s"
| "fib_op env (FCopy a) s =
     (if p_refs s a = 0 then Inl (Undefined ''no pointer'') else rbind (add_ref a s) (\<lambda>s. Inr (own a s)))"
| "fib_op env (FDrop a) s =
     (if p_refs s a = 0 then Inl (Undefined ''no pointer'') else drop_ref a (disown a s))"
| "fib_op env FThreadEnd s =
     (if stack_now s \<noteq> None then Inl (Undefined ''thread ended on a fiber'')
      else drop_opt (last_s_fiber s) (s\<lparr>last_s_fiber := None\<rparr>))"

definition run_ops :: "fiber_env \<Rightarrow> fop list \<Rightarrow> fiber_sys \<Rightarrow> fiber_sys result" where
  "run_ops env = run_list (fib_op env)"

lemma run_ops_simps [simp]:
  "run_ops env [] s = Inr s"
  "run_ops env (op # ops) s = rbind (fib_op env op s) (run_ops env ops)"
  by (simp_all add: run_ops_def)

lemma run_ops_append: "run_ops env (xs @ ys) s = rbind (run_ops env xs s) (run_ops env ys)"
  by (simp add: run_ops_def run_list_append)

end
