(* ===== verification/FiberProps.thy ===== *)
theory FiberProps
  imports Fiber
begin

section \<open>Fibers as coroutines\<close>

text \<open>
  What the class promises to code that uses it with care: coroutines. The invariant of one thread's
  fibers, the discipline under which every operation keeps it, the abstract machine of coroutines that
  the operations implement, and what happens without the discipline.
\<close>

named_theorems fib_defs

lemmas [fib_defs] = with_fib_def set_fib_def Fiber_SetThis_def add_ref_def drop_ref_def drop_opt_def
  own_def disown_def Let_def

subsection \<open>The invariant\<close>

definition main_ok :: "fiber_sys \<Rightarrow> fib_addr \<Rightarrow> fiber_obj \<Rightarrow> bool" where
  "main_ok s m f \<longleftrightarrow> \<not> f_stack f \<and> f_state f = EXEC \<and> f_cb f = None \<and> f_id f = 0 \<and> f_refs f = p_refs s m + 1"

definition running_ok :: "fiber_sys \<Rightarrow> fib_addr \<Rightarrow> fiber_obj \<Rightarrow> bool" where
  "running_ok s a f \<longleftrightarrow> f_stack f \<and> f_state f = EXEC \<and> f_cb f \<noteq> None \<and> f_ctx f = CtxStale
     \<and> f_refs f = p_refs s a + 1"

text \<open>
  A fiber that does not run: its state says where its context continues and who holds it. A suspended
  fiber holds itself twice, by \<open>cur\<close> of \<open>MainFunc\<close> and \<open>cur\<close> of the yield function.
\<close>

definition idle_ok :: "fiber_sys \<Rightarrow> fib_addr \<Rightarrow> fiber_obj \<Rightarrow> bool" where
  "idle_ok s a f \<longleftrightarrow> f_stack f \<and>
     (case f_state f of
        INIT \<Rightarrow> f_ctx f = CtxEntry \<and> f_refs f = p_refs s a \<and> p_refs s a > 0
      | HOLD \<Rightarrow> f_ctx f = CtxCall (Some a) (Some a) \<and> f_refs f = p_refs s a + 2 \<and> f_cb f \<noteq> None
      | READY \<Rightarrow> f_ctx f = CtxCall (Some a) (Some a) \<and> f_refs f = p_refs s a + 2 \<and> f_cb f \<noteq> None
      | FTERM \<Rightarrow> f_ctx f = CtxEnd \<and> f_refs f = p_refs s a \<and> p_refs s a > 0
      | EXCEP \<Rightarrow> f_ctx f = CtxEnd \<and> f_refs f = p_refs s a \<and> p_refs s a > 0
      | EXEC \<Rightarrow> False)"

definition fib_ok :: "fiber_sys \<Rightarrow> fib_addr \<Rightarrow> fiber_obj \<Rightarrow> bool" where
  "fib_ok s a f =
     (if last_s_fiber s = Some a then main_ok s a f \<and> (stack_now s \<noteq> None \<longrightarrow> f_ctx f = CtxCall None None)
      else if stack_now s = Some a then running_ok s a f
      else idle_ok s a f)"

text \<open>
  The thread's pointers: \<open>cur_fiber\<close> is the fiber on whose stack the thread runs. \<open>n0\<close> is
  the number of fibers that other threads have.
\<close>

definition thread_ok :: "fiber_sys \<Rightarrow> bool" where
  "thread_ok s =
     (case last_s_fiber s of
        None \<Rightarrow> cur_fiber s = None \<and> stack_now s = None
      | Some m \<Rightarrow> fibs s m \<noteq> None \<and> stack_now s \<noteq> Some m \<and>
          (case stack_now s of
             None \<Rightarrow> cur_fiber s = Some m
           | Some b \<Rightarrow> fibs s b \<noteq> None \<and> cur_fiber s = Some b))"

definition memory_ok :: "fiber_sys \<Rightarrow> bool" where
  "memory_ok s \<longleftrightarrow> (\<forall>a. fibs s a \<noteq> None \<longrightarrow> a < next_fib s) \<and> (\<forall>a. fibs s a = None \<longrightarrow> p_refs s a = 0)"

definition fib_inv :: "u64 \<Rightarrow> fiber_sys \<Rightarrow> bool" where
  "fib_inv n0 s \<longleftrightarrow> (\<forall>a f. fibs s a = Some f \<longrightarrow> fib_ok s a f) \<and> thread_ok s \<and> memory_ok s
     \<and> g_fiber_count s = n0 + of_nat (card (dom (fibs s)))"

lemma fib_invD:
  assumes "fib_inv n0 s"
  shows "fibs s a = Some f \<Longrightarrow> fib_ok s a f" "thread_ok s" "memory_ok s"
    "g_fiber_count s = n0 + of_nat (card (dom (fibs s)))"
  using assms by (auto simp: fib_inv_def)

lemma fib_inv_start: "fib_inv n0 (start_sys i n0)"
  by (simp add: fib_inv_def start_sys_def thread_ok_def memory_ok_def)

lemma finite_fibs: "memory_ok s \<Longrightarrow> finite (dom (fibs s))"
  by (rule finite_subset [of _ "{..<next_fib s}"]) (auto simp: memory_ok_def)

text \<open>Only the state of a fiber, the thread's pointers and the program's references matter.\<close>

lemma ok_cong:
  "p_refs s' a = p_refs s a \<Longrightarrow> main_ok s' a f = main_ok s a f"
  "p_refs s' a = p_refs s a \<Longrightarrow> running_ok s' a f = running_ok s a f"
  "p_refs s' a = p_refs s a \<Longrightarrow> idle_ok s' a f = idle_ok s a f"
  by (simp_all add: main_ok_def running_ok_def idle_ok_def split: fiber_state.split)

subsection \<open>Coroutines\<close>

datatype co_status = Fresh | Suspended | Running | Finished

record coroutines =
  co_running :: "fib_addr option"
  co_status :: "fib_addr \<Rightarrow> co_status option"

text \<open>
  Only the thread's own code resumes a coroutine; control comes back to it when the coroutine yields
  or ends. A coroutine with an empty function ends at once. A coroutine that may be continued is not
  destroyed.
\<close>

inductive co_step :: "fop \<Rightarrow> coroutines \<Rightarrow> coroutines \<Rightarrow> bool" where
  co_new: "co_status c a = None \<Longrightarrow> co_step (FNew cb n) c (c\<lparr>co_status := (co_status c)(a \<mapsto> Fresh)\<rparr>)"
| co_resume: "co_running c = None \<Longrightarrow> co_status c a = Some st \<Longrightarrow> st \<in> {Fresh, Suspended}
    \<Longrightarrow> co_step (FSwapIn a) c (c\<lparr>co_running := Some a, co_status := (co_status c)(a \<mapsto> Running)\<rparr>)"
| co_resume_empty: "co_running c = None \<Longrightarrow> co_status c a = Some Fresh
    \<Longrightarrow> co_step (FSwapIn a) c (c\<lparr>co_status := (co_status c)(a \<mapsto> Finished)\<rparr>)"
| co_yield: "co_running c = Some a \<Longrightarrow> op \<in> {FReady, FHold}
    \<Longrightarrow> co_step op c (c\<lparr>co_running := None, co_status := (co_status c)(a \<mapsto> Suspended)\<rparr>)"
| co_end: "co_running c = Some a \<Longrightarrow> op \<in> {FReturn, FThrow}
    \<Longrightarrow> co_step op c (c\<lparr>co_running := None, co_status := (co_status c)(a \<mapsto> Finished)\<rparr>)"
| co_reset: "co_status c a = Some st \<Longrightarrow> st \<in> {Fresh, Finished}
    \<Longrightarrow> co_step (FReset a cb) c (c\<lparr>co_status := (co_status c)(a \<mapsto> Fresh)\<rparr>)"
| co_free: "co_status c a = Some st \<Longrightarrow> st \<in> {Fresh, Finished}
    \<Longrightarrow> co_step (FDrop a) c (c\<lparr>co_status := (co_status c)(a := None)\<rparr>)"
| co_same: "op \<in> {FGetThis, FThreadEnd} \<union> range FCopy \<union> range FDrop \<Longrightarrow> co_step op c c"

text \<open>The coroutines that a thread's fibers implement: those with a stack of their own.\<close>

definition status_of :: "fiber_state \<Rightarrow> co_status" where
  "status_of st = (case st of INIT \<Rightarrow> Fresh | HOLD \<Rightarrow> Suspended | READY \<Rightarrow> Suspended | EXEC \<Rightarrow> Running
     | FTERM \<Rightarrow> Finished | EXCEP \<Rightarrow> Finished)"

definition co_abs :: "fiber_sys \<Rightarrow> coroutines" where
  "co_abs s = \<lparr>co_running = stack_now s,
     co_status = (\<lambda>a. case fibs s a of None \<Rightarrow> None | Some f \<Rightarrow> if f_stack f then Some (status_of (f_state f)) else None)\<rparr>"

text \<open>
  The discipline: fibers are resumed by the thread's own code only, after \<open>GetThis\<close>, and not once
  they ended; only a fiber yields; its callback ends while the program holds a pointer to it.
  \<open>SetThis\<close> and \<open>swapOut\<close> are not called from outside.
\<close>

fun fop_ok :: "fop \<Rightarrow> fiber_sys \<Rightarrow> bool" where
  "fop_ok (FSwapIn a) s =
     (stack_now s = None \<and> last_s_fiber s \<noteq> None \<and>
      (case fibs s a of None \<Rightarrow> False | Some f \<Rightarrow> f_state f = INIT \<or> f_state f = READY \<or> f_state f = HOLD))"
| "fop_ok FReady s = (stack_now s \<noteq> None)"
| "fop_ok FHold s = (stack_now s \<noteq> None)"
| "fop_ok FReturn s = (case stack_now s of None \<Rightarrow> False | Some a \<Rightarrow> p_refs s a > 0)"
| "fop_ok FThrow s = (case stack_now s of None \<Rightarrow> False | Some a \<Rightarrow> p_refs s a > 0)"
| "fop_ok (FReset a cb) s =
     (case fibs s a of None \<Rightarrow> False | Some f \<Rightarrow> f_stack f \<and> (f_state f = INIT \<or> f_state f = FTERM \<or> f_state f = EXCEP))"
| "fop_ok (FCopy a) s = (p_refs s a > 0)"
| "fop_ok (FDrop a) s = (p_refs s a > 0)"
| "fop_ok FThreadEnd s =
     (stack_now s = None \<and> (case last_s_fiber s of None \<Rightarrow> True | Some m \<Rightarrow> p_refs s m = 0))"
| "fop_ok (FNew cb n) s = True"
| "fop_ok FGetThis s = True"
| "fop_ok (FSetThis f) s = False"
| "fop_ok (FSwapOut a) s = False"

text \<open>\<open>getcontext\<close> has no errors; \<open>swapcontext\<close> and \<open>malloc\<close> have memory.\<close>

definition fib_env_ok :: "fiber_env \<Rightarrow> bool" where
  "fib_env_ok env \<longleftrightarrow> fe_getcontext env = 0 \<and> fe_swapcontext env = 0 \<and> (\<forall>n. fe_malloc env n)"

subsection \<open>Control moves between the main fiber and one other\<close>

definition switch :: "fib_addr \<Rightarrow> fiber_obj \<Rightarrow> fib_addr \<Rightarrow> fiber_obj \<Rightarrow> fib_addr option \<Rightarrow> fiber_sys \<Rightarrow> fiber_sys" where
  "switch m fm a fa st s = s\<lparr>fibs := (fibs s)(m \<mapsto> fm, a \<mapsto> fa),
     cur_fiber := (if st = None then Some m else Some a), stack_now := st\<rparr>"

lemma switch_simps [simp]:
  "fibs (switch m fm a fa st s) = (fibs s)(m \<mapsto> fm, a \<mapsto> fa)"
  "cur_fiber (switch m fm a fa st s) = (if st = None then Some m else Some a)"
  "last_s_fiber (switch m fm a fa st s) = last_s_fiber s"
  "stack_now (switch m fm a fa st s) = st"
  "p_refs (switch m fm a fa st s) = p_refs s"
  "next_fib (switch m fm a fa st s) = next_fib s"
  "g_fiber_count (switch m fm a fa st s) = g_fiber_count s"
  by (simp_all add: switch_def)

lemma switch_ok [simp]:
  "main_ok (switch m fm a fa st s) = main_ok s"
  "running_ok (switch m fm a fa st s) = running_ok s"
  "idle_ok (switch m fm a fa st s) = idle_ok s"
  by (intro ext ok_cong; simp)+

lemma switch_inv:
  assumes inv: "fib_inv n0 s" and m: "last_s_fiber s = Some m" and a: "fibs s a \<noteq> None" "a \<noteq> m"
    and now: "stack_now s = None \<or> stack_now s = Some a" and st: "st = None \<or> st = Some a"
    and fm: "main_ok s m fm" "st \<noteq> None \<longrightarrow> f_ctx fm = CtxCall None None"
    and fa: "if st = None then idle_ok s a fa else running_ok s a fa"
  shows "fib_inv n0 (switch m fm a fa st s)"
proof -
  let ?s = "switch m fm a fa st s"
  note D = fib_invD [OF inv]
  from D(2) m have m': "fibs s m \<noteq> None" by (simp add: thread_ok_def)
  have dom: "dom (fibs ?s) = dom (fibs s)" using m' a(1) by auto
  have "fib_ok ?s b f" if b: "fibs ?s b = Some f" for b f
  proof (cases "b = m \<or> b = a")
    case True
    then show ?thesis using b m a(2) st fm fa by (auto simp: fib_ok_def split: if_splits)
  next
    case False
    with b D(1) [of b f] m now have "idle_ok s b f" by (auto simp: fib_ok_def split: if_splits)
    with False m st show ?thesis by (auto simp: fib_ok_def)
  qed
  moreover have "thread_ok ?s" using m' m a st by (auto simp: thread_ok_def)
  moreover have "memory_ok ?s" using D(3) m' a(1) by (auto simp: memory_ok_def)
  moreover have "g_fiber_count ?s = n0 + of_nat (card (dom (fibs ?s)))"
    using D(4) unfolding dom by simp
  ultimately show ?thesis by (simp add: fib_inv_def)
qed

lemma switch_abs:
  assumes "last_s_fiber s = Some m" "fibs s m = Some f0" "\<not> f_stack f0" "\<not> f_stack fm" "a \<noteq> m" "f_stack fa"
  shows "co_abs (switch m fm a fa st s) =
    \<lparr>co_running = st, co_status = (co_status (co_abs s))(a \<mapsto> status_of (f_state fa))\<rparr>"
  using assms by (auto simp: co_abs_def)

text \<open>What the invariant says where control is on the thread's stack, and on a fiber's.\<close>

lemma on_main:
  assumes "fib_inv n0 s" "last_s_fiber s = Some m" "stack_now s = None"
  obtains fm where "fibs s m = Some fm" "main_ok s m fm" "cur_fiber s = Some m"
    "\<And>b f. b \<noteq> m \<Longrightarrow> fibs s b = Some f \<Longrightarrow> idle_ok s b f"
  using fib_invD(1,2) [OF assms(1)] assms(2,3) by (auto simp: thread_ok_def fib_ok_def)

lemma on_fiber:
  assumes "fib_inv n0 s" "stack_now s = Some a"
  obtains m fm fa where "last_s_fiber s = Some m" "m \<noteq> a" "fibs s m = Some fm" "main_ok s m fm"
    "f_ctx fm = CtxCall None None" "fibs s a = Some fa" "running_ok s a fa" "cur_fiber s = Some a"
    "\<And>b f. b \<noteq> m \<Longrightarrow> b \<noteq> a \<Longrightarrow> fibs s b = Some f \<Longrightarrow> idle_ok s b f"
  using fib_invD(1,2) [OF assms(1)] assms(2) that
  by (auto simp: thread_ok_def fib_ok_def split: option.splits)

lemmas fib_equal = fiber_sys.equality fiber_obj.equality ext

subsection \<open>Each operation, under the discipline\<close>

definition implements_op :: "fiber_env \<Rightarrow> u64 \<Rightarrow> fop \<Rightarrow> fiber_sys \<Rightarrow> bool" where
  "implements_op env n0 op s \<longleftrightarrow>
     (\<exists>s'. fib_op env op s = Inr s' \<and> fib_inv n0 s' \<and> co_step op (co_abs s) (co_abs s'))"

lemma implements_opI:
  "fib_op env op s = Inr s' \<Longrightarrow> fib_inv n0 s' \<Longrightarrow> co_step op (co_abs s) (co_abs s') \<Longrightarrow> implements_op env n0 op s"
  by (auto simp: implements_op_def)

lemma swapIn_suspended:
  assumes env: "fib_env_ok env" and inv: "fib_inv n0 s" and m: "last_s_fiber s = Some m" "stack_now s = None"
    and a: "fibs s a = Some f" "f_state f = READY \<or> f_state f = HOLD"
  shows "implements_op env n0 (FSwapIn a) s"
proof -
  from on_main [OF inv m] obtain fm where fm: "fibs s m = Some fm" "main_ok s m fm" "cur_fiber s = Some m"
    and idle: "\<And>b f. b \<noteq> m \<Longrightarrow> fibs s b = Some f \<Longrightarrow> idle_ok s b f" by metis
  from fm a have neq: "a \<noteq> m" by (auto simp: main_ok_def)
  with idle [OF neq a(1)] a(2) have ctx: "f_ctx f = CtxCall (Some a) (Some a)" "f_refs f = p_refs s a + 2"
    "f_cb f \<noteq> None" "f_stack f" by (auto simp: idle_ok_def)
  let ?fm = "fm\<lparr>f_ctx := CtxCall None None\<rparr>"
    and ?fa = "f\<lparr>f_state := EXEC, f_ctx := CtxStale, f_refs := p_refs s a + 1\<rparr>"
  let ?s = "switch m ?fm a ?fa (Some a) s"
  have "fib_op env (FSwapIn a) s = Inr ?s"
    using env m a fm neq ctx
    by (auto simp: Fiber_swapIn_def swapcontext_def resume_def fib_defs fib_env_ok_def switch_def intro!: fib_equal)
  moreover have "fib_inv n0 ?s"
    by (rule switch_inv [OF inv m(1)]) (use a neq m fm ctx in \<open>auto simp: main_ok_def running_ok_def\<close>)
  moreover have "co_abs ?s = (co_abs s)\<lparr>co_running := Some a, co_status := (co_status (co_abs s))(a \<mapsto> Running)\<rparr>"
    using fm neq ctx(4) by (subst switch_abs [OF m(1) fm(1)]) (auto simp: main_ok_def status_of_def co_abs_def)
  moreover have "co_step (FSwapIn a) (co_abs s)
      ((co_abs s)\<lparr>co_running := Some a, co_status := (co_status (co_abs s))(a \<mapsto> Running)\<rparr>)"
    by (rule co_resume [of _ _ Suspended]) (use m a ctx(4) in \<open>auto simp: co_abs_def status_of_def\<close>)
  ultimately show ?thesis by (metis implements_opI)
qed

lemma swapIn_fresh:
  assumes env: "fib_env_ok env" and inv: "fib_inv n0 s" and m: "last_s_fiber s = Some m" "stack_now s = None"
    and a: "fibs s a = Some f" "f_state f = INIT" and cb: "f_cb f = Some cb"
  shows "implements_op env n0 (FSwapIn a) s"
proof -
  from on_main [OF inv m] obtain fm where fm: "fibs s m = Some fm" "main_ok s m fm" "cur_fiber s = Some m"
    and idle: "\<And>b f. b \<noteq> m \<Longrightarrow> fibs s b = Some f \<Longrightarrow> idle_ok s b f" by metis
  from fm a have neq: "a \<noteq> m" by (auto simp: main_ok_def)
  with idle [OF neq a(1)] a(2) have ctx: "f_ctx f = CtxEntry" "f_refs f = p_refs s a" "f_stack f"
    by (auto simp: idle_ok_def)
  let ?fm = "fm\<lparr>f_ctx := CtxCall None None\<rparr>"
    and ?fa = "f\<lparr>f_state := EXEC, f_ctx := CtxStale, f_refs := p_refs s a + 1\<rparr>"
  let ?s = "switch m ?fm a ?fa (Some a) s"
  have "fib_op env (FSwapIn a) s = Inr ?s"
    using env m a fm neq ctx cb
    by (auto simp: Fiber_swapIn_def swapcontext_def resume_def MainFunc_begin_def Fiber_GetThis_def fib_defs
        fib_env_ok_def switch_def intro!: fib_equal)
  moreover have "fib_inv n0 ?s"
    by (rule switch_inv [OF inv m(1)]) (use a neq m fm ctx cb in \<open>auto simp: main_ok_def running_ok_def\<close>)
  moreover have "co_abs ?s = (co_abs s)\<lparr>co_running := Some a, co_status := (co_status (co_abs s))(a \<mapsto> Running)\<rparr>"
    using fm neq ctx(3) by (subst switch_abs [OF m(1) fm(1)]) (auto simp: main_ok_def status_of_def co_abs_def)
  moreover have "co_step (FSwapIn a) (co_abs s)
      ((co_abs s)\<lparr>co_running := Some a, co_status := (co_status (co_abs s))(a \<mapsto> Running)\<rparr>)"
    by (rule co_resume [of _ _ Fresh]) (use m a ctx(3) in \<open>auto simp: co_abs_def status_of_def\<close>)
  ultimately show ?thesis by (metis implements_opI)
qed

lemma swapIn_empty:
  assumes env: "fib_env_ok env" and inv: "fib_inv n0 s" and m: "last_s_fiber s = Some m" "stack_now s = None"
    and a: "fibs s a = Some f" "f_state f = INIT" and cb: "f_cb f = None"
  shows "implements_op env n0 (FSwapIn a) s"
proof -
  from on_main [OF inv m] obtain fm where fm: "fibs s m = Some fm" "main_ok s m fm" "cur_fiber s = Some m"
    and idle: "\<And>b f. b \<noteq> m \<Longrightarrow> fibs s b = Some f \<Longrightarrow> idle_ok s b f" by metis
  from fm a have neq: "a \<noteq> m" by (auto simp: main_ok_def)
  with idle [OF neq a(1)] a(2) have ctx: "f_ctx f = CtxEntry" "f_refs f = p_refs s a" "p_refs s a > 0" "f_stack f"
    by (auto simp: idle_ok_def)
  let ?fm = "fm\<lparr>f_ctx := CtxStale\<rparr>" and ?fa = "f\<lparr>f_state := EXCEP, f_ctx := CtxEnd\<rparr>"
  let ?s = "switch m ?fm a ?fa None s"
  have "fib_op env (FSwapIn a) s = Inr ?s"
    using env m a fm neq ctx cb
    by (auto simp: Fiber_swapIn_def swapcontext_def resume_def MainFunc_begin_def MainFunc_throw_def
        MainFunc_leave_def Fiber_swapOut_as_def Fiber_GetThis_def fib_defs fib_env_ok_def switch_def intro!: fib_equal)
  moreover have "fib_inv n0 ?s"
    by (rule switch_inv [OF inv m(1)]) (use a neq m fm ctx in \<open>auto simp: main_ok_def idle_ok_def\<close>)
  moreover have "co_abs ?s = (co_abs s)\<lparr>co_status := (co_status (co_abs s))(a \<mapsto> Finished)\<rparr>"
    using fm neq ctx(4) m(2) by (subst switch_abs [OF m(1) fm(1)]) (auto simp: main_ok_def status_of_def co_abs_def)
  moreover have "co_step (FSwapIn a) (co_abs s) ((co_abs s)\<lparr>co_status := (co_status (co_abs s))(a \<mapsto> Finished)\<rparr>)"
    by (rule co_resume_empty) (use m a ctx(4) in \<open>auto simp: co_abs_def status_of_def\<close>)
  ultimately show ?thesis by (metis implements_opI)
qed

lemma yield_implements:
  assumes env: "fib_env_ok env" and inv: "fib_inv n0 s" and now: "stack_now s = Some a"
    and op: "op = FReady \<and> st = READY \<or> op = FHold \<and> st = HOLD"
  shows "implements_op env n0 op s"
proof -
  from on_fiber [OF inv now] obtain m fm fa where m: "last_s_fiber s = Some m" "m \<noteq> a" "fibs s m = Some fm"
    and ok: "main_ok s m fm" "f_ctx fm = CtxCall None None" and fa: "fibs s a = Some fa" "running_ok s a fa"
    and cur: "cur_fiber s = Some a" by metis
  let ?fm = "fm\<lparr>f_ctx := CtxStale\<rparr>"
    and ?fa = "fa\<lparr>f_state := st, f_ctx := CtxCall (Some a) (Some a), f_refs := f_refs fa + 1\<rparr>"
  let ?s = "switch m ?fm a ?fa None s"
  have "yield_with st env s = Inr ?s"
    using env m ok fa cur now
    by (auto simp: yield_with_def Fiber_GetThis_def Fiber_swapOut_as_def swapcontext_def resume_def fib_defs
        fib_env_ok_def switch_def intro!: fib_equal)
  then have "fib_op env op s = Inr ?s"
    using op by (auto simp: YieldToReady_def YieldToHold_def)
  moreover have "fib_inv n0 ?s"
    by (rule switch_inv [OF inv m(1)])
      (use m fa ok now op in \<open>auto simp: main_ok_def running_ok_def idle_ok_def\<close>)
  moreover have "co_abs ?s = (co_abs s)\<lparr>co_running := None, co_status := (co_status (co_abs s))(a \<mapsto> Suspended)\<rparr>"
    using m ok fa op by (subst switch_abs [OF m(1,3)])
      (auto simp: main_ok_def running_ok_def status_of_def co_abs_def)
  moreover have "co_step op (co_abs s)
      ((co_abs s)\<lparr>co_running := None, co_status := (co_status (co_abs s))(a \<mapsto> Suspended)\<rparr>)"
    by (rule co_yield) (use now op in \<open>auto simp: co_abs_def\<close>)
  ultimately show ?thesis by (metis implements_opI)
qed

lemma end_implements:
  assumes env: "fib_env_ok env" and inv: "fib_inv n0 s" and now: "stack_now s = Some a" and held: "p_refs s a > 0"
    and op: "op = FReturn \<or> op = FThrow"
  shows "implements_op env n0 op s"
proof -
  from on_fiber [OF inv now] obtain m fm fa where m: "last_s_fiber s = Some m" "m \<noteq> a" "fibs s m = Some fm"
    and ok: "main_ok s m fm" "f_ctx fm = CtxCall None None" and fa: "fibs s a = Some fa" "running_ok s a fa"
    and cur: "cur_fiber s = Some a" by metis
  let ?fm = "fm\<lparr>f_ctx := CtxStale\<rparr>"
    and ?fa = "(if op = FReturn then fa\<lparr>f_cb := None, f_state := FTERM\<rparr> else fa\<lparr>f_state := EXCEP\<rparr>)
      \<lparr>f_ctx := CtxEnd, f_refs := f_refs fa - 1\<rparr>"
  let ?s = "switch m ?fm a ?fa None s"
  have "fib_op env op s = Inr ?s"
    using env m ok fa now op held
    by (auto simp: end_callback_def MainFunc_return_def MainFunc_throw_def MainFunc_leave_def running_ok_def
        Fiber_swapOut_as_def swapcontext_def resume_def fib_defs fib_env_ok_def switch_def intro!: fib_equal)
  moreover have "fib_inv n0 ?s"
    by (rule switch_inv [OF inv m(1)])
      (use m fa ok now op held in \<open>auto simp: main_ok_def running_ok_def idle_ok_def\<close>)
  moreover have "co_abs ?s = (co_abs s)\<lparr>co_running := None, co_status := (co_status (co_abs s))(a \<mapsto> Finished)\<rparr>"
    using m ok fa op by (subst switch_abs [OF m(1,3)])
      (auto simp: main_ok_def running_ok_def status_of_def co_abs_def)
  moreover have "co_step op (co_abs s)
      ((co_abs s)\<lparr>co_running := None, co_status := (co_status (co_abs s))(a \<mapsto> Finished)\<rparr>)"
    by (rule co_end) (use now op in \<open>auto simp: co_abs_def\<close>)
  ultimately show ?thesis by (metis implements_opI)
qed

text \<open>One fiber changes, control stays where it is.\<close>

definition touch :: "fib_addr \<Rightarrow> fiber_obj \<Rightarrow> nat \<Rightarrow> fiber_sys \<Rightarrow> fiber_sys" where
  "touch a f n s = s\<lparr>fibs := (fibs s)(a \<mapsto> f), p_refs := (p_refs s)(a := n)\<rparr>"

lemma touch_simps [simp]:
  "fibs (touch a f n s) = (fibs s)(a \<mapsto> f)"
  "cur_fiber (touch a f n s) = cur_fiber s"
  "last_s_fiber (touch a f n s) = last_s_fiber s"
  "stack_now (touch a f n s) = stack_now s"
  "p_refs (touch a f n s) = (p_refs s)(a := n)"
  "next_fib (touch a f n s) = next_fib s"
  "g_fiber_count (touch a f n s) = g_fiber_count s"
  by (simp_all add: touch_def)

lemma fib_ok_cong:
  "last_s_fiber s' = last_s_fiber s \<Longrightarrow> stack_now s' = stack_now s \<Longrightarrow> p_refs s' a = p_refs s a
   \<Longrightarrow> fib_ok s' a f = fib_ok s a f"
  unfolding fib_ok_def using ok_cong [of s' a s f] by simp

lemma touch_inv:
  assumes inv: "fib_inv n0 s" and a: "fibs s a = Some f" and ok: "fib_ok (touch a f' n s) a f'"
  shows "fib_inv n0 (touch a f' n s)"
proof -
  note D = fib_invD [OF inv]
  have "fib_ok (touch a f' n s) b g" if "fibs (touch a f' n s) b = Some g" for b g
    using that ok D(1) [of b g] fib_ok_cong [of "touch a f' n s" s b g] by (cases "b = a") auto
  moreover have "dom (fibs (touch a f' n s)) = dom (fibs s)" using a by auto
  moreover have "thread_ok (touch a f' n s)" using D(2) by (auto simp: thread_ok_def split: option.splits)
  moreover have "memory_ok (touch a f' n s)" using D(3) a by (auto simp: memory_ok_def)
  ultimately show ?thesis using D(4) by (simp add: fib_inv_def)
qed

lemma touch_abs:
  "co_abs (touch a f n s) =
   (co_abs s)\<lparr>co_status := (co_status (co_abs s))(a := if f_stack f then Some (status_of (f_state f)) else None)\<rparr>"
  by (auto simp: co_abs_def touch_def)

lemma co_abs_same:
  assumes "fibs s a = Some f" "f_stack f' = f_stack f" "f_state f' = f_state f"
  shows "co_abs (touch a f' n s) = co_abs s"
  using assms by (auto simp: co_abs_def touch_def)

lemma reset_implements:
  assumes env: "fib_env_ok env" and inv: "fib_inv n0 s" and a: "fibs s a = Some f" "f_stack f"
    "f_state f = INIT \<or> f_state f = FTERM \<or> f_state f = EXCEP"
  shows "implements_op env n0 (FReset a cb) s"
proof -
  let ?f = "f\<lparr>f_cb := cb, f_ctx := CtxEntry, f_state := INIT\<rparr>" and ?n = "p_refs s a"
  have idle: "last_s_fiber s \<noteq> Some a" "stack_now s \<noteq> Some a" "idle_ok s a f"
    using fib_invD(1) [OF inv a(1)] a(2,3) by (auto simp: fib_ok_def main_ok_def running_ok_def split: if_splits)
  have "fib_op env (FReset a cb) s = Inr (touch a ?f ?n s)"
    using a env by (auto simp: Fiber_reset_def fib_defs fib_env_ok_def touch_def)
  moreover have "fib_ok (touch a ?f ?n s) a ?f"
    using idle a by (auto simp: fib_ok_def idle_ok_def)
  with inv a(1) have "fib_inv n0 (touch a ?f ?n s)" by (rule touch_inv)
  moreover have "co_abs (touch a ?f ?n s) = (co_abs s)\<lparr>co_status := (co_status (co_abs s))(a \<mapsto> Fresh)\<rparr>"
    unfolding touch_abs using a by (simp add: status_of_def)
  moreover have "co_step (FReset a cb) (co_abs s) ((co_abs s)\<lparr>co_status := (co_status (co_abs s))(a \<mapsto> Fresh)\<rparr>)"
    by (rule co_reset [of _ _ "status_of (f_state f)"]) (use a in \<open>auto simp: co_abs_def status_of_def\<close>)
  ultimately show ?thesis by (metis implements_opI)
qed

text \<open>One more pointer, or one less that is not the last.\<close>

lemma refs_positive: "fib_ok s a f \<Longrightarrow> p_refs s a < f_refs f \<or> f_refs f = p_refs s a \<and> idle_ok s a f"
  by (auto simp: fib_ok_def main_ok_def running_ok_def idle_ok_def split: if_splits fiber_state.splits)

lemma count_up_inv:
  assumes "fib_inv n0 s" "fibs s a = Some f"
  shows "fib_inv n0 (touch a (f\<lparr>f_refs := f_refs f + 1\<rparr>) (p_refs s a + 1) s)"
  using fib_invD(1) [OF assms]
  by (intro touch_inv [OF assms])
    (auto simp: fib_ok_def main_ok_def running_ok_def idle_ok_def split: if_splits fiber_state.splits)

lemma count_down_inv:
  assumes "fib_inv n0 s" "fibs s a = Some f" "p_refs s a > 0" "f_refs f > 1"
  shows "fib_inv n0 (touch a (f\<lparr>f_refs := f_refs f - 1\<rparr>) (p_refs s a - 1) s)"
  using fib_invD(1) [OF assms(1,2)] assms(3,4)
  by (intro touch_inv [OF assms(1,2)])
    (auto simp: fib_ok_def main_ok_def running_ok_def idle_ok_def split: if_splits fiber_state.splits)

lemma copy_implements:
  assumes inv: "fib_inv n0 s" and a: "p_refs s a > 0"
  shows "implements_op env n0 (FCopy a) s"
proof -
  from fib_invD(3) [OF inv] a obtain f where f: "fibs s a = Some f"
    by (cases "fibs s a") (auto simp: memory_ok_def)
  let ?s = "touch a (f\<lparr>f_refs := f_refs f + 1\<rparr>) (p_refs s a + 1) s"
  have "fib_op env (FCopy a) s = Inr ?s"
    using f a by (auto simp: fib_defs touch_def intro!: fib_equal)
  moreover have "co_step (FCopy a) (co_abs s) (co_abs ?s)"
    by (subst co_abs_same [OF f]) (auto intro: co_same)
  ultimately show ?thesis using count_up_inv [OF inv f] by (metis implements_opI)
qed

text \<open>The last pointer to an idle fiber goes away.\<close>

definition free_fib :: "fib_addr \<Rightarrow> fiber_sys \<Rightarrow> fiber_sys" where
  "free_fib a s = s\<lparr>fibs := (fibs s)(a := None), p_refs := (p_refs s)(a := 0), g_fiber_count := g_fiber_count s - 1\<rparr>"

lemma card_remove: "finite (dom m) \<Longrightarrow> m a = Some f \<Longrightarrow> of_nat (card (dom (m(a := None)))) = (of_nat (card (dom m)) :: u64) - 1"
  by (metis card_Suc_Diff1 domI dom_fun_upd of_nat_Suc add_diff_cancel_left')

lemma free_inv:
  assumes inv: "fib_inv n0 s" and a: "fibs s a = Some f" "last_s_fiber s \<noteq> Some a" "stack_now s \<noteq> Some a"
  shows "fib_inv n0 (free_fib a s)"
proof -
  note D = fib_invD [OF inv]
  have "fib_ok (free_fib a s) b g" if "fibs (free_fib a s) b = Some g" for b g
    using that D(1) [of b g] fib_ok_cong [of "free_fib a s" s b g] by (auto simp: free_fib_def split: if_splits)
  moreover have "thread_ok (free_fib a s)"
    using D(2) a(2,3) by (auto simp: thread_ok_def free_fib_def split: option.splits)
  moreover have "memory_ok (free_fib a s)" using D(3) by (auto simp: memory_ok_def free_fib_def)
  ultimately show ?thesis
    using D(4) card_remove [OF finite_fibs [OF D(3)] a(1)] by (simp add: fib_inv_def free_fib_def)
qed

lemma drop_implements:
  assumes inv: "fib_inv n0 s" and p: "p_refs s a > 0"
  shows "implements_op env n0 (FDrop a) s"
proof -
  from fib_invD(3) [OF inv] p obtain f where f: "fibs s a = Some f"
    by (cases "fibs s a") (auto simp: memory_ok_def)
  note ok = fib_invD(1) [OF inv f]
  show ?thesis
  proof (cases "f_refs f > 1")
    case True
    let ?s = "touch a (f\<lparr>f_refs := f_refs f - 1\<rparr>) (p_refs s a - 1) s"
    have "fib_op env (FDrop a) s = Inr ?s"
      using f p True by (auto simp: fib_defs touch_def intro!: fib_equal)
    moreover have "co_step (FDrop a) (co_abs s) (co_abs ?s)"
      by (subst co_abs_same [OF f]) (auto intro: co_same)
    ultimately show ?thesis using count_down_inv [OF inv f p True] by (metis implements_opI)
  next
    case False
    with refs_positive [OF ok] p have one: "f_refs f = 1" "p_refs s a = 1" and idle: "idle_ok s a f" by auto
    have st: "f_state f = INIT \<or> f_state f = FTERM \<or> f_state f = EXCEP" "f_stack f"
      using idle one by (auto simp: idle_ok_def split: fiber_state.splits)
    with ok have neq: "last_s_fiber s \<noteq> Some a" "stack_now s \<noteq> Some a"
      by (auto simp: fib_ok_def main_ok_def running_ok_def split: if_splits)
    have "fib_op env (FDrop a) s = Inr (free_fib a s)"
      using f p one st by (auto simp: fib_defs Fiber_dtor_def free_fib_def intro!: fib_equal)
    moreover have "co_abs (free_fib a s) = (co_abs s)\<lparr>co_status := (co_status (co_abs s))(a := None)\<rparr>"
      by (auto simp: co_abs_def free_fib_def)
    moreover have "co_step (FDrop a) (co_abs s) ((co_abs s)\<lparr>co_status := (co_status (co_abs s))(a := None)\<rparr>)"
      by (rule co_free [of _ _ "status_of (f_state f)"]) (use f st in \<open>auto simp: co_abs_def status_of_def\<close>)
    ultimately show ?thesis using free_inv [OF inv f neq] by (metis implements_opI)
  qed
qed

text \<open>A fiber appears at the next address.\<close>

lemma card_add: "finite (dom m) \<Longrightarrow> m a = None \<Longrightarrow> of_nat (card (dom (m(a \<mapsto> f)))) = (of_nat (card (dom m)) :: u64) + 1"
  by (simp add: domIff)

lemma next_fresh: "memory_ok s \<Longrightarrow> fibs s (next_fib s) = None \<and> p_refs s (next_fib s) = 0"
  unfolding memory_ok_def by blast

lemma add_inv:
  assumes inv: "fib_inv n0 s" and a: "a = next_fib s" and ok: "fib_ok s' a f"
    and s': "fibs s' = (fibs s)(a \<mapsto> f)" "p_refs s' = (p_refs s)(a := k)" "next_fib s' = a + 1"
      "g_fiber_count s' = g_fiber_count s + 1" "stack_now s' = stack_now s"
    and last: "last_s_fiber s' = last_s_fiber s \<and> cur_fiber s' = cur_fiber s \<or>
      last_s_fiber s = None \<and> last_s_fiber s' = Some a \<and> cur_fiber s' = Some a"
  shows "fib_inv n0 s'"
proof -
  note D = fib_invD [OF inv]
  have fresh: "fibs s a = None" "p_refs s a = 0" using next_fresh [OF D(3)] a by simp_all
  have "fib_ok s' b g" if g: "fibs s' b = Some g" for b g
  proof (cases "b = a")
    case True
    with g ok s'(1) show ?thesis by simp
  next
    case False
    with g s'(1) have g': "fib_ok s b g" using D(1) by simp
    have "p_refs s' b = p_refs s b" using False s'(2) by simp
    from last show ?thesis
    proof
      assume "last_s_fiber s' = last_s_fiber s \<and> cur_fiber s' = cur_fiber s"
      with g' \<open>p_refs s' b = p_refs s b\<close> s'(5) show ?thesis using fib_ok_cong by metis
    next
      assume "last_s_fiber s = None \<and> last_s_fiber s' = Some a \<and> cur_fiber s' = Some a"
      with g' False D(2) s'(5) show ?thesis
        using ok_cong(3) [OF \<open>p_refs s' b = p_refs s b\<close>] by (auto simp: fib_ok_def thread_ok_def)
    qed
  qed
  moreover have "thread_ok s'"
    using last D(2) s'(1,5) fresh(1) by (auto simp: thread_ok_def split: option.splits)
  moreover have "memory_ok s'"
    using D(3) a s'(1,2,3) by (auto simp: memory_ok_def less_Suc_eq)
  moreover have "g_fiber_count s' = n0 + of_nat (card (dom (fibs s')))"
    using s'(1,4) D(4) card_add [OF finite_fibs [OF D(3)] fresh(1)] by simp
  ultimately show ?thesis by (simp add: fib_inv_def)
qed

lemma new_implements:
  assumes env: "fib_env_ok env" and inv: "fib_inv n0 s"
  shows "implements_op env n0 (FNew cb n) s"
proof -
  note D = fib_invD [OF inv]
  let ?a = "next_fib s"
  have fresh: "fibs s ?a = None" "p_refs s ?a = 0" using next_fresh [OF D(3)] by simp_all
  let ?f = "\<lparr>f_id = g_fiber_id s + 1, f_stack_size = (if n \<noteq> 0 then n else ucast (fe_stack_size env)),
    f_state = INIT, f_ctx = CtxEntry, f_stack = True, f_cb = cb, f_refs = 1\<rparr>"
  let ?s = "s\<lparr>fibs := (fibs s)(?a \<mapsto> ?f), p_refs := (p_refs s)(?a := 1), next_fib := ?a + 1,
    g_fiber_id := g_fiber_id s + 1, g_fiber_count := g_fiber_count s + 1\<rparr>"
  have "fib_op env (FNew cb n) s = Inr ?s"
    using env fresh by (auto simp: Fiber_ctor_def fib_defs fib_env_ok_def intro!: fib_equal)
  moreover have "last_s_fiber s \<noteq> Some ?a" "stack_now s \<noteq> Some ?a"
    using D(2) fresh by (auto simp: thread_ok_def split: option.splits)
  then have "fib_inv n0 ?s"
    by (intro add_inv [OF inv refl, where f = ?f and k = 1]) (auto simp: fib_ok_def idle_ok_def)
  moreover have "co_abs ?s = (co_abs s)\<lparr>co_status := (co_status (co_abs s))(?a \<mapsto> Fresh)\<rparr>"
    by (auto simp: co_abs_def status_of_def)
  moreover have "co_step (FNew cb n) (co_abs s) ((co_abs s)\<lparr>co_status := (co_status (co_abs s))(?a \<mapsto> Fresh)\<rparr>)"
    by (rule co_new) (simp add: co_abs_def fresh)
  ultimately show ?thesis by (metis implements_opI)
qed

lemma getthis_implements:
  assumes env: "fib_env_ok env" and inv: "fib_inv n0 s"
  shows "implements_op env n0 FGetThis s"
proof (cases "cur_fiber s")
  case (Some a)
  with fib_invD(2) [OF inv] obtain f where f: "fibs s a = Some f"
    by (auto simp: thread_ok_def split: option.splits)
  let ?s = "touch a (f\<lparr>f_refs := f_refs f + 1\<rparr>) (p_refs s a + 1) s"
  have "fib_op env FGetThis s = Inr ?s"
    using f Some by (auto simp: Fiber_GetThis_def fib_defs touch_def intro!: fib_equal)
  moreover have "co_step FGetThis (co_abs s) (co_abs ?s)"
    by (subst co_abs_same [OF f]) (auto intro: co_same)
  ultimately show ?thesis using count_up_inv [OF inv f] by (metis implements_opI)
next
  case None
  note D = fib_invD [OF inv]
  from None D(2) have last: "last_s_fiber s = None" "stack_now s = None"
    by (auto simp: thread_ok_def split: option.splits)
  let ?a = "next_fib s"
  have fresh: "fibs s ?a = None" "p_refs s ?a = 0" using next_fresh [OF D(3)] by simp_all
  let ?f = "\<lparr>f_id = 0, f_stack_size = 0, f_state = EXEC, f_ctx = CtxCtor, f_stack = False, f_cb = None, f_refs = 2\<rparr>"
  let ?s = "s\<lparr>fibs := (fibs s)(?a \<mapsto> ?f), p_refs := (p_refs s)(?a := 1), next_fib := ?a + 1,
    g_fiber_count := g_fiber_count s + 1, cur_fiber := Some ?a, last_s_fiber := Some ?a\<rparr>"
  have "fib_op env FGetThis s = Inr ?s"
    using env fresh None last
    by (auto simp: Fiber_GetThis_def Fiber_main_ctor_def fib_defs fib_env_ok_def intro!: fib_equal)
  moreover have "fib_inv n0 ?s"
    by (intro add_inv [OF inv refl, where f = ?f and k = 1]) (auto simp: fib_ok_def main_ok_def last)
  moreover have "co_abs ?s = co_abs s" using fresh by (auto simp: co_abs_def)
  then have "co_step FGetThis (co_abs s) (co_abs ?s)" by (auto intro: co_same)
  ultimately show ?thesis by (rule implements_opI)
qed

lemma thread_end_implements:
  assumes inv: "fib_inv n0 s" and now: "stack_now s = None"
    and m: "\<And>m. last_s_fiber s = Some m \<Longrightarrow> p_refs s m = 0"
  shows "implements_op env n0 FThreadEnd s"
proof (cases "last_s_fiber s")
  case None
  then have "fib_op env FThreadEnd s = Inr s" using now by (simp add: drop_opt_def)
  then show ?thesis using inv by (auto simp: implements_op_def intro: co_same)
next
  case (Some m)
  note D = fib_invD [OF inv]
  from on_main [OF inv Some now] obtain fm where fm: "fibs s m = Some fm" "main_ok s m fm" "cur_fiber s = Some m"
    and idle: "\<And>b f. b \<noteq> m \<Longrightarrow> fibs s b = Some f \<Longrightarrow> idle_ok s b f" by metis
  let ?s = "s\<lparr>fibs := (fibs s)(m := None), g_fiber_count := g_fiber_count s - 1, cur_fiber := None, last_s_fiber := None\<rparr>"
  have "fib_op env FThreadEnd s = Inr ?s"
    using fm m [OF Some] now Some
    by (auto simp: fib_defs Fiber_dtor_def main_ok_def intro!: fib_equal)
  moreover have "fib_ok ?s b f" if "fibs ?s b = Some f" for b f
    using that idle [of b f] now ok_cong(3) [of ?s b s f] by (auto simp: fib_ok_def split: if_splits)
  then have "fib_inv n0 ?s"
    using D(3,4) now m [OF Some] card_remove [OF finite_fibs [OF D(3)] fm(1)]
    by (auto simp: fib_inv_def thread_ok_def memory_ok_def)
  moreover have "co_abs ?s = co_abs s" using fm by (auto simp: co_abs_def main_ok_def)
  then have "co_step FThreadEnd (co_abs s) (co_abs ?s)" by (auto intro: co_same)
  ultimately show ?thesis by (rule implements_opI)
qed

subsection \<open>The class implements coroutines\<close>

lemma fop_implements:
  assumes env: "fib_env_ok env" and inv: "fib_inv n0 s" and ok: "fop_ok op s"
  shows "implements_op env n0 op s"
proof (cases op)
  case (FSwapIn a)
  with ok obtain m f where "last_s_fiber s = Some m" "stack_now s = None" "fibs s a = Some f"
    "f_state f = INIT \<or> f_state f = READY \<or> f_state f = HOLD" by (auto split: option.splits)
  then show ?thesis
    using FSwapIn swapIn_suspended [OF env inv] swapIn_fresh [OF env inv] swapIn_empty [OF env inv]
    by (cases "f_cb f") blast+
next
  case FReady
  then show ?thesis using ok yield_implements [OF env inv] by auto
next
  case FHold
  then show ?thesis using ok yield_implements [OF env inv] by auto
next
  case FReturn
  then show ?thesis using ok end_implements [OF env inv] by (auto split: option.splits)
next
  case FThrow
  then show ?thesis using ok end_implements [OF env inv] by (auto split: option.splits)
next
  case (FReset a cb)
  then show ?thesis using ok reset_implements [OF env inv] by (auto split: option.splits)
next
  case FThreadEnd
  then show ?thesis using ok thread_end_implements [OF inv] by (auto split: option.splits)
qed (use ok new_implements [OF env inv] getthis_implements [OF env inv] copy_implements [OF inv]
    drop_implements [OF inv] in auto)

interpretation fibers: implementation "fib_op env" fop_ok "\<lambda>s. fib_env_ok env \<and> fib_inv n0 s" co_abs co_step for env n0
  using fop_implements by unfold_locales (auto simp: implements_op_def)

text \<open>The states of a disciplined program: \<open>n0\<close> fibers existed, \<open>i\<close> is the last id given.\<close>

definition fib_run :: "fiber_env \<Rightarrow> u64 \<Rightarrow> u64 \<Rightarrow> fop list \<Rightarrow> fiber_sys \<Rightarrow> bool" where
  "fib_run env i n0 ops s \<longleftrightarrow> fib_env_ok env \<and> run_pre fop_ok (fib_op env) ops (start_sys i n0)
     \<and> run_ops env ops (start_sys i n0) = Inr s"

lemma fib_run_inv: "fib_run env i n0 ops s \<Longrightarrow> fib_env_ok env \<and> fib_inv n0 s"
  unfolding fib_run_def run_ops_def using fibers.keeps fib_inv_start by metis

lemma counters_exact:
  assumes "fib_run env i n0 ops s"
  shows "TotalFibers s = n0 + of_nat (card {a. fibs s a \<noteq> None}) \<and>
    GetCurFiberId s = Inr (case stack_now s of None \<Rightarrow> 0 | Some a \<Rightarrow> f_id (the (fibs s a)))"
proof -
  from fib_run_inv [OF assms] have inv: "fib_inv n0 s" by simp
  note D = fib_invD [OF inv]
  have "GetCurFiberId s = Inr (case stack_now s of None \<Rightarrow> 0 | Some a \<Rightarrow> f_id (the (fibs s a)))"
  proof (cases "last_s_fiber s")
    case None
    with D(2) show ?thesis by (simp add: GetCurFiberId_def thread_ok_def)
  next
    case (Some m)
    with D(2) obtain f where f: "fibs s m = Some f" by (auto simp: thread_ok_def)
    with Some D(1) [OF f] have "f_id f = 0" by (simp add: fib_ok_def main_ok_def)
    with f D(2) Some show ?thesis
      by (cases "stack_now s") (auto simp: GetCurFiberId_def thread_ok_def with_fib_def)
  qed
  with D(4) show ?thesis by (simp add: TotalFibers_def dom_def)
qed

text \<open>
  The two queries. \<open>TotalFibers\<close> is the number of fibers of this thread that exist, main fiber
  included, and of the other threads; \<open>GetCurFiberId\<close> is the id of the fiber on whose stack the
  thread runs, and 0 on its own stack.
\<close>

theorem fiber_counters:
  assumes "fib_run env i n0 ops s"
  shows "TotalFibers s = n0 + of_nat (card {a. fibs s a \<noteq> None}) \<and>
    GetCurFiberId s = Inr (case stack_now s of None \<Rightarrow> 0 | Some a \<Rightarrow> f_id (the (fibs s a)))"
  using counters_exact [OF assms] .

text \<open>
  C23: an abandoned fiber leaks. A suspended fiber holds itself through the local variables on its own
  stack, so when the program drops its last pointer the fiber is not destroyed: the destructor's assertion
  is not reached, its stack is not freed, and it still counts.
\<close>

theorem abandoned_fiber_leaks:
  assumes "fib_run env i n0 ops s" and "fibs s a = Some f" "f_state f = HOLD \<or> f_state f = READY"
  shows "\<exists>s'. run_ops env (replicate (p_refs s a) (FDrop a)) s = Inr s' \<and> p_refs s' a = 0 \<and>
    fibs s' a = Some (f\<lparr>f_refs := 2\<rparr>) \<and> TotalFibers s' = TotalFibers s"
proof -
  have ok: "f_refs f = p_refs s a + 2"
    using fib_invD(1) [of n0 s a f] fib_run_inv [OF assms(1)] assms(2,3)
    by (auto simp: fib_ok_def main_ok_def running_ok_def idle_ok_def split: if_splits)
  have "\<exists>s'. run_ops env (replicate k (FDrop a)) s = Inr s' \<and> p_refs s' a = 0 \<and>
      fibs s' a = Some (f\<lparr>f_refs := 2\<rparr>) \<and> g_fiber_count s' = g_fiber_count s"
    if "p_refs s a = k" "fibs s a = Some (f\<lparr>f_refs := k + 2\<rparr>)" for k s
    using that
  proof (induction k arbitrary: s)
    case (Suc k)
    let ?s = "touch a (f\<lparr>f_refs := k + 2\<rparr>) k s"
    have "fib_op env (FDrop a) s = Inr ?s"
      using Suc.prems by (auto simp: fib_defs touch_def intro!: fib_equal)
    with Suc.IH [of ?s] show ?case by simp
  qed (simp add: eval_nat_numeral)
  from this [of s "p_refs s a"] ok assms(2) show ?thesis by (simp add: TotalFibers_def)
qed

subsection \<open>Outside the discipline\<close>

text \<open>
  C17: a fiber that resumes another one loses the way back. \<open>swapIn\<close> saves the caller's context
  in \<open>last_s_fiber\<close> whoever the caller is, and overwrites that of the thread's own code. When the
  inner fiber yields, control comes back to the outer one with \<open>GetThis\<close> being the main fiber, and
  when the outer one ends it switches to a context that was used up.
\<close>

theorem nested_swapIn_loses_caller:
  assumes run: "fib_run env i n0 ops s" and a: "stack_now s = Some a" "p_refs s a > 0"
    and b: "fibs s b = Some f" "f_state f = HOLD \<or> f_state f = READY"
  shows "\<exists>s1 s2. fib_op env (FSwapIn b) s = Inr s1 \<and> stack_now s1 = Some b \<and>
    fib_op env FHold s1 = Inr s2 \<and> stack_now s2 = Some a \<and> cur_fiber s2 = last_s_fiber s \<and>
    fib_op env FReturn s2 = Inl (Undefined ''context of a frame that returned'')"
proof -
  from fib_run_inv [OF run] have env: "fib_env_ok env" and inv: "fib_inv n0 s" by simp_all
  obtain m fm fa where m: "last_s_fiber s = Some m" "m \<noteq> a" "fibs s m = Some fm"
    "f_ctx fm = CtxCall None None" "main_ok s m fm" and fa: "fibs s a = Some fa" "running_ok s a fa"
    and idle: "\<And>b f. b \<noteq> m \<Longrightarrow> b \<noteq> a \<Longrightarrow> fibs s b = Some f \<Longrightarrow> idle_ok s b f"
    by (rule on_fiber [OF inv a(1)]) (rule that)
  have st: "f_state f \<noteq> EXEC" using b(2) by auto
  with m(3,5) b(1) have "b \<noteq> m" by (auto simp: main_ok_def)
  moreover have "b \<noteq> a" using fa b(1) st by (auto simp: running_ok_def)
  ultimately have neq: "b \<noteq> m" "b \<noteq> a" by simp_all
  with idle [OF neq b(1)] b(2) have ctx: "f_ctx f = CtxCall (Some b) (Some b)" "f_refs f = p_refs s b + 2"
    by (auto simp: idle_ok_def)
  let ?f1 = "f\<lparr>f_state := EXEC, f_ctx := CtxStale, f_refs := p_refs s b + 1\<rparr>"
  let ?s1 = "s\<lparr>fibs := (fibs s)(m \<mapsto> fm\<lparr>f_ctx := CtxCall (Some a) None\<rparr>, b \<mapsto> ?f1),
    cur_fiber := Some b, stack_now := Some b\<rparr>"
  let ?f2 = "f\<lparr>f_state := HOLD\<rparr>"
  let ?s2 = "s\<lparr>fibs := (fibs s)(m \<mapsto> fm\<lparr>f_ctx := CtxStale\<rparr>, b \<mapsto> ?f2), cur_fiber := Some m, stack_now := Some a\<rparr>"
  have "fib_op env (FSwapIn b) s = Inr ?s1"
    using env m fa(1) b(1) ctx neq a(1) st
    by (simp add: Fiber_swapIn_def swapcontext_def resume_def fib_defs fib_env_ok_def fun_upd_twist)
  moreover have "fib_op env FHold ?s1 = Inr ?s2"
    using env m fa ctx neq
    by (auto simp: YieldToHold_def yield_with_def Fiber_GetThis_def Fiber_swapOut_as_def swapcontext_def resume_def
        fib_defs fib_env_ok_def intro!: fib_equal)
  moreover have "fib_op env FReturn ?s2 = Inl (Undefined ''context of a frame that returned'')"
    using env m fa neq a(2)
    by (auto simp: end_callback_def MainFunc_return_def MainFunc_leave_def running_ok_def
        Fiber_swapOut_as_def swapcontext_def resume_def fib_defs fib_env_ok_def)
  ultimately show ?thesis using m(1) by (intro exI conjI) auto
qed

text \<open>
  What \<open>swapIn\<close> does out of turn. On the running or main fiber the assertion aborts the
  program; on a fiber that ended \<open>MainFunc\<close> returns, which ends the thread; and a thread that has
  not called \<open>GetThis\<close> has no main fiber to save the caller in.
\<close>

theorem swapIn_out_of_turn:
  assumes run: "fib_run env i n0 ops s" and a: "fibs s a = Some f"
  shows "(f_state f = EXEC \<longrightarrow> fib_op env (FSwapIn a) s = Inl (AssertAbort ''m_state != EXEC'')) \<and>
    (last_s_fiber s = None \<longrightarrow> fib_op env (FSwapIn a) s = Inl (NullDeref ''last_s_fiber'')) \<and>
    (last_s_fiber s \<noteq> None \<and> (f_state f = FTERM \<or> f_state f = EXCEP) \<longrightarrow> fib_op env (FSwapIn a) s = Inl ThreadExit)"
proof -
  from fib_run_inv [OF run] have env: "fib_env_ok env" and inv: "fib_inv n0 s" by simp_all
  note ok = fib_invD(1) [OF inv a] and thr = fib_invD(2) [OF inv]
  have 1: "fib_op env (FSwapIn a) s = Inl (AssertAbort ''m_state != EXEC'')" if "f_state f = EXEC"
    using that a by (simp add: Fiber_swapIn_def with_fib_def)
  have 2: "fib_op env (FSwapIn a) s = Inl (NullDeref ''last_s_fiber'')" if "last_s_fiber s = None"
  proof -
    from that thr ok have "f_state f \<noteq> EXEC" by (auto simp: thread_ok_def fib_ok_def idle_ok_def)
    with that a show ?thesis by (simp add: Fiber_swapIn_def fib_defs)
  qed
  have 3: "fib_op env (FSwapIn a) s = Inl ThreadExit"
    if "last_s_fiber s = Some m" "f_state f = FTERM \<or> f_state f = EXCEP" for m
  proof -
    from thr that(1) obtain fm where fm: "fibs s m = Some fm" by (auto simp: thread_ok_def)
    with fib_invD(1) [OF inv fm] that(1) have "f_state fm = EXEC" by (simp add: fib_ok_def main_ok_def)
    with that a fm have neq: "a \<noteq> m" by auto
    from ok that neq have "f_ctx f = CtxEnd" by (auto simp: fib_ok_def running_ok_def idle_ok_def split: if_splits)
    with that a fm neq env show ?thesis
      by (auto simp: Fiber_swapIn_def swapcontext_def resume_def fib_defs fib_env_ok_def)
  qed
  from 1 2 3 show ?thesis by blast
qed

text \<open>
  C33: a yield on the thread's own stack does not yield. It returns at once and leaves the main fiber
  in the state it was given, so that its destructor's assertion aborts the program when the thread ends.
\<close>

theorem yield_on_thread:
  assumes run: "fib_run env i n0 ops s" and m: "stack_now s = None" "last_s_fiber s = Some m" "p_refs s m = 0"
  shows "\<exists>s'. fib_op env FHold s = Inr s' \<and> stack_now s' = None \<and> co_abs s' = co_abs s \<and>
    map_option f_state (fibs s' m) = Some HOLD \<and>
    fib_op env FThreadEnd s' = Inl (AssertAbort ''m_state == EXEC'')"
proof -
  from fib_run_inv [OF run] have env: "fib_env_ok env" and inv: "fib_inv n0 s" by simp_all
  from on_main [OF inv m(2,1)] obtain fm where fm: "fibs s m = Some fm" "main_ok s m fm" "cur_fiber s = Some m"
    by metis
  let ?s = "s\<lparr>fibs := (fibs s)(m \<mapsto> fm\<lparr>f_state := HOLD, f_ctx := CtxStale\<rparr>)\<rparr>"
  have "fib_op env FHold s = Inr ?s"
    using env m fm
    by (auto simp: YieldToHold_def yield_with_def Fiber_GetThis_def Fiber_swapOut_as_def swapcontext_def resume_def
        main_ok_def fib_defs fib_env_ok_def intro!: fib_equal)
  moreover have "co_abs ?s = co_abs s" using fm by (auto simp: co_abs_def main_ok_def)
  moreover have "fib_op env FThreadEnd ?s = Inl (AssertAbort ''m_state == EXEC'')"
    using m fm by (auto simp: fib_defs Fiber_dtor_def main_ok_def)
  ultimately show ?thesis using m(1) by (intro exI [of _ ?s]) simp
qed

subsection \<open>Concrete executions\<close>

definition demo_fenv :: fiber_env where
  "demo_fenv = \<lparr>fe_stack_size = 1048576, fe_getcontext = 0, fe_swapcontext = 0, fe_malloc = (\<lambda>_. True)\<rparr>"

definition demo_state :: "fop list \<Rightarrow> fiber_sys" where
  "demo_state ops = (case run_ops demo_fenv ops (start_sys 0 0) of Inl _ \<Rightarrow> start_sys 0 0 | Inr s \<Rightarrow> s)"

lemma demo_fenv_ok: "fib_env_ok demo_fenv"
  by (simp add: fib_env_ok_def demo_fenv_def)

lemma demo_run: "run_pre fop_ok (fib_op demo_fenv) ops (start_sys 0 0) \<Longrightarrow> fib_run demo_fenv 0 0 ops (demo_state ops)"
  using fibers.runs [of demo_fenv 0 "start_sys 0 0" ops] demo_fenv_ok fib_inv_start
  by (auto simp: fib_run_def run_ops_def demo_state_def)

text \<open>A fiber that yields, and a second one that is running beside it.\<close>

definition held_ops :: "fop list" where
  "held_ops = [FGetThis, FDrop 0, FNew (Some 5) 0, FSwapIn 1, FHold]"

definition nested_ops :: "fop list" where
  "nested_ops = held_ops @ [FNew (Some 6) 0, FSwapIn 2]"

lemma held_run: "fib_run demo_fenv 0 0 held_ops (demo_state held_ops)"
  by (rule demo_run) code_simp

lemma nested_run: "fib_run demo_fenv 0 0 nested_ops (demo_state nested_ops)"
  by (rule demo_run) code_simp

lemma ended_run: "fib_run demo_fenv 0 0 (held_ops @ [FSwapIn 1, FReturn]) (demo_state (held_ops @ [FSwapIn 1, FReturn]))"
  by (rule demo_run) code_simp

lemma fiber_counters_witness:
  "GetCurFiberId (demo_state nested_ops) = Inr 2 \<and>
   TotalFibers (demo_state nested_ops) = of_nat (card {a. fibs (demo_state nested_ops) a \<noteq> None})"
proof -
  have "stack_now (demo_state nested_ops) = Some 2" "f_id (the (fibs (demo_state nested_ops) 2)) = 2" by code_simp+
  with fiber_counters [OF nested_run] show ?thesis by simp
qed

lemma abandoned_fiber_leaks_witness:
  "\<exists>s'. run_ops demo_fenv [FDrop 1] (demo_state held_ops) = Inr s' \<and> p_refs s' 1 = 0 \<and> fibs s' 1 \<noteq> None
     \<and> TotalFibers s' = 2"
proof -
  let ?f = "\<lparr>f_id = 1, f_stack_size = 1048576, f_state = HOLD, f_ctx = CtxCall (Some 1) (Some 1),
    f_stack = True, f_cb = Some 5, f_refs = 3\<rparr>"
  have f: "fibs (demo_state held_ops) 1 = Some ?f" and p: "p_refs (demo_state held_ops) 1 = 1"
    and n: "TotalFibers (demo_state held_ops) = 2" by code_simp+
  from abandoned_fiber_leaks [OF held_run f] p n show ?thesis by auto
qed

lemma nested_swapIn_loses_caller_witness:
  "\<exists>s1 s2. fib_op demo_fenv (FSwapIn 1) (demo_state nested_ops) = Inr s1 \<and> fib_op demo_fenv FHold s1 = Inr s2 \<and>
     cur_fiber s2 = Some 0 \<and> fib_op demo_fenv FReturn s2 = Inl (Undefined ''context of a frame that returned'')"
proof -
  let ?f = "\<lparr>f_id = 1, f_stack_size = 1048576, f_state = HOLD, f_ctx = CtxCall (Some 1) (Some 1),
    f_stack = True, f_cb = Some 5, f_refs = 3\<rparr>"
  have "stack_now (demo_state nested_ops) = Some 2" "p_refs (demo_state nested_ops) 2 > 0"
    "fibs (demo_state nested_ops) 1 = Some ?f" and m: "last_s_fiber (demo_state nested_ops) = Some 0" by code_simp+
  from nested_swapIn_loses_caller [OF nested_run this(1,2,3)] m show ?thesis by auto
qed

lemma swapIn_out_of_turn_witness:
  "fib_op demo_fenv (FSwapIn 1) (demo_state (held_ops @ [FSwapIn 1, FReturn])) = Inl ThreadExit"
proof -
  let ?s = "demo_state (held_ops @ [FSwapIn 1, FReturn])"
  let ?f = "\<lparr>f_id = 1, f_stack_size = 1048576, f_state = FTERM, f_ctx = CtxEnd, f_stack = True, f_cb = None, f_refs = 1\<rparr>"
  have "fibs ?s 1 = Some ?f" "last_s_fiber ?s = Some 0" by code_simp+
  from swapIn_out_of_turn [OF ended_run this(1)] this(2) show ?thesis by simp
qed

lemma yield_on_thread_witness:
  "\<exists>s'. fib_op demo_fenv FHold (demo_state held_ops) = Inr s' \<and>
     fib_op demo_fenv FThreadEnd s' = Inl (AssertAbort ''m_state == EXEC'')"
proof -
  have "stack_now (demo_state held_ops) = None" "last_s_fiber (demo_state held_ops) = Some 0"
    "p_refs (demo_state held_ops) 0 = 0" by code_simp+
  from yield_on_thread [OF held_run this] show ?thesis by blast
qed

end
