(* ===== verification/FiberConf.thy ===== *)
theory FiberConf
  imports ConfigProps FiberProps
begin

section \<open>The configured stack size\<close>

text \<open>
  \<open>g_fiber_stack_size\<close> of \<open>src/fiber.cpp\<close>: the configuration variable that the constructor of
  a fiber reads when it is given no size. \<open>read\<close> turns a value of the configuration's basic type
  \<open>uint32_t\<close> into a machine word.
\<close>

definition stack_size_name :: string where
  "stack_size_name = ''fiber.stack_size''"

definition g_fiber_stack_size ::
  "('b, 'w) cfg_env \<Rightarrow> 'b \<Rightarrow> ('b, 'w) config \<Rightarrow> (string option result \<times> ('b, 'w) config) result" where
  "g_fiber_stack_size env mega c =
     Lookup_create env (TBase ''unsigned int'') stack_size_name (VBase mega) ''fiber static size'' c"

text \<open>\<open>g_fiber_stack_size->getValue()\<close>; a variable of another type makes the pointer null.\<close>

definition configured_size :: "('b \<Rightarrow> u32) \<Rightarrow> string option \<Rightarrow> ('b, 'w) config \<Rightarrow> u32 result" where
  "configured_size read p c =
     (case p of
        None \<Rightarrow> Inl (NullDeref ''g_fiber_stack_size'')
      | Some name \<Rightarrow> with_var name c (\<lambda>cv.
          case getValue cv of VBase b \<Rightarrow> Inr (read b) | _ \<Rightarrow> Inl (Undefined ''not a basic value'')))"

definition configured_ctor ::
  "('b \<Rightarrow> u32) \<Rightarrow> string option \<Rightarrow> ('b, 'w) config \<Rightarrow> fiber_env \<Rightarrow> nat option \<Rightarrow> u64 \<Rightarrow> fiber_sys
     \<Rightarrow> (fib_addr \<times> fiber_sys) result" where
  "configured_ctor read p c fenv cb n s =
     rbind (if n \<noteq> 0 then Inr (fe_stack_size fenv) else configured_size read p c) (\<lambda>k.
       Fiber_ctor (fenv\<lparr>fe_stack_size := k\<rparr>) cb n s)"

text \<open>The value a list of texts leaves: the last one that is a number.\<close>

definition size_after :: "'b lex_api \<Rightarrow> 'b \<Rightarrow> string list \<Rightarrow> 'b" where
  "size_after api mega ts =
     fold (\<lambda>t b. case lex_from api ''unsigned int'' t of Inr b' \<Rightarrow> b' | Inl _ \<Rightarrow> b) ts mega"

lemma fold_assign_base:
  "fold (assign api (TBase ''unsigned int'')) ts (VBase b) = VBase (size_after api b ts)"
proof (induction ts arbitrary: b)
  case (Cons t ts)
  then show ?case by (cases "lex_from api ''unsigned int'' t") (simp_all add: assign_def size_after_def)
qed (simp add: size_after_def)

text \<open>
  C25: the stack size comes from the configuration. When the fiber module registers its variable and a
  document is loaded afterwards, a fiber that is given no size gets the last number the document has
  under \<open>fiber.stack_size\<close>, in any letter case, and the default when it has none; a fiber that is
  given a size keeps it.
\<close>

theorem configured_stack_size:
  assumes "env_ok env okb ok" and "ok (world c)" and "mwf (datas c)"
    and "map_of (datas c) stack_size_name = None" and "fe_getcontext fenv = 0"
  shows "\<exists>c1 c2. g_fiber_stack_size env mega c = Inr (Inr (Some stack_size_name), c1) \<and>
    LoadFromYaml env root c1 = Inr c2 \<and>
    (\<exists>a s'. configured_ctor read (Some stack_size_name) c2 fenv cb n s = Inr (a, s') \<and>
      map_option f_stack_size (fibs s' a) = Some (if n \<noteq> 0 then n
        else ucast (read (size_after (lex env) mega (texts_for (lex env) stack_size_name (members [] root))))))"
proof -
  let ?cv = "new_config_var (TBase ''unsigned int'') stack_size_name (VBase mega) ''fiber static size''"
  let ?c1 = "put_var stack_size_name ?cv c"
  have "valid_name stack_size_name" by code_simp
  then have 1: "g_fiber_stack_size env mega c = Inr (Inr (Some stack_size_name), ?c1)"
    using assms(4) by (simp add: g_fiber_stack_size_def Lookup_create_def)
  have "mwf (datas ?c1)" "world ?c1 = world c" "map_of (datas ?c1) stack_size_name = Some ?cv"
    using assms(3) by (simp_all add: put_var_def)
  with load_result [OF assms(1), of ?c1 root] assms(2) obtain c2 where load: "LoadFromYaml env root ?c1 = Inr c2"
    and c2: "map_of (datas c2) stack_size_name = Some (after_load (lex env) (members [] root) stack_size_name ?cv)"
    by auto
  have "configured_size read (Some stack_size_name) c2 =
      Inr (read (size_after (lex env) mega (texts_for (lex env) stack_size_name (members [] root))))"
    using c2 by (simp add: configured_size_def with_var_def getValue_def after_load_def new_config_var_def fold_assign_base)
  then have "\<exists>a s'. configured_ctor read (Some stack_size_name) c2 fenv cb n s = Inr (a, s') \<and>
      map_option f_stack_size (fibs s' a) = Some (if n \<noteq> 0 then n
        else ucast (read (size_after (lex env) mega (texts_for (lex env) stack_size_name (members [] root)))))"
    using assms(5) by (simp add: configured_ctor_def Fiber_ctor_def Let_def set_fib_def)
  with 1 load show ?thesis by blast
qed

lemma configured_stack_size_witness:
  "\<exists>c1 c2. g_fiber_stack_size demo_cfg_env 1048576 demo_config = Inr (Inr (Some stack_size_name), c1) \<and>
    LoadFromYaml demo_cfg_env (YMap [(YScalar ''Fiber'', YMap [(YScalar ''stack_size'', YScalar ''4096'')])]) c1 = Inr c2 \<and>
    (\<exists>a s'. configured_ctor of_int (Some stack_size_name) c2 demo_fenv (Some 5) 0 (start_sys 0 0) = Inr (a, s') \<and>
      map_option f_stack_size (fibs s' a) = Some 4096)"
proof -
  let ?doc = "YMap [(YScalar ''Fiber'', YMap [(YScalar ''stack_size'', YScalar ''4096'')])]"
  have free: "map_of (datas demo_config) stack_size_name = None" by code_simp
  have "size_after (lex demo_cfg_env) 1048576 (texts_for (lex demo_cfg_env) stack_size_name (members [] ?doc)) = 4096"
    by code_simp
  with configured_stack_size [OF demo_env_ok _ config_wfD(1) [OF demo_config_wf] free, of demo_fenv 1048576 ?doc of_int
      "Some 5" 0 "start_sys 0 0"]
  show ?thesis by (simp add: demo_fenv_def)
qed

end
