(* ===== verification/Util.thy ===== *)
theory Util
  imports LoggerThms Thread FiberProps
begin

section \<open>Thread and fiber ids, backtraces, assertions\<close>

text \<open>
  \<open>src/util.cpp\<close> and \<open>include/macro.hpp\<close>. The system call and the functions of
  \<open>execinfo.h\<close> are parameters; the ids that a logging macro puts into an event come from the
  models of threads and fibers.
\<close>

subsection \<open>Ids\<close>

text \<open>\<open>syscall\<close> returns a \<open>long\<close>, which becomes a \<open>pid_t\<close>.\<close>

definition GetThreadId :: "u64 \<Rightarrow> i32" where
  "GetThreadId gettid = ucast gettid"

text \<open>The 64-bit id becomes a \<open>uint32_t\<close>.\<close>

definition GetFiberId :: "fiber_sys \<Rightarrow> u32 result" where
  "GetFiberId s = rbind (GetCurFiberId s) (\<lambda>i. Inr (ucast i))"

text \<open>What the macros of \<open>log.hpp\<close> ask for where they are used.\<close>

definition macro_site :: "string \<Rightarrow> i32 \<Rightarrow> u64 \<Rightarrow> os_thread \<Rightarrow> fiber_sys \<Rightarrow> call_site result" where
  "macro_site file line gettid t fs =
     rbind (GetFiberId fs) (\<lambda>i.
       Inr \<lparr>c_file = file, c_line = line, c_thread = GetThreadId gettid, c_fiber = i, c_tname = Thread_GetName t\<rparr>)"

subsection \<open>Backtraces\<close>

text \<open>
  \<open>malloc\<close> for the given number of entries, the frames that \<open>backtrace\<close> stores (it returns
  their number), what the rest of the array holds, and \<open>backtrace_symbols\<close>, which may fail.
\<close>

record trace_api =
  ta_malloc :: "int \<Rightarrow> bool"
  ta_frames :: "int \<Rightarrow> nat list"
  ta_junk :: "int \<Rightarrow> nat list"
  ta_symbols :: "nat list \<Rightarrow> string list option"

text \<open>
  The strings and whether the two arrays were freed; when \<open>backtrace_symbols\<close> fails the function
  logs an error and returns before it frees. The symbols of the whole array are asked for, also of the
  entries \<open>backtrace\<close> did not fill.
\<close>

definition BackTrace :: "trace_api \<Rightarrow> string list \<Rightarrow> int \<Rightarrow> int \<Rightarrow> (string list \<times> bool) result" where
  "BackTrace api bt n skip =
     (if \<not> ta_malloc api n then Inl (Undefined ''backtrace into null'')
      else
        let frames = ta_frames api n; s = int (length frames); arr = frames @ drop (length frames) (ta_junk api n) in
        case ta_symbols api arr of
          None \<Rightarrow> Inr (bt, False)
        | Some strs \<Rightarrow>
            rbind (rfold (\<lambda>i bt. if 0 \<le> i \<and> nat i < length strs then Inr (bt @ [strs ! nat i])
                                 else Inl (Undefined ''index out of range'')) [skip..s - 1] bt) (\<lambda>bt.
              Inr (bt, True)))"

definition BackTraceToString :: "trace_api \<Rightarrow> int \<Rightarrow> int \<Rightarrow> string \<Rightarrow> string result" where
  "BackTraceToString api n skip prefix =
     rbind (BackTrace api [] n skip) (\<lambda>(strs, _).
       Inr (concat (map (\<lambda>str. prefix @ str @ [CHR 0x0A]) strs)))"

subsection \<open>Assertions\<close>

text \<open>
  \<open>YECC_ASSERT(x)\<close> and \<open>YECC_ASSERT2(x, w)\<close>, for the text of the expression and the
  streamed text \<open>w\<close>. The program is built without \<open>NDEBUG\<close>, so \<open>assert\<close> aborts.
  The macro's \<open>if\<close> around the streamed message means that the backtrace is not made for a logger
  that would not log it.
\<close>

datatype assert_outcome = Continues log_sys | Aborts string log_sys

definition assert_text :: "trace_api \<Rightarrow> string \<Rightarrow> string option \<Rightarrow> string result" where
  "assert_text api expr w =
     rbind (BackTraceToString api 100 2 ''    '') (\<lambda>bt.
       Inr (''ASSERTION: '' @ expr @ (case w of None \<Rightarrow> [] | Some w \<Rightarrow> [CHR 0x0A] @ w) @ [CHR 0x0A] @
         ''backtrace: '' @ [CHR 0x0A] @ bt))"

definition assert_fails ::
  "env \<Rightarrow> trace_api \<Rightarrow> call_site \<Rightarrow> string \<Rightarrow> string option \<Rightarrow> log_sys \<Rightarrow> assert_outcome result option" where
  "assert_fails env api c expr w st =
     (case loggers st (getRoot st) of
        None \<Rightarrow> Some (Inl (NullDeref ''logger''))
      | Some lg \<Rightarrow>
          if l_level lg \<le> ERROR then
            (case assert_text api expr w of
               Inl e \<Rightarrow> Some (Inl e)
             | Inr text \<Rightarrow>
                 map_option (\<lambda>r. rbind r (\<lambda>st. Inr (Aborts expr st))) (YECC_LOG_LEVEL env c (getRoot st) ERROR text st))
          else Some (Inr (Aborts expr st)))"

definition YECC_ASSERT ::
  "env \<Rightarrow> trace_api \<Rightarrow> call_site \<Rightarrow> bool \<Rightarrow> string \<Rightarrow> log_sys \<Rightarrow> assert_outcome result option" where
  "YECC_ASSERT env api c x expr st =
     (if \<not> x then assert_fails env api c expr None st else Some (Inr (Continues st)))"

definition YECC_ASSERT2 ::
  "env \<Rightarrow> trace_api \<Rightarrow> call_site \<Rightarrow> bool \<Rightarrow> string \<Rightarrow> string \<Rightarrow> log_sys \<Rightarrow> assert_outcome result option" where
  "YECC_ASSERT2 env api c x expr w st =
     (if \<not> x then assert_fails env api c expr (Some w) st else Some (Inr (Continues st)))"

subsection \<open>Backtraces have one line per frame\<close>

lemma push_frames:
  "0 \<le> k \<Longrightarrow> nat k + n \<le> length strs \<Longrightarrow>
   rfold (\<lambda>i bt. if 0 \<le> i \<and> nat i < length strs then Inr (bt @ [strs ! nat i])
      else Inl (Undefined ''index out of range'')) [k..k + int n - 1] bt = Inr (bt @ take n (drop (nat k) strs))"
proof (induction n arbitrary: k bt)
  case (Suc n)
  then have "[k..k + int (Suc n) - 1] = k # [k + 1..(k + 1) + int n - 1]" by (subst upto_rec1) auto
  moreover have "take (Suc n) (drop (nat k) strs) = strs ! nat k # take n (drop (nat (k + 1)) strs)"
    using Suc.prems by (simp add: nat_add_distrib Cons_nth_drop_Suc [symmetric])
  ultimately show ?case using Suc.prems Suc.IH [of "k + 1" "bt @ [strs ! nat k]"] by (simp add: nat_add_distrib)
qed simp

lemma push_from:
  assumes "0 \<le> k" "length frames \<le> length strs"
  shows "rfold (\<lambda>i bt. if 0 \<le> i \<and> nat i < length strs then Inr (bt @ [strs ! nat i])
      else Inl (Undefined ''index out of range'')) [k..int (length frames) - 1] bt =
    Inr (bt @ drop (nat k) (take (length frames) strs))"
proof (cases "nat k \<le> length frames")
  case True
  then have "k + int (length frames - nat k) - 1 = int (length frames) - 1" using assms(1) by auto
  with push_frames [of k "length frames - nat k" strs bt] True assms show ?thesis by (simp add: drop_take)
next
  case False
  then show ?thesis by simp
qed

text \<open>
  A backtrace's text. Whatever the unused part of the array holds, as long as
  \<open>backtrace_symbols\<close> describes each address by itself the text has one line for every frame but
  the first ones skipped, in the order of the stack, and both arrays are freed.
\<close>

theorem backtrace_lines:
  assumes "ta_malloc api n" and "\<And>arr. ta_symbols api arr = Some (map describe arr)" and "0 \<le> skip"
  shows "BackTraceToString api n skip prefix =
      Inr (concat (map (\<lambda>a. prefix @ describe a @ [CHR 0x0A]) (drop (nat skip) (ta_frames api n)))) \<and>
    (\<exists>bt. BackTrace api [] n skip = Inr (bt, True))"
proof -
  let ?arr = "ta_frames api n @ drop (length (ta_frames api n)) (ta_junk api n)"
  have "BackTrace api [] n skip = Inr (map describe (drop (nat skip) (ta_frames api n)), True)"
    using push_from [OF assms(3), of "ta_frames api n" "map describe ?arr" "[]"] assms(1,2)
    by (simp add: BackTrace_def Let_def drop_map take_map del: map_append)
  then show ?thesis by (simp add: BackTraceToString_def comp_def)
qed

end
