(* ===== verification/FiberThreads.thy ===== *)
theory FiberThreads
  imports FiberProps Sync
begin

section \<open>Fibers on several threads\<close>

text \<open>
  The fibers, their ids and their counters are shared by the program's threads; \<open>cur_fiber\<close> and
  \<open>last_s_fiber\<close> are \<open>thread_local\<close>, and every thread runs on a stack of its own choice. A
  thread's operation is the one of \<open>Fiber\<close> on the shared part and the thread's own; the operations of
  different threads are interleaved, each as a whole. A fiber may be suspended on one thread and resumed
  on another.
\<close>

record fib_local =
  l_cur :: "fib_addr option"
  l_last :: "fib_addr option"
  l_stack :: "fib_addr option"

record fib_multi =
  mf_fibs :: "fib_addr \<Rightarrow> fiber_obj option"
  mf_id :: u64
  mf_count :: u64
  mf_prefs :: "fib_addr \<Rightarrow> nat"
  mf_next :: fib_addr
  mf_loc :: "tid \<Rightarrow> fib_local"

definition mt_view :: "tid \<Rightarrow> fib_multi \<Rightarrow> fiber_sys" where
  "mt_view t S = \<lparr>fibs = mf_fibs S, cur_fiber = l_cur (mf_loc S t), last_s_fiber = l_last (mf_loc S t),
     g_fiber_id = mf_id S, g_fiber_count = mf_count S, stack_now = l_stack (mf_loc S t),
     p_refs = mf_prefs S, next_fib = mf_next S\<rparr>"

definition mt_put :: "tid \<Rightarrow> fiber_sys \<Rightarrow> fib_multi \<Rightarrow> fib_multi" where
  "mt_put t s S = \<lparr>mf_fibs = fibs s, mf_id = g_fiber_id s, mf_count = g_fiber_count s, mf_prefs = p_refs s,
     mf_next = next_fib s,
     mf_loc = (mf_loc S)(t := \<lparr>l_cur = cur_fiber s, l_last = last_s_fiber s, l_stack = stack_now s\<rparr>)\<rparr>"

definition mt_op :: "fiber_env \<Rightarrow> tid \<times> fop \<Rightarrow> fib_multi \<Rightarrow> fib_multi result" where
  "mt_op env p S = rbind (fib_op env (snd p) (mt_view (fst p) S)) (\<lambda>s. Inr (mt_put (fst p) s S))"

definition mt_start :: fib_multi where
  "mt_start = \<lparr>mf_fibs = (\<lambda>_. None), mf_id = 0, mf_count = 0, mf_prefs = (\<lambda>_. 0), mf_next = 0,
     mf_loc = (\<lambda>_. \<lparr>l_cur = None, l_last = None, l_stack = None\<rparr>)\<rparr>"

lemma mt_view_simps [simp]:
  "fibs (mt_view t S) = mf_fibs S" "cur_fiber (mt_view t S) = l_cur (mf_loc S t)"
  "last_s_fiber (mt_view t S) = l_last (mf_loc S t)" "stack_now (mt_view t S) = l_stack (mf_loc S t)"
  "g_fiber_id (mt_view t S) = mf_id S" "g_fiber_count (mt_view t S) = mf_count S"
  "p_refs (mt_view t S) = mf_prefs S" "next_fib (mt_view t S) = mf_next S"
  by (simp_all add: mt_view_def)

lemma mt_put_simps [simp]:
  "mf_fibs (mt_put t s S) = fibs s" "mf_id (mt_put t s S) = g_fiber_id s" "mf_count (mt_put t s S) = g_fiber_count s"
  "mf_prefs (mt_put t s S) = p_refs s" "mf_next (mt_put t s S) = next_fib s"
  "mf_loc (mt_put t s S) u = (if u = t then \<lparr>l_cur = cur_fiber s, l_last = last_s_fiber s, l_stack = stack_now s\<rparr>
     else mf_loc S u)"
  by (simp_all add: mt_put_def)

subsection \<open>Operations touch what they use\<close>

text \<open>
  The state \<open>s\<close> and, beside it, the fibers of a set \<open>A\<close> of addresses that it does not have.
\<close>

definition beside :: "fib_addr set \<Rightarrow> (fib_addr \<Rightarrow> fiber_obj option) \<Rightarrow> (fib_addr \<Rightarrow> nat) \<Rightarrow> fiber_sys \<Rightarrow> fiber_sys" where
  "beside A F R s = s\<lparr>fibs := (\<lambda>a. if a \<in> A then F a else fibs s a), p_refs := (\<lambda>a. if a \<in> A then R a else p_refs s a)\<rparr>"

definition away :: "fib_addr set \<Rightarrow> fiber_sys \<Rightarrow> bool" where
  "away A s \<longleftrightarrow> (\<forall>a \<in> A. fibs s a = None \<and> a < next_fib s)"

lemma beside_simps [simp]:
  "cur_fiber (beside A F R s) = cur_fiber s" "last_s_fiber (beside A F R s) = last_s_fiber s"
  "stack_now (beside A F R s) = stack_now s" "next_fib (beside A F R s) = next_fib s"
  "g_fiber_id (beside A F R s) = g_fiber_id s" "g_fiber_count (beside A F R s) = g_fiber_count s"
  "fibs (beside A F R s) a = (if a \<in> A then F a else fibs s a)"
  "p_refs (beside A F R s) a = (if a \<in> A then R a else p_refs s a)"
  by (simp_all add: beside_def)

named_theorems frame

lemma beside_updates [frame]:
  "(beside A F R s)\<lparr>cur_fiber := c\<rparr> = beside A F R (s\<lparr>cur_fiber := c\<rparr>)"
  "(beside A F R s)\<lparr>last_s_fiber := c\<rparr> = beside A F R (s\<lparr>last_s_fiber := c\<rparr>)"
  "(beside A F R s)\<lparr>stack_now := c\<rparr> = beside A F R (s\<lparr>stack_now := c\<rparr>)"
  "(beside A F R s)\<lparr>next_fib := n\<rparr> = beside A F R (s\<lparr>next_fib := n\<rparr>)"
  "(beside A F R s)\<lparr>g_fiber_id := i\<rparr> = beside A F R (s\<lparr>g_fiber_id := i\<rparr>)"
  "(beside A F R s)\<lparr>g_fiber_count := i\<rparr> = beside A F R (s\<lparr>g_fiber_count := i\<rparr>)"
  by (auto simp: beside_def intro!: fib_equal)

lemma beside_set [frame]: "a \<notin> A \<Longrightarrow> set_fib a f (beside A F R s) = beside A F R (set_fib a f s)"
  by (auto simp: set_fib_def beside_def intro!: fib_equal)

lemma beside_own [frame]: "a \<notin> A \<Longrightarrow> own a (beside A F R s) = beside A F R (own a s)"
  "a \<notin> A \<Longrightarrow> disown a (beside A F R s) = beside A F R (disown a s)"
  by (auto simp: own_def disown_def beside_def intro!: fib_equal)

lemma beside_free [frame]: "a \<notin> A \<Longrightarrow> p_refs s' = p_refs s \<Longrightarrow>
    (beside A F R s')\<lparr>fibs := (fibs (beside A F R s))(a := None)\<rparr> = beside A F R (s'\<lparr>fibs := (fibs s)(a := None)\<rparr>)"
  by (auto simp: beside_def intro!: fib_equal)

lemma away_updates [simp]:
  "away A (s\<lparr>cur_fiber := c\<rparr>) = away A s" "away A (s\<lparr>last_s_fiber := c\<rparr>) = away A s"
  "away A (s\<lparr>stack_now := c\<rparr>) = away A s" "away A (s\<lparr>g_fiber_id := i\<rparr>) = away A s"
  "away A (s\<lparr>g_fiber_count := n\<rparr>) = away A s" "away A (own a s) = away A s" "away A (disown a s) = away A s"
  by (simp_all add: away_def own_def disown_def)

lemma away_next [frame]: "away A s \<Longrightarrow> away A (s\<lparr>next_fib := Suc (next_fib s)\<rparr>)"
  by (auto simp: away_def intro: less_SucI)

lemma away_set [frame]: "a \<notin> A \<Longrightarrow> away A (set_fib a f s) = away A s"
  by (auto simp: away_def set_fib_def)

lemma away_free [frame]: "away A s \<Longrightarrow> next_fib s' = next_fib s \<Longrightarrow> away A (s'\<lparr>fibs := (fibs s)(a := None)\<rparr>)"
  by (auto simp: away_def)

lemma away_new [frame]: "away A s \<Longrightarrow> next_fib s \<notin> A"
  by (auto simp: away_def)

lemma away_at: "away A s \<Longrightarrow> fibs s a = Some f \<Longrightarrow> a \<notin> A"
  by (auto simp: away_def)

lemma with_fib_Inr: "with_fib a s k = Inr x \<longleftrightarrow> (\<exists>f. fibs s a = Some f \<and> k f = Inr x)"
  by (simp add: with_fib_def split: option.splits)

lemma with_beside [frame]: "away A s \<Longrightarrow> fibs s a = Some f \<Longrightarrow> with_fib a (beside A F R s) k = k f"
  by (auto simp: with_fib_def away_def)

lemma set_fib_simps [simp]:
  "cur_fiber (set_fib a f s) = cur_fiber s" "last_s_fiber (set_fib a f s) = last_s_fiber s"
  "stack_now (set_fib a f s) = stack_now s" "next_fib (set_fib a f s) = next_fib s"
  "g_fiber_id (set_fib a f s) = g_fiber_id s" "g_fiber_count (set_fib a f s) = g_fiber_count s"
  "fibs (set_fib a f s) = (fibs s)(a \<mapsto> f)" "p_refs (set_fib a f s) = p_refs s"
  by (simp_all add: set_fib_def)

text \<open>An operation that succeeds does the same beside other fibers.\<close>

definition local_op :: "(fiber_sys \<Rightarrow> fiber_sys result) \<Rightarrow> bool" where
  "local_op f \<longleftrightarrow> (\<forall>A F R s s'. away A s \<longrightarrow> f s = Inr s' \<longrightarrow> f (beside A F R s) = Inr (beside A F R s') \<and> away A s')"

definition local_get :: "(fiber_sys \<Rightarrow> (fib_addr \<times> fiber_sys) result) \<Rightarrow> bool" where
  "local_get f \<longleftrightarrow> (\<forall>A F R s a s'. away A s \<longrightarrow> f s = Inr (a, s') \<longrightarrow>
     f (beside A F R s) = Inr (a, beside A F R s') \<and> away A s' \<and> a \<notin> A)"

lemma local_opI: "(\<And>A F R s s'. away A s \<Longrightarrow> f s = Inr s' \<Longrightarrow> f (beside A F R s) = Inr (beside A F R s') \<and> away A s')
    \<Longrightarrow> local_op f"
  by (simp add: local_op_def)

lemma local_getI: "(\<And>A F R s a s'. away A s \<Longrightarrow> f s = Inr (a, s') \<Longrightarrow>
     f (beside A F R s) = Inr (a, beside A F R s') \<and> away A s' \<and> a \<notin> A) \<Longrightarrow> local_get f"
  by (simp add: local_get_def)

lemma local_opD: "local_op f \<Longrightarrow> away A s \<Longrightarrow> f s = Inr s' \<Longrightarrow> f (beside A F R s) = Inr (beside A F R s') \<and> away A s'"
  by (simp add: local_op_def)

lemma local_getD: "local_get f \<Longrightarrow> away A s \<Longrightarrow> f s = Inr (a, s')
    \<Longrightarrow> f (beside A F R s) = Inr (a, beside A F R s') \<and> away A s' \<and> a \<notin> A"
  unfolding local_get_def by blast

named_theorems locals

lemma local_bind [locals]: "local_op f \<Longrightarrow> local_op g \<Longrightarrow> local_op (\<lambda>s. rbind (f s) g)"
proof (rule local_opI)
  fix A F R s s'
  assume f: "local_op f" and g: "local_op g" and aw: "away A s" and run: "rbind (f s) g = Inr s'"
  from run obtain s1 where 1: "f s = Inr s1" "g s1 = Inr s'" by (auto simp: rbind_eq_Inr)
  from local_opD [OF f aw 1(1), of F R] local_opD [OF g, of A s1 s' F R] 1(2)
  show "rbind (f (beside A F R s)) g = Inr (beside A F R s') \<and> away A s'" by simp
qed

lemma local_bind_get [locals]: "local_get f \<Longrightarrow> (\<And>a. local_op (g a)) \<Longrightarrow> local_op (\<lambda>s. rbind (f s) (\<lambda>(a, s). g a s))"
proof (rule local_opI)
  fix A F R s s'
  assume f: "local_get f" and g: "\<And>a. local_op (g a)" and aw: "away A s"
    and run: "rbind (f s) (\<lambda>(a, s). g a s) = Inr s'"
  from run obtain a s1 where 1: "f s = Inr (a, s1)" "g a s1 = Inr s'" by (auto simp: rbind_eq_Inr)
  from local_getD [OF f aw 1(1), of F R] local_opD [OF g, of A s1 a s' F R] 1(2)
  show "rbind (f (beside A F R s)) (\<lambda>(a, s). g a s) = Inr (beside A F R s') \<and> away A s'" by simp
qed

lemma local_Inl [locals]: "local_op (\<lambda>s. Inl e)"
  by (simp add: local_op_def)

lemma Fiber_dtor_local [locals]: "local_op (Fiber_dtor a)"
proof (rule local_opI)
  fix A F R s s'
  assume aw: "away A s" and run: "Fiber_dtor a s = Inr s'"
  then obtain f where f: "fibs s a = Some f" by (auto simp: Fiber_dtor_def with_fib_Inr)
  note na = away_at [OF aw f]
  from run f aw na show "Fiber_dtor a (beside A F R s) = Inr (beside A F R s') \<and> away A s'"
    by (auto simp: Fiber_dtor_def with_fib_def Let_def Fiber_SetThis_def frame split: if_splits)
qed

lemma add_ref_local [locals]: "local_op (add_ref a)"
  by (rule local_opI) (auto simp: add_ref_def with_fib_Inr frame dest: away_at)

lemma drop_ref_local [locals]: "local_op (drop_ref a)"
proof (rule local_opI)
  fix A F R s s'
  assume aw: "away A s" and run: "drop_ref a s = Inr s'"
  then obtain f where f: "fibs s a = Some f" by (auto simp: drop_ref_def with_fib_Inr)
  from run f aw away_at [OF aw f] local_opD [OF Fiber_dtor_local aw, of a]
  show "drop_ref a (beside A F R s) = Inr (beside A F R s') \<and> away A s'"
    by (auto simp: drop_ref_def with_fib_def frame split: if_splits)
qed

lemma drop_opt_local [locals]: "local_op (drop_opt p)"
  using drop_ref_local by (cases p) (auto simp: drop_opt_def local_op_def)

lemma Fiber_reset_local [locals]: "local_op (Fiber_reset env a cb)"
  by (rule local_opI) (auto simp: Fiber_reset_def with_fib_Inr frame dest: away_at split: if_splits)

text \<open>A fiber that is used, and one that is changed before the rest.\<close>

lemma local_with [locals]:
  assumes "\<And>f. local_op (k f)"
  shows "local_op (\<lambda>s. with_fib a s (\<lambda>f. k f s))"
  using local_opD [OF assms] by (auto intro!: local_opI simp: with_fib_def split: option.splits dest: away_at)

lemma local_with_set [locals]:
  assumes "\<And>f. local_op (k f)"
  shows "local_op (\<lambda>s. with_fib a s (\<lambda>f. k f (set_fib a (h f) s)))"
proof (rule local_opI)
  fix A F R s s'
  assume aw: "away A s" and run: "with_fib a s (\<lambda>f. k f (set_fib a (h f) s)) = Inr s'"
  then obtain f where f: "fibs s a = Some f" "k f (set_fib a (h f) s) = Inr s'" by (auto simp: with_fib_Inr)
  note na = away_at [OF aw f(1)]
  from aw na have "away A (set_fib a (h f) s)" by (simp add: frame)
  from local_opD [OF assms this f(2), of F R] na f(1) aw
  show "with_fib a (beside A F R s) (\<lambda>f. k f (set_fib a (h f) (beside A F R s))) = Inr (beside A F R s') \<and> away A s'"
    by (simp add: frame)
qed

lemma local_if [locals]: "local_op f \<Longrightarrow> local_op g \<Longrightarrow> local_op (\<lambda>s. if b then f s else g s)"
  by (cases b) auto

lemma local_fields:
  "(\<And>c. local_op (g c)) \<Longrightarrow> local_op (\<lambda>s. g (cur_fiber s) s)"
  "(\<And>c. local_op (g c)) \<Longrightarrow> local_op (\<lambda>s. g (last_s_fiber s) s)"
  "(\<And>c. local_op (g c)) \<Longrightarrow> local_op (\<lambda>s. g (stack_now s) s)"
  by (simp_all add: local_op_def)

lemma local_puts:
  "local_op f \<Longrightarrow> local_op (\<lambda>s. f (s\<lparr>cur_fiber := c\<rparr>))"
  "local_op f \<Longrightarrow> local_op (\<lambda>s. f (s\<lparr>last_s_fiber := c\<rparr>))"
  "local_op f \<Longrightarrow> local_op (\<lambda>s. f (s\<lparr>stack_now := c\<rparr>))"
  by (rule local_opI, simp add: frame, rule local_opD, auto)+

lemma Fiber_main_ctor_local: "local_get (Fiber_main_ctor env)"
  by (rule local_getI) (auto simp: Fiber_main_ctor_def Fiber_SetThis_def Let_def frame split: if_splits)

lemma Fiber_ctor_local: "local_get (Fiber_ctor env cb n)"
  by (rule local_getI) (auto simp: Fiber_ctor_def Let_def frame split: if_splits)

lemma Fiber_GetThis_local: "local_get (Fiber_GetThis env)"
proof (rule local_getI)
  fix A F R s a s'
  assume aw: "away A s" and run: "Fiber_GetThis env s = Inr (a, s')"
  show "Fiber_GetThis env (beside A F R s) = Inr (a, beside A F R s') \<and> away A s' \<and> a \<notin> A"
  proof (cases "cur_fiber s")
    case (Some c)
    with run obtain f where "fibs s c = Some f" by (auto simp: Fiber_GetThis_def add_ref_def rbind_eq_Inr with_fib_Inr)
    from away_at [OF aw this] local_opD [OF add_ref_local aw, of c s' F R] run Some show ?thesis
      by (auto simp: Fiber_GetThis_def rbind_eq_Inr)
  next
    case None
    with run obtain s1 s2 s3 s4 where
      1: "Fiber_main_ctor env s = Inr (a, s1)" "cur_fiber s1 = Some a" and 2: "add_ref a s1 = Inr s2"
      and 3: "drop_opt (last_s_fiber s2) (s2\<lparr>last_s_fiber := Some a\<rparr>) = Inr s3" and 4: "add_ref a s3 = Inr s4"
      and 5: "drop_ref a s4 = Inr s'"
      by (auto simp: Fiber_GetThis_def rbind_eq_Inr split: if_splits)
    note l1 = local_getD [OF Fiber_main_ctor_local aw 1(1), of F R]
    then have aw1: "away A s1" by simp
    note l2 = local_opD [OF add_ref_local aw1 2, of F R]
    then have aw2: "away A (s2\<lparr>last_s_fiber := Some a\<rparr>)" by simp
    note l3 = local_opD [OF drop_opt_local aw2 3, of F R]
    then have aw3: "away A s3" by simp
    note l4 = local_opD [OF add_ref_local aw3 4, of F R]
    then have aw4: "away A s4" by simp
    note l5 = local_opD [OF drop_ref_local aw4 5, of F R]
    from None 1(2) l1 l2 l3 l4 l5 show ?thesis by (simp add: Fiber_GetThis_def frame)
  qed
qed

lemma resume_local:
  assumes "\<And>b. local_op (entry b)"
  shows "local_op (resume entry b)"
proof (rule local_opI)
  fix A F R s s'
  assume aw: "away A s" and run: "resume entry b s = Inr s'"
  then obtain f where f: "fibs s b = Some f" by (auto simp: resume_def with_fib_Inr)
  note na = away_at [OF aw f]
  let ?s = "set_fib b (f\<lparr>f_ctx := CtxStale\<rparr>) s"
  from aw na have aw': "away A (?s\<lparr>stack_now := c\<rparr>)" for c by (simp add: frame)
  show "resume entry b (beside A F R s) = Inr (beside A F R s') \<and> away A s'"
  proof (cases "f_ctx f")
    case CtxEntry
    with f na run aw local_opD [OF assms aw', of b "Some b" s' F R] show ?thesis
      by (auto simp: resume_def with_fib_def Let_def frame split: if_splits)
  next
    case (CtxCall st held)
    with f na run aw local_opD [OF drop_opt_local aw', of held st s' F R] show ?thesis
      by (auto simp: resume_def with_fib_def Let_def frame split: if_splits option.splits dest: away_at)
  qed (use run f in \<open>simp_all add: resume_def with_fib_def\<close>)
qed

lemma swapcontext_local:
  assumes "\<And>b. local_op (entry b)"
  shows "local_op (swapcontext env entry c a b)"
  unfolding swapcontext_def
  by (intro locals resume_local assms)

lemma Fiber_swapOut_as_local [locals]: "local_op (Fiber_swapOut_as env c a)"
proof (rule local_opI)
  fix A F R s s'
  assume aw: "away A s" and run: "Fiber_swapOut_as env c a s = Inr s'"
  let ?f = "swapcontext env (\<lambda>_ _. Inl (Undefined ''main fiber entered'')) c a"
  from run obtain m where m: "last_s_fiber s = Some m" "?f m (s\<lparr>cur_fiber := Some m\<rparr>) = Inr s'"
    by (auto simp: Fiber_swapOut_as_def Fiber_SetThis_def split: option.splits)
  from aw have "away A (s\<lparr>cur_fiber := Some m\<rparr>)" by simp
  from local_opD [OF swapcontext_local this m(2), of F R] m(1)
  show "Fiber_swapOut_as env c a (beside A F R s) = Inr (beside A F R s') \<and> away A s'"
    by (simp add: Fiber_swapOut_as_def Fiber_SetThis_def frame local_Inl)
qed

lemma MainFunc_leave_local [locals]: "local_op (MainFunc_leave env a)"
  unfolding MainFunc_leave_def by (intro locals)

lemma MainFunc_return_local [locals]: "local_op (MainFunc_return env a)"
  unfolding MainFunc_return_def by (intro local_with_set locals)

lemma MainFunc_throw_local [locals]: "local_op (MainFunc_throw env a)"
  unfolding MainFunc_throw_def by (intro local_with_set locals)

lemma MainFunc_begin_local [locals]: "local_op (MainFunc_begin env b)"
proof -
  have "local_op (\<lambda>s. case c of None \<Rightarrow> MainFunc_throw env cur s | Some _ \<Rightarrow> Inr s)" for c cur
    using MainFunc_throw_local [of env cur] by (cases c) (simp_all add: local_op_def)
  then have "local_op (\<lambda>s. with_fib cur s (\<lambda>f. case f_cb f of None \<Rightarrow> MainFunc_throw env cur s | Some _ \<Rightarrow> Inr s))" for cur
    by (intro local_with)
  then show ?thesis unfolding MainFunc_begin_def by (intro local_bind_get Fiber_GetThis_local)
qed

lemma Fiber_swapIn_local [locals]: "local_op (Fiber_swapIn env a)"
proof (rule local_opI)
  fix A F R s s'
  assume aw: "away A s" and run: "Fiber_swapIn env a s = Inr s'"
  let ?f = "\<lambda>st m. swapcontext env (MainFunc_begin env) (CtxCall st None) m a"
  from run obtain f m where f: "fibs s a = Some f" "f_state f \<noteq> EXEC" and m: "last_s_fiber s = Some m"
    and sw: "?f (stack_now s) m ((set_fib a (f\<lparr>f_state := EXEC\<rparr>) s)\<lparr>cur_fiber := Some a\<rparr>) = Inr s'"
    by (auto simp: Fiber_swapIn_def with_fib_Inr Let_def Fiber_SetThis_def split: if_splits option.splits)
  note na = away_at [OF aw f(1)]
  from aw na have "away A ((set_fib a (f\<lparr>f_state := EXEC\<rparr>) s)\<lparr>cur_fiber := Some a\<rparr>)" by (simp add: frame)
  from local_opD [OF swapcontext_local [OF MainFunc_begin_local] this sw, of F R] f m na aw
  show "Fiber_swapIn env a (beside A F R s) = Inr (beside A F R s') \<and> away A s'"
    by (simp add: Fiber_swapIn_def Let_def Fiber_SetThis_def frame)
qed

lemma yield_with_local [locals]: "local_op (yield_with st env)"
proof -
  have 1: "local_op (\<lambda>s. Fiber_swapOut_as env (CtxCall (stack_now s) (Some cur)) cur s)" for cur
    by (rule local_fields(3)) (rule locals)
  have "local_op (\<lambda>s. with_fib cur s (\<lambda>f.
      (\<lambda>s. Fiber_swapOut_as env (CtxCall (stack_now s) (Some cur)) cur s) (set_fib cur (f\<lparr>f_state := st\<rparr>) s)))" for cur
    by (rule local_with_set) (rule 1)
  then show ?thesis unfolding yield_with_def Let_def by (intro local_bind_get Fiber_GetThis_local)
qed

lemma end_callback_local: "(\<And>a. local_op (m env a)) \<Longrightarrow> local_op (end_callback m env)"
  unfolding end_callback_def local_op_def by (auto split: option.splits)

lemma own_local: "local_get g \<Longrightarrow> local_op (\<lambda>s. rbind (g s) (\<lambda>(a, s). Inr (own a s)))"
proof (rule local_opI)
  fix A F R s s'
  assume g: "local_get g" and aw: "away A s" and "rbind (g s) (\<lambda>(a, s). Inr (own a s)) = Inr s'"
  then obtain a s1 where 1: "g s = Inr (a, s1)" "s' = own a s1" by (auto simp: rbind_eq_Inr)
  from local_getD [OF g aw 1(1), of F R] 1(2)
  show "rbind (g (beside A F R s)) (\<lambda>(a, s). Inr (own a s)) = Inr (beside A F R s') \<and> away A s'" by (simp add: frame)
qed

text \<open>Every operation is local.\<close>

lemma fib_op_local: "local_op (fib_op env op)"
proof (cases op)
  case (FNew cb n)
  with own_local [OF Fiber_ctor_local] show ?thesis by (simp add: local_op_def)
next
  case FGetThis
  with own_local [OF Fiber_GetThis_local] show ?thesis by (simp add: local_op_def)
next
  case (FSetThis f)
  then show ?thesis by (simp add: local_op_def Fiber_SetThis_def frame)
next
  case (FSwapIn a)
  with Fiber_swapIn_local show ?thesis by (simp add: local_op_def)
next
  case (FSwapOut a)
  have "local_op (Fiber_swapOut env a)" unfolding Fiber_swapOut_def [abs_def]
    by (rule local_fields(3)) (rule locals)
  with FSwapOut show ?thesis by (simp add: local_op_def)
next
  case FReady
  with yield_with_local show ?thesis by (simp add: local_op_def YieldToReady_def)
next
  case FHold
  with yield_with_local show ?thesis by (simp add: local_op_def YieldToHold_def)
next
  case FReturn
  with end_callback_local [OF MainFunc_return_local] show ?thesis by (simp add: local_op_def)
next
  case FThrow
  with end_callback_local [OF MainFunc_throw_local] show ?thesis by (simp add: local_op_def)
next
  case (FReset a cb)
  with Fiber_reset_local show ?thesis by (simp add: local_op_def)
next
  case FThreadEnd
  have "local_op (\<lambda>s. drop_opt (last_s_fiber s) (s\<lparr>last_s_fiber := None\<rparr>))"
    by (rule local_fields(2)) (intro local_puts locals)
  with FThreadEnd show ?thesis by (auto simp: local_op_def)
next
  case (FCopy a)
  show ?thesis
    by (rule local_opI) (auto simp: FCopy add_ref_def rbind_eq_Inr with_fib_def frame
        split: if_splits option.splits dest: away_at)
next
  case (FDrop a)
  show ?thesis
  proof (rule local_opI)
    fix A F R s s'
    assume aw: "away A s" and run: "fib_op env op s = Inr s'"
    with FDrop have d: "drop_ref a (disown a s) = Inr s'" "p_refs s a \<noteq> 0" by (auto split: if_splits)
    then obtain f where "fibs s a = Some f" by (auto simp: drop_ref_def with_fib_Inr disown_def)
    note na = away_at [OF aw this]
    from aw have "away A (disown a s)" by simp
    from local_opD [OF drop_ref_local this d(1), of F R] d(2) na FDrop
    show "fib_op env op (beside A F R s) = Inr (beside A F R s') \<and> away A s'" by (simp add: frame)
  qed
qed

end
