(* ===== verification/FiberThreadsProps.thy ===== *)
theory FiberThreadsProps
  imports FiberThreads
begin

section \<open>Coroutines on several threads\<close>

text \<open>
  The invariant of all fibers: every thread's own, with the fibers that the other threads run left out.
  It follows that disciplined threads implement coroutines which any thread may resume.
\<close>

subsection \<open>What the threads run\<close>

definition owned :: "tid \<Rightarrow> fib_multi \<Rightarrow> fib_addr set" where
  "owned t S = set_option (l_last (mf_loc S t)) \<union> set_option (l_stack (mf_loc S t))"

definition hidden :: "tid \<Rightarrow> fib_multi \<Rightarrow> fib_addr set" where
  "hidden t S = (\<Union>u \<in> - {t}. owned u S)"

text \<open>The fibers as one thread would see them if it could not see those of the others.\<close>

definition alone :: "tid \<Rightarrow> fib_multi \<Rightarrow> fiber_sys" where
  "alone t S = (mt_view t S)\<lparr>fibs := (\<lambda>a. if a \<in> hidden t S then None else mf_fibs S a),
     p_refs := (\<lambda>a. if a \<in> hidden t S then 0 else mf_prefs S a)\<rparr>"

lemma alone_simps [simp]:
  "fibs (alone t S) a = (if a \<in> hidden t S then None else mf_fibs S a)"
  "p_refs (alone t S) a = (if a \<in> hidden t S then 0 else mf_prefs S a)"
  "cur_fiber (alone t S) = l_cur (mf_loc S t)" "last_s_fiber (alone t S) = l_last (mf_loc S t)"
  "stack_now (alone t S) = l_stack (mf_loc S t)" "g_fiber_id (alone t S) = mf_id S"
  "g_fiber_count (alone t S) = mf_count S" "next_fib (alone t S) = mf_next S"
  by (simp_all add: alone_def)

definition others :: "tid \<Rightarrow> fib_multi \<Rightarrow> u64" where
  "others t S = mf_count S - of_nat (card (dom (fibs (alone t S))))"

definition mt_inv :: "fib_multi \<Rightarrow> bool" where
  "mt_inv S \<longleftrightarrow> (\<forall>t. fib_inv (others t S) (alone t S)) \<and> (\<forall>t. owned t S \<inter> hidden t S = {})
     \<and> mf_count S = of_nat (card (dom (mf_fibs S)))"

lemma mt_invD:
  assumes "mt_inv S"
  shows "fib_inv (others t S) (alone t S)" "a \<in> owned t S \<Longrightarrow> a \<notin> hidden t S"
    "mf_count S = of_nat (card (dom (mf_fibs S)))"
  using assms by (auto simp: mt_inv_def)

lemma mt_inv_start: "mt_inv mt_start"
  by (simp add: mt_inv_def mt_start_def fib_inv_def thread_ok_def memory_ok_def others_def owned_def hidden_def dom_def)

lemma view_beside: "mt_view t S = beside (hidden t S) (mf_fibs S) (mf_prefs S) (alone t S)"
  by (auto simp: beside_def intro!: fib_equal)

lemma owned_exist:
  assumes inv: "mt_inv S" and a: "a \<in> owned t S"
  obtains f where "mf_fibs S a = Some f" "f_state f = EXEC" "f_refs f = mf_prefs S a + 1" "fib_ok (alone t S) a f"
proof -
  note D = fib_invD [OF mt_invD(1) [OF inv, of t]]
  note na = mt_invD(2) [OF inv a]
  from D(2) a na obtain f where f: "mf_fibs S a = Some f" "a \<in> owned t S"
    by (auto simp: thread_ok_def owned_def split: option.splits)
  with D(1) [of a f] na have ok: "fib_ok (alone t S) a f" by simp
  with a na have "f_state f = EXEC \<and> f_refs f = mf_prefs S a + 1"
    by (auto simp: fib_ok_def owned_def main_ok_def running_ok_def split: if_splits)
  with that f ok show thesis by blast
qed

lemma hidden_exist:
  assumes "mt_inv S" "a \<in> hidden t S"
  shows "\<exists>f. mf_fibs S a = Some f \<and> f_state f = EXEC"
  using assms owned_exist unfolding hidden_def by blast

lemma seen_by:
  assumes "mt_inv S"
  obtains t where "a \<notin> hidden t S"
  using mt_invD(2) [OF assms] unfolding hidden_def by blast

lemma mt_memory:
  assumes inv: "mt_inv S"
  shows "mf_fibs S a \<noteq> None \<Longrightarrow> a < mf_next S" "mf_fibs S a = None \<Longrightarrow> mf_prefs S a = 0"
proof -
  obtain t where t: "a \<notin> hidden t S" by (rule seen_by [OF inv])
  from fib_invD(3) [OF mt_invD(1) [OF inv, of t]] have
    "fibs (alone t S) a \<noteq> None \<Longrightarrow> a < mf_next S" "fibs (alone t S) a = None \<Longrightarrow> p_refs (alone t S) a = 0"
    by (auto simp: memory_ok_def)
  with t show "mf_fibs S a \<noteq> None \<Longrightarrow> a < mf_next S" "mf_fibs S a = None \<Longrightarrow> mf_prefs S a = 0" by auto
qed

lemma mt_finite: "mt_inv S \<Longrightarrow> finite (dom (mf_fibs S))"
  by (rule finite_subset [of _ "{..<mf_next S}"]) (auto dest: mt_memory(1))

lemma away_hidden: "mt_inv S \<Longrightarrow> away (hidden t S) (alone t S)"
  using hidden_exist mt_memory(1) unfolding away_def by fastforce

subsection \<open>One thread's step\<close>

text \<open>The state after a step of \<open>t\<close>, from the state \<open>s'\<close> in which its step on its own part ends.\<close>

definition mt_next :: "tid \<Rightarrow> fib_multi \<Rightarrow> fiber_sys \<Rightarrow> fib_multi" where
  "mt_next t S s' = mt_put t (beside (hidden t S) (mf_fibs S) (mf_prefs S) s') S"

lemma hidden_same: "hidden t (mt_put t s S) = hidden t S"
  by (auto simp: hidden_def owned_def)

lemma owned_put: "u \<noteq> t \<Longrightarrow> owned u (mt_put t s S) = owned u S"
  "owned t (mt_put t s S) = set_option (last_s_fiber s) \<union> set_option (stack_now s)"
  by (auto simp: owned_def)

lemma alone_next:
  assumes "away (hidden t S) s'" "memory_ok s'"
  shows "alone t (mt_next t S s') = s'"
  using assms by (auto simp: mt_next_def hidden_same away_def memory_ok_def intro!: fib_equal)

lemma next_inv:
  assumes inv: "mt_inv S" and s': "fib_inv (others t S) s'" and aw: "away (hidden t S) s'"
  shows "mt_inv (mt_next t S s')"
proof -
  let ?S = "mt_next t S s'" and ?H = "hidden t S"
  note D = fib_invD [OF s']
  have al: "alone t ?S = s'" by (rule alone_next [OF aw D(3)])
  have own_t: "owned t ?S = set_option (last_s_fiber s') \<union> set_option (stack_now s')"
    by (simp add: mt_next_def owned_put)
  have own: "owned u ?S = owned u S" if "u \<noteq> t" for u using that by (simp add: mt_next_def owned_put)
  have hid: "hidden t ?S = ?H" by (simp add: mt_next_def hidden_same)
  have own_dom: "fibs s' a \<noteq> None" if "a \<in> owned t ?S" for a
    using that D(2) unfolding own_t by (auto simp: thread_ok_def split: option.splits)
  have apart: "owned t ?S \<inter> ?H = {}" using own_dom aw unfolding away_def by fastforce
  have disj: "owned u ?S \<inter> hidden u ?S = {}" for u
  proof (cases "u = t")
    case True
    with apart hid show ?thesis by simp
  next
    case False
    then have H: "owned u ?S \<subseteq> ?H" using own by (auto simp: hidden_def)
    have "a \<notin> hidden u ?S" if a: "a \<in> owned u ?S" for a
    proof
      assume "a \<in> hidden u ?S"
      then obtain v where v: "v \<noteq> u" "a \<in> owned v ?S" by (auto simp: hidden_def)
      with a H apart have "v \<noteq> t" by auto
      with v own have "a \<in> hidden u S" by (auto simp: hidden_def)
      with a own False mt_invD(2) [OF inv, of a u] show False by simp
    qed
    then show ?thesis by auto
  qed
  have exist: "mf_fibs S a \<noteq> None" if "a \<in> ?H" for a using hidden_exist [OF inv that] by auto
  have fibs: "mf_fibs ?S a = (if a \<in> ?H then mf_fibs S a else fibs s' a)"
    and refs: "mf_prefs ?S a = (if a \<in> ?H then mf_prefs S a else p_refs s' a)"
    and nxt: "mf_next ?S = next_fib s'" and cnt: "mf_count ?S = g_fiber_count s'" for a
    by (simp_all add: mt_next_def)
  have loc: "mf_loc ?S u = mf_loc S u" if "u \<noteq> t" for u using that by (simp add: mt_next_def)
  have count: "mf_count ?S = of_nat (card (dom (mf_fibs ?S)))"
  proof -
    have "dom (mf_fibs S) = dom (fibs (alone t S)) \<union> ?H" "dom (mf_fibs ?S) = dom (fibs s') \<union> ?H"
      using exist fibs by (auto split: if_splits)
    moreover have "dom (fibs (alone t S)) \<inter> ?H = {}" "dom (fibs s') \<inter> ?H = {}"
      using aw by (auto simp: away_def split: if_splits)
    moreover have "finite ?H" by (rule finite_subset [OF _ mt_finite [OF inv]]) (use exist in auto)
    moreover have "finite (dom (fibs (alone t S)))" by (rule finite_subset [OF _ mt_finite [OF inv]]) (auto split: if_splits)
    ultimately have "card (dom (mf_fibs S)) = card (dom (fibs (alone t S))) + card ?H"
      "card (dom (mf_fibs ?S)) = card (dom (fibs s')) + card ?H"
      using finite_fibs [OF D(3)] by (simp_all add: card_Un_disjoint)
    with D(4) mt_invD(3) [OF inv] show ?thesis by (simp add: cnt others_def)
  qed
  have view: "fib_inv (others u ?S) (alone u ?S)" if u: "u \<noteq> t" for u
  proof -
    note U = fib_invD [OF mt_invD(1) [OF inv, of u]]
    have sub: "owned u S \<subseteq> ?H" using u by (auto simp: hidden_def)
    have vis: "a \<notin> hidden u ?S" if "a \<in> owned u S" for a using that disj [of u] own [OF u] by blast
    have ok: "fib_ok (alone u ?S) a f" if "fibs (alone u ?S) a = Some f" for a f
    proof (cases "a \<in> owned u S")
      case True
      with sub that vis have "a \<in> ?H" "mf_fibs S a = Some f" by (auto simp: fibs split: if_splits)
      with U(1) [of a f] mt_invD(2) [OF inv True] have "fib_ok (alone u S) a f" by simp
      then show ?thesis
        using vis [OF True] mt_invD(2) [OF inv True] \<open>a \<in> ?H\<close> fib_ok_cong [of "alone u ?S" "alone u S" a f] loc [OF u]
        by (simp add: refs)
    next
      case False
      from that have nh: "a \<notin> hidden u ?S" by (auto split: if_splits)
      have "a \<notin> ?H"
      proof
        assume "a \<in> ?H"
        then obtain v where v: "v \<noteq> t" "a \<in> owned v S" by (auto simp: hidden_def)
        with False own nh show False unfolding hidden_def by (cases "v = u") auto
      qed
      with that nh have f: "fibs s' a = Some f" by (auto simp: fibs split: if_splits)
      have "a \<notin> owned t ?S" using nh u by (auto simp: hidden_def)
      with D(1) [OF f] have "idle_ok s' a f" unfolding own_t by (auto simp: fib_ok_def split: if_splits)
      then have "idle_ok (alone u ?S) a f"
        using ok_cong(3) [of "alone u ?S" a s' f] nh \<open>a \<notin> ?H\<close> by (simp add: refs)
      with False loc [OF u] show ?thesis by (auto simp: fib_ok_def owned_def)
    qed
    have thr: "thread_ok (alone u ?S)"
    proof -
      have "fibs (alone u ?S) a = fibs (alone u S) a" if "a \<in> owned u S" for a
        using that vis sub mt_invD(2) [OF inv that] by (auto simp: fibs)
      with U(2) loc [OF u] show ?thesis unfolding thread_ok_def owned_def by (auto split: option.splits)
    qed
    have mem: "memory_ok (alone u ?S)"
    proof -
      have "a < next_fib s'" if "fibs (alone u ?S) a \<noteq> None" for a
        using that D(3) aw by (cases "a \<in> ?H") (auto simp: memory_ok_def away_def fibs split: if_splits)
      moreover have "p_refs (alone u ?S) a = 0" if "fibs (alone u ?S) a = None" for a
        using that D(3) exist [of a] by (cases "a \<in> ?H") (auto simp: memory_ok_def fibs refs split: if_splits)
      ultimately show ?thesis by (simp add: memory_ok_def nxt)
    qed
    from ok thr mem show ?thesis by (simp add: fib_inv_def others_def)
  qed
  have "others t ?S = others t S" using D(4) al cnt by (simp add: others_def)
  with s' al have "fib_inv (others t ?S) (alone t ?S)" by simp
  with view have "fib_inv (others u ?S) (alone u ?S)" for u by (cases "u = t") auto
  with disj count show ?thesis by (simp add: mt_inv_def)
qed

subsection \<open>Coroutines that any thread resumes\<close>

record co_multi =
  mc_running :: "tid \<Rightarrow> fib_addr option"
  mc_status :: "fib_addr \<Rightarrow> co_status option"

definition mc_view :: "tid \<Rightarrow> co_multi \<Rightarrow> coroutines" where
  "mc_view t c = \<lparr>co_running = mc_running c t, co_status = mc_status c\<rparr>"

text \<open>A thread's step is one of the abstract machine on the shared coroutines; the other threads go on with theirs.\<close>

definition mc_step :: "tid \<times> fop \<Rightarrow> co_multi \<Rightarrow> co_multi \<Rightarrow> bool" where
  "mc_step p c c' \<longleftrightarrow> co_step (snd p) (mc_view (fst p) c) (mc_view (fst p) c')
     \<and> (\<forall>u. u \<noteq> fst p \<longrightarrow> mc_running c' u = mc_running c u)"

definition mc_abs :: "fib_multi \<Rightarrow> co_multi" where
  "mc_abs S = \<lparr>mc_running = (\<lambda>t. l_stack (mf_loc S t)), mc_status = co_status (co_abs (mt_view undefined S))\<rparr>"

lemma mc_view_abs: "mc_view t (mc_abs S) = co_abs (mt_view t S)"
  by (simp add: mc_view_def mc_abs_def co_abs_def)

text \<open>A step on some coroutines is one beside others.\<close>

definition co_beside :: "fib_addr set \<Rightarrow> (fib_addr \<Rightarrow> co_status option) \<Rightarrow> coroutines \<Rightarrow> coroutines" where
  "co_beside A G c = c\<lparr>co_status := (\<lambda>a. if a \<in> A then G a else co_status c a)\<rparr>"

lemma co_beside_update:
  "a \<notin> A \<Longrightarrow> co_beside A G (c\<lparr>co_status := (co_status c)(a := x)\<rparr>)
     = (co_beside A G c)\<lparr>co_status := (co_status (co_beside A G c))(a := x)\<rparr>"
  "a \<notin> A \<Longrightarrow> co_beside A G (c\<lparr>co_running := r, co_status := (co_status c)(a := x)\<rparr>)
     = (co_beside A G c)\<lparr>co_running := r, co_status := (co_status (co_beside A G c))(a := x)\<rparr>"
  by (auto simp: co_beside_def intro!: coroutines.equality ext)

lemma co_step_beside:
  assumes "co_step op c c'" "dom (co_status c) \<inter> A = {}" "dom (co_status c') \<inter> A = {}"
    and "\<And>a. co_running c = Some a \<Longrightarrow> a \<notin> A"
  shows "co_step op (co_beside A G c) (co_beside A G c')"
  using assms
proof (induction rule: co_step.induct)
  case (co_new c a cb n)
  then have "a \<notin> A" by auto
  with co_new.hyps show ?case by (simp add: co_beside_update) (rule co_step.co_new, simp add: co_beside_def)
next
  case (co_resume c a st)
  then have "a \<notin> A" by auto
  with co_resume.hyps show ?case
    by (simp add: co_beside_update) (rule co_step.co_resume [of _ _ st], simp_all add: co_beside_def)
next
  case (co_resume_empty c a)
  then have "a \<notin> A" by auto
  with co_resume_empty.hyps show ?case
    by (simp add: co_beside_update) (rule co_step.co_resume_empty, simp_all add: co_beside_def)
next
  case (co_yield c a op)
  then have "a \<notin> A" by auto
  with co_yield.hyps show ?case
    by (simp add: co_beside_update) (rule co_step.co_yield, simp_all add: co_beside_def)
next
  case (co_end c a op)
  then have "a \<notin> A" by auto
  with co_end.hyps show ?case
    by (simp add: co_beside_update) (rule co_step.co_end, simp_all add: co_beside_def)
next
  case (co_reset c a st cb)
  then have "a \<notin> A" by auto
  with co_reset.hyps show ?case
    by (simp add: co_beside_update) (rule co_step.co_reset [of _ _ st], simp_all add: co_beside_def)
next
  case (co_free c a st)
  then have "a \<notin> A" by auto
  with co_free.hyps show ?case
    by (simp add: co_beside_update) (rule co_step.co_free [of _ _ st], simp_all add: co_beside_def)
next
  case (co_same op c)
  then show ?case by (intro co_step.co_same)
qed

lemma co_abs_beside: "co_abs (beside A F R s) =
    co_beside A (\<lambda>a. case F a of None \<Rightarrow> None | Some f \<Rightarrow> if f_stack f then Some (status_of (f_state f)) else None) (co_abs s)"
  by (auto simp: co_abs_def co_beside_def)

lemma away_abs: "away A s \<Longrightarrow> dom (co_status (co_abs s)) \<inter> A = {}"
  by (auto simp: co_abs_def away_def split: option.splits)

subsection \<open>Each thread's operations implement them\<close>

definition mt_implements :: "fiber_env \<Rightarrow> tid \<times> fop \<Rightarrow> fib_multi \<Rightarrow> bool" where
  "mt_implements env p S \<longleftrightarrow> (\<exists>S'. mt_op env p S = Inr S' \<and> mt_inv S' \<and> mc_step p (mc_abs S) (mc_abs S'))"

lemma alone_implements:
  assumes env: "fib_env_ok env" and inv: "mt_inv S" and ok: "fop_ok op (alone t S)"
  shows "mt_implements env (t, op) S"
proof -
  let ?H = "hidden t S"
  obtain s' where s': "fib_op env op (alone t S) = Inr s'" "fib_inv (others t S) s'"
    "co_step op (co_abs (alone t S)) (co_abs s')"
    using fop_implements [OF env mt_invD(1) [OF inv] ok] by (auto simp: implements_op_def)
  note fr = local_opD [OF fib_op_local away_hidden [OF inv] s'(1), of "mf_fibs S" "mf_prefs S"]
  then have aw: "away ?H s'" by simp
  let ?S = "mt_next t S s'"
  have "mt_op env (t, op) S = Inr ?S"
    using fr by (simp add: mt_op_def mt_next_def view_beside [symmetric])
  moreover have "mt_inv ?S" by (rule next_inv [OF inv s'(2) aw])
  moreover have "mc_step (t, op) (mc_abs S) (mc_abs ?S)"
  proof -
    have "a \<notin> ?H" if "co_running (co_abs (alone t S)) = Some a" for a
      using that mt_invD(2) [OF inv, of a t] by (simp add: co_abs_def owned_def)
    from co_step_beside [OF s'(3) away_abs [OF away_hidden [OF inv]] away_abs [OF aw] this]
    have "co_step op (co_abs (beside ?H (mf_fibs S) (mf_prefs S) (alone t S))) (co_abs (beside ?H (mf_fibs S) (mf_prefs S) s'))"
      unfolding co_abs_beside by simp
    moreover have "mt_view t ?S = beside ?H (mf_fibs S) (mf_prefs S) s'"
      by (auto simp: mt_next_def intro!: fib_equal)
    ultimately show ?thesis
      by (simp add: mc_step_def mc_view_abs view_beside [symmetric]) (simp add: mc_abs_def mt_next_def)
  qed
  ultimately show ?thesis by (auto simp: mt_implements_def)
qed

text \<open>
  The discipline is that of \<open>fop_ok\<close>, on the shared fibers and the thread's own pointers. The
  program's pointers may be to a fiber that another thread runs; using one is like using it there.
\<close>

definition mt_ok :: "tid \<times> fop \<Rightarrow> fib_multi \<Rightarrow> bool" where
  "mt_ok p S \<longleftrightarrow> fop_ok (snd p) (mt_view (fst p) S)"

lemma fop_ok_alone:
  assumes inv: "mt_inv S" and ok: "fop_ok op (mt_view t S)"
    and p: "\<And>a. op = FCopy a \<or> op = FDrop a \<Longrightarrow> a \<notin> hidden t S"
  shows "fop_ok op (alone t S)"
proof -
  have own: "a \<notin> hidden t S" if "l_last (mf_loc S t) = Some a \<or> l_stack (mf_loc S t) = Some a" for a
    using that mt_invD(2) [OF inv, of a t] by (auto simp: owned_def)
  show ?thesis
  proof (cases op)
    case (FSwapIn a)
    with ok hidden_exist [OF inv, of a t] show ?thesis by (auto split: option.splits)
  next
    case (FReset a cb)
    with ok hidden_exist [OF inv, of a t] show ?thesis by (auto split: option.splits)
  qed (use ok p own in \<open>auto split: option.splits\<close>)
qed

lemma pointer_op_any:
  assumes inv: "mt_inv S" and a: "a \<in> owned v S" and op: "op = FCopy a \<or> op = FDrop a"
  shows "mt_op env (t, op) S = mt_op env (v, op) S"
proof -
  obtain f where "mf_fibs S a = Some f" "f_refs f = mf_prefs S a + 1" by (rule owned_exist [OF inv a]) (rule that)
  with op show ?thesis
    by (auto simp: mt_op_def fib_defs mt_put_def intro!: fib_multi.equality ext fib_local.equality)
qed

lemma pointer_step_any:
  assumes "mc_step (v, op) c c'" "op = FCopy a \<or> op = FDrop a"
  shows "mc_step (t, op) c c'"
proof -
  have 1: "mc_running c' v = mc_running c v \<and>
      (mc_status c' = mc_status c \<or> op = FDrop a \<and> mc_status c' = (mc_status c)(a := None) \<and>
        (\<exists>st \<in> {Fresh, Finished}. mc_status c a = Some st))"
    using assms by (auto simp: mc_step_def mc_view_def elim!: co_step.cases)
  with assms(1) have run: "mc_running c' u = mc_running c u" for u by (cases "u = v") (auto simp: mc_step_def)
  have "co_step op (mc_view t c) (mc_view t c')"
  proof (cases "mc_status c' = mc_status c")
    case True
    with run have "mc_view t c' = mc_view t c" by (simp add: mc_view_def)
    with assms(2) show ?thesis by (auto intro: co_step.co_same)
  next
    case False
    with 1 obtain st where st: "op = FDrop a" "mc_status c' = (mc_status c)(a := None)"
      "mc_status c a = Some st" "st \<in> {Fresh, Finished}" by blast
    then have "mc_view t c' = (mc_view t c)\<lparr>co_status := (co_status (mc_view t c))(a := None)\<rparr>"
      using run by (simp add: mc_view_def)
    with st show ?thesis using co_step.co_free [of "mc_view t c" a st] by (simp add: mc_view_def)
  qed
  with run show ?thesis by (simp add: mc_step_def)
qed

lemma mt_step_implements:
  assumes env: "fib_env_ok env" and inv: "mt_inv S" and ok: "mt_ok p S"
  shows "mt_implements env p S"
proof -
  obtain t op where p: "p = (t, op)" by (cases p)
  show ?thesis
  proof (cases "\<exists>a. (op = FCopy a \<or> op = FDrop a) \<and> a \<in> hidden t S")
    case True
    then obtain a v where a: "op = FCopy a \<or> op = FDrop a" "a \<in> owned v S" by (auto simp: hidden_def)
    from ok a(1) p have "p_refs (mt_view v S) a > 0" by (auto simp: mt_ok_def)
    with a mt_invD(2) [OF inv] have "fop_ok op (alone v S)" by auto
    from alone_implements [OF env inv this] obtain S' where
      "mt_op env (v, op) S = Inr S'" "mt_inv S'" "mc_step (v, op) (mc_abs S) (mc_abs S')" by (auto simp: mt_implements_def)
    with pointer_op_any [OF inv a(2,1)] pointer_step_any [OF _ a(1)] p show ?thesis unfolding mt_implements_def by metis
  next
    case False
    with fop_ok_alone [OF inv, of op t] ok p have "fop_ok op (alone t S)" by (auto simp: mt_ok_def)
    from alone_implements [OF env inv this] p show ?thesis by simp
  qed
qed

interpretation threads: implementation "mt_op env" mt_ok "\<lambda>S. fib_env_ok env \<and> mt_inv S" mc_abs mc_step for env
  using mt_step_implements by unfold_locales (auto simp: mt_implements_def)

text \<open>No two threads run on one fiber's stack.\<close>

lemma one_runner:
  assumes "mt_inv S" "l_stack (mf_loc S t) = Some a" "l_stack (mf_loc S u) = Some a"
  shows "t = u"
proof (rule ccontr)
  assume "t \<noteq> u"
  with assms(2,3) have "a \<in> owned t S" "a \<in> hidden t S" by (auto simp: owned_def hidden_def)
  with mt_invD(2) [OF assms(1)] show False by blast
qed


text \<open>A fiber that yields on one thread and is resumed on another, where it ends.\<close>

definition demo_threads :: "(tid \<times> fop) list" where
  "demo_threads = [(1, FGetThis), (1, FNew (Some 5) 0), (1, FSwapIn 1), (2, FGetThis), (1, FHold), (2, FSwapIn 1),
     (1, FDrop 0), (1, FThreadEnd), (2, FReturn), (2, FDrop 1), (2, FDrop 2), (2, FThreadEnd)]"


definition demo_multi :: "(tid \<times> fop) list \<Rightarrow> fib_multi" where
  "demo_multi ops = (case run_list (mt_op demo_fenv) ops mt_start of Inl _ \<Rightarrow> mt_start | Inr S \<Rightarrow> S)"

lemma demo_multi_run:
  "run_pre mt_ok (mt_op demo_fenv) ops mt_start \<Longrightarrow> run_list (mt_op demo_fenv) ops mt_start = Inr (demo_multi ops)"
  using threads.runs [of demo_fenv mt_start ops] demo_fenv_ok mt_inv_start by (auto simp: demo_multi_def)

text \<open>Two threads that each make a fiber.\<close>

definition two_fibers :: "(tid \<times> fop) list" where
  "two_fibers = [(1, FGetThis), (1, FNew (Some 5) 0), (2, FNew None 0)]"

end
