(* ===== verification/UtilProps.thy ===== *)
theory UtilProps
  imports Util FiberThreadsProps
begin

section \<open>Properties of ids and assertions\<close>

subsection \<open>A failed assertion\<close>

text \<open>
  \<open>YECC_ASSERT\<close> with a root logger that writes to the console. It does nothing when the
  condition holds; otherwise the root logger's appenders print the expression and the backtrace, once
  each, before the program is aborted.
\<close>

theorem failed_assertion_reported:
  assumes "loggers st (getRoot st) = Some lg" "l_level lg \<le> ERROR" "l_appenders lg \<noteq> []"
    and "assert_text api expr None = Inr msg"
    and "\<forall>a \<in> set (l_appenders lg). console_appender st a \<and>
      fits env (event_append msg (macro_event env c (getRoot st) ERROR)) st a"
  shows "YECC_ASSERT env api c x expr st =
    Some (Inr (if x then Continues st
      else Aborts expr (print (concat (map (console_text env ERROR
        (event_append msg (macro_event env c (getRoot st) ERROR)) st) (l_appenders lg))) st)))"
proof -
  let ?ev = "event_append msg (macro_event env c (getRoot st) ERROR)"
  have ev: "e_logger ?ev = getRoot st" "e_level ?ev = ERROR"
    by (simp_all add: event_append_def macro_event_def mk_event_def)
  then have name: "event_lname ?ev st = Some (l_name lg)" using assms(1) by (simp add: event_lname_def)
  have "logger_log env (getRoot st) ERROR ?ev st =
      Some (Inr (print (concat (map (console_text env ERROR ?ev st) (l_appenders lg))) st))"
    using assms(1,2,3) log_list_console [OF assms(5) name] by (subst logger_log.simps) simp
  then have "YECC_LOG_LEVEL env c (getRoot st) ERROR msg st =
      Some (Inr (print (concat (map (console_text env ERROR ?ev st) (l_appenders lg))) st))"
    using assms(1,2) ev by (simp add: YECC_LOG_LEVEL_def wrap_destroy_def)
  with assms(1,2,4) show ?thesis by (simp add: YECC_ASSERT_def assert_fails_def)
qed

definition demo_trace :: trace_api where
  "demo_trace = \<lparr>ta_malloc = (\<lambda>_. True), ta_frames = (\<lambda>n. take (nat n) [11, 12, 13, 14]),
     ta_junk = (\<lambda>n. replicate (nat n) 0), ta_symbols = (\<lambda>arr. Some (map (\<lambda>a. ''frame'' @ dec_int (int a)) arr))\<rparr>"

lemma backtrace_lines_witness:
  "BackTraceToString demo_trace 3 2 ''> '' = Inr (''> frame13'' @ [CHR 0x0A])"
proof -
  have "BackTraceToString demo_trace 3 2 ''> '' =
      Inr (concat (map (\<lambda>a. ''> '' @ (''frame'' @ dec_int (int a)) @ [CHR 0x0A]) (drop (nat 2) (ta_frames demo_trace 3))))"
    by (rule backtrace_lines [THEN conjunct1]) (simp_all add: demo_trace_def)
  also have "\<dots> = Inr (''> frame13'' @ [CHR 0x0A])" by code_simp
  finally show ?thesis .
qed

lemma failed_assertion_reported_witness:
  "YECC_ASSERT (env_at 1 True) demo_trace demo_site False ''m_stack'' demo_sys =
     Some (Inr (Aborts ''m_stack'' (print (''ASSERTION: m_stack'' @ [CHR 0x0A] @ ''backtrace: '' @ [CHR 0x0A] @
       ''    frame13'' @ [CHR 0x0A] @ ''    frame14'' @ [CHR 0x0A]) demo_sys)))"
proof -
  let ?lg = "\<lparr>l_name = ''root'', l_level = INFO, l_appenders = [0], l_formatter = Some msg_formatter, l_root = None\<rparr>"
  let ?txt = "''ASSERTION: m_stack'' @ [CHR 0x0A] @ ''backtrace: '' @ [CHR 0x0A] @
    ''    frame13'' @ [CHR 0x0A] @ ''    frame14'' @ [CHR 0x0A]"
  have lg: "loggers demo_sys (getRoot demo_sys) = Some ?lg" by (simp add: demo_sys_def getRoot_def)
  have lev: "l_level ?lg \<le> ERROR" by (simp add: less_eq_level_def)
  have rep: "assert_text demo_trace ''m_stack'' None = Inr ?txt" by code_simp
  have out: "console_text (env_at 1 True) ERROR
      (event_append ?txt (macro_event (env_at 1 True) demo_site (getRoot demo_sys) ERROR)) demo_sys 0 = ?txt"
    by (simp add: console_text_def event_lname_def demo_sys_def getRoot_def new_stdout_appender_def msg_formatter_def
        event_append_def macro_event_def mk_event_def less_eq_level_def)
  show ?thesis
    using failed_assertion_reported [OF lg lev _ rep, of "env_at 1 True" demo_site False] demo_sys_appender out by simp
qed

subsection \<open>Ids of fibers\<close>

text \<open>An operation other than the public constructor gives no ids, and the fibers that remain keep theirs.\<close>

definition keeps_ids :: "fiber_sys \<Rightarrow> fiber_sys \<Rightarrow> bool" where
  "keeps_ids s s' \<longleftrightarrow> g_fiber_id s' = g_fiber_id s \<and>
     (\<forall>a f'. fibs s' a = Some f' \<longrightarrow> f_stack f' \<longrightarrow> (\<exists>f. fibs s a = Some f \<and> f_stack f \<and> f_id f = f_id f'))"

named_theorems id_intros

lemma keeps_ids_refl [simp]: "keeps_ids s s"
  by (simp add: keeps_ids_def)

lemma keeps_ids_trans: "keeps_ids s t \<Longrightarrow> keeps_ids t u \<Longrightarrow> keeps_ids s u"
  unfolding keeps_ids_def by metis

lemma keeps_ids_frame [simp]:
  "keeps_ids s (t\<lparr>cur_fiber := c\<rparr>) = keeps_ids s t"
  "keeps_ids s (t\<lparr>last_s_fiber := c\<rparr>) = keeps_ids s t"
  "keeps_ids s (t\<lparr>stack_now := c\<rparr>) = keeps_ids s t"
  "keeps_ids s (t\<lparr>p_refs := r\<rparr>) = keeps_ids s t"
  by (simp_all add: keeps_ids_def)

lemma keeps_ids_set:
  "fibs s a = Some f \<Longrightarrow> f_stack f' = f_stack f \<Longrightarrow> f_id f' = f_id f \<Longrightarrow> keeps_ids s (set_fib a f' s)"
  by (auto simp: keeps_ids_def set_fib_def)

lemma with_fibE:
  assumes "with_fib a s k = Inr r"
  obtains f where "fibs s a = Some f" "k f = Inr r"
  using assms by (auto simp: with_fib_def split: option.splits)

lemma ids_dtor: "Fiber_dtor a s = Inr s' \<Longrightarrow> keeps_ids s s'"
  unfolding Fiber_dtor_def
  by (erule with_fibE) (auto simp: keeps_ids_def Let_def Fiber_SetThis_def split: if_splits)

lemma ids_add_ref: "add_ref a s = Inr s' \<Longrightarrow> keeps_ids s s'"
  unfolding add_ref_def by (erule with_fibE) (auto intro: keeps_ids_set)

lemma ids_drop_ref: "drop_ref a s = Inr s' \<Longrightarrow> keeps_ids s s'"
  unfolding drop_ref_def by (erule with_fibE) (auto intro: keeps_ids_set ids_dtor split: if_splits)

lemma ids_drop_opt: "drop_opt p s = Inr s' \<Longrightarrow> keeps_ids s s'"
  by (auto simp: drop_opt_def intro: ids_drop_ref split: option.splits)

lemma ids_main_ctor: "Fiber_main_ctor env s = Inr (a, s') \<Longrightarrow> keeps_ids s s'"
  by (auto simp: Fiber_main_ctor_def keeps_ids_def Let_def set_fib_def Fiber_SetThis_def split: if_splits)

lemma ids_GetThis: "Fiber_GetThis env s = Inr (a, s') \<Longrightarrow> keeps_ids s s'"
proof (cases "cur_fiber s")
  case None
  assume "Fiber_GetThis env s = Inr (a, s')"
  with None obtain b s1 s2 s3 s4 where "Fiber_main_ctor env s = Inr (b, s1)" "add_ref b s1 = Inr s2"
    "drop_opt (last_s_fiber s2) (s2\<lparr>last_s_fiber := Some b\<rparr>) = Inr s3" "add_ref b s3 = Inr s4" "drop_ref b s4 = Inr s'"
    by (auto simp: Fiber_GetThis_def rbind_eq_Inr split: if_splits)
  then have "keeps_ids s s1" "keeps_ids s1 s2" "keeps_ids (s2\<lparr>last_s_fiber := Some b\<rparr>) s3" "keeps_ids s3 s4" "keeps_ids s4 s'"
    by (blast intro: ids_main_ctor ids_add_ref ids_drop_opt ids_drop_ref)+
  moreover have "keeps_ids s2 (s2\<lparr>last_s_fiber := Some b\<rparr>)" by simp
  ultimately show ?thesis by (meson keeps_ids_trans)
qed (auto simp: Fiber_GetThis_def rbind_eq_Inr intro: ids_add_ref)

text \<open>A state in which a fiber was changed in other respects is as good.\<close>

lemma keeps_ids_from:
  "keeps_ids t s' \<Longrightarrow> keeps_ids s t \<Longrightarrow> keeps_ids s s'"
  by (rule keeps_ids_trans)

lemma ids_resume:
  assumes entry: "\<And>b t t'. entry b t = Inr t' \<Longrightarrow> keeps_ids t t'" and run: "resume entry b s = Inr s'"
  shows "keeps_ids s s'"
proof -
  from run obtain f where f: "fibs s b = Some f" unfolding resume_def by (rule with_fibE)
  let ?s = "set_fib b (f\<lparr>f_ctx := CtxStale\<rparr>) s"
  have s: "keeps_ids s ?s" using f by (intro keeps_ids_set) auto
  have "\<exists>st. keeps_ids (?s\<lparr>stack_now := st\<rparr>) s'"
    using run f by (auto simp: resume_def with_fib_def Let_def intro: entry ids_drop_opt
        split: ucontext.splits option.splits if_splits)
  then obtain st where "keeps_ids (?s\<lparr>stack_now := st\<rparr>) s'" by blast
  moreover have "keeps_ids s (?s\<lparr>stack_now := st\<rparr>)" using s by simp
  ultimately show ?thesis by (rule keeps_ids_from)
qed

lemma ids_swapcontext:
  assumes entry: "\<And>b t t'. entry b t = Inr t' \<Longrightarrow> keeps_ids t t'" and run: "swapcontext env entry c a b s = Inr s'"
  shows "keeps_ids s s'"
proof -
  from run obtain f where f: "fibs s a = Some f" and r: "resume entry b (set_fib a (f\<lparr>f_ctx := c\<rparr>) s) = Inr s'"
    by (auto simp: swapcontext_def with_fib_def split: if_splits option.splits)
  have "keeps_ids s (set_fib a (f\<lparr>f_ctx := c\<rparr>) s)" using f by (intro keeps_ids_set) auto
  with ids_resume [OF entry r] show ?thesis by (rule keeps_ids_from)
qed

lemma ids_swapOut_as: "Fiber_swapOut_as env c a s = Inr s' \<Longrightarrow> keeps_ids s s'"
proof -
  assume run: "Fiber_swapOut_as env c a s = Inr s'"
  then obtain m where "swapcontext env (\<lambda>_ _. Inl (Undefined ''main fiber entered'')) c a m (s\<lparr>cur_fiber := last_s_fiber s\<rparr>) = Inr s'"
    by (auto simp: Fiber_swapOut_as_def Let_def Fiber_SetThis_def split: option.splits)
  then have "keeps_ids (s\<lparr>cur_fiber := last_s_fiber s\<rparr>) s'" by (rule ids_swapcontext [rotated]) simp
  then show ?thesis by (rule keeps_ids_from) simp
qed

lemma ids_MainFunc_leave: "MainFunc_leave env a s = Inr s' \<Longrightarrow> keeps_ids s s'"
  by (auto simp: MainFunc_leave_def rbind_eq_Inr elim!: with_fibE
      intro: keeps_ids_trans ids_drop_ref ids_swapOut_as)

lemma ids_MainFunc_return: "MainFunc_return env a s = Inr s' \<Longrightarrow> keeps_ids s s'"
  unfolding MainFunc_return_def
  by (erule with_fibE) (auto intro: keeps_ids_from [OF ids_MainFunc_leave keeps_ids_set])

lemma ids_MainFunc_throw: "MainFunc_throw env a s = Inr s' \<Longrightarrow> keeps_ids s s'"
  unfolding MainFunc_throw_def
  by (erule with_fibE) (auto intro: keeps_ids_from [OF ids_MainFunc_leave keeps_ids_set])

lemma ids_MainFunc_begin: "MainFunc_begin env b s = Inr s' \<Longrightarrow> keeps_ids s s'"
  by (auto simp: MainFunc_begin_def rbind_eq_Inr elim!: with_fibE split: option.splits
      dest!: ids_GetThis ids_MainFunc_throw intro: keeps_ids_trans)

lemma ids_swapIn: "Fiber_swapIn env a s = Inr s' \<Longrightarrow> keeps_ids s s'"
proof -
  assume run: "Fiber_swapIn env a s = Inr s'"
  then obtain f m c where f: "fibs s a = Some f" and r: "swapcontext env (MainFunc_begin env) c m a
      ((set_fib a (f\<lparr>f_state := EXEC\<rparr>) s)\<lparr>cur_fiber := Some a\<rparr>) = Inr s'"
    by (auto simp: Fiber_swapIn_def with_fib_def Let_def Fiber_SetThis_def split: option.splits if_splits)
  have "keeps_ids s ((set_fib a (f\<lparr>f_state := EXEC\<rparr>) s)\<lparr>cur_fiber := Some a\<rparr>)"
    using f by (simp add: keeps_ids_set)
  with ids_swapcontext [OF ids_MainFunc_begin r] show ?thesis by (rule keeps_ids_from)
qed

lemma ids_yield: "yield_with st env s = Inr s' \<Longrightarrow> keeps_ids s s'"
  by (auto simp: yield_with_def rbind_eq_Inr Let_def elim!: with_fibE
      intro: keeps_ids_trans [OF ids_GetThis keeps_ids_from [OF ids_swapOut_as keeps_ids_set]])

lemma ids_reset: "Fiber_reset env a cb s = Inr s' \<Longrightarrow> keeps_ids s s'"
  unfolding Fiber_reset_def by (erule with_fibE) (auto intro: keeps_ids_set split: if_splits)

fun is_new :: "fop \<Rightarrow> bool" where
  "is_new (FNew cb n) = True"
| "is_new _ = False"

lemma ids_op: "fib_op env op s = Inr s' \<Longrightarrow> \<not> is_new op \<Longrightarrow> keeps_ids s s'"
  by (cases op)
    (auto simp: rbind_eq_Inr own_def disown_def Fiber_SetThis_def Fiber_swapOut_def YieldToReady_def YieldToHold_def
      end_callback_def keeps_ids_from split: option.splits if_splits
      intro: ids_GetThis ids_swapIn ids_swapOut_as ids_yield ids_MainFunc_return ids_MainFunc_throw ids_reset
        ids_add_ref keeps_ids_from [OF ids_drop_ref] keeps_ids_from [OF ids_drop_opt])

text \<open>The ids of the fibers with a stack are among the \<open>n\<close> that were given, and differ.\<close>

definition ids_ok :: "nat \<Rightarrow> fiber_sys \<Rightarrow> bool" where
  "ids_ok n s \<longleftrightarrow> g_fiber_id s = of_nat n \<and>
     (\<forall>a f. fibs s a = Some f \<longrightarrow> f_stack f \<longrightarrow> 1 \<le> unat (f_id f) \<and> unat (f_id f) \<le> n) \<and>
     (\<forall>a b f g. a \<noteq> b \<longrightarrow> fibs s a = Some f \<longrightarrow> fibs s b = Some g \<longrightarrow> f_stack f \<longrightarrow> f_stack g \<longrightarrow> f_id f \<noteq> f_id g)"

lemma ids_ok_keeps: "ids_ok n s \<Longrightarrow> keeps_ids s s' \<Longrightarrow> ids_ok n s'"
  unfolding ids_ok_def keeps_ids_def by metis

lemma ids_ok_new:
  assumes ok: "ids_ok n s" and n: "Suc n < 2 ^ 64" and run: "fib_op env (FNew cb k) s = Inr s'"
  shows "ids_ok (Suc n) s'"
proof -
  from run obtain f where s': "fibs s' = (fibs s)(next_fib s \<mapsto> f)" and f: "f_id f = g_fiber_id s + 1"
    and g: "g_fiber_id s' = g_fiber_id s + 1"
    by (auto simp: Fiber_ctor_def own_def set_fib_def Let_def rbind_eq_Inr split: if_splits)
  have new: "f_id f = of_nat (Suc n)" using f ok by (simp add: ids_ok_def)
  have "unat (f_id f) = Suc n" unfolding new unat_of_nat using n by simp
  moreover have "unat (f_id h) \<le> n" "1 \<le> unat (f_id h)" if "fibs s b = Some h" "f_stack h" for b h
    using that ok by (auto simp: ids_ok_def)
  ultimately have differ: "f_id h \<noteq> f_id f" "f_id f \<noteq> f_id h" if "fibs s b = Some h" "f_stack h" for b h
    using that by fastforce+
  show ?thesis
    unfolding ids_ok_def
  proof (intro conjI allI impI)
    show "g_fiber_id s' = of_nat (Suc n)" using g ok by (simp add: ids_ok_def)
  next
    fix b h assume "fibs s' b = Some h" "f_stack h"
    then show "1 \<le> unat (f_id h)" "unat (f_id h) \<le> Suc n"
      using s' ok \<open>unat (f_id f) = Suc n\<close> by (auto simp: ids_ok_def split: if_splits intro: le_SucI)
  next
    fix b c h i assume "b \<noteq> c" "fibs s' b = Some h" "fibs s' c = Some i" "f_stack h" "f_stack i"
    then show "f_id h \<noteq> f_id i"
      using s' ok differ by (cases "b = next_fib s"; cases "c = next_fib s") (auto simp: ids_ok_def)
  qed
qed

lemma ids_step:
  assumes ok: "ids_ok n s" and n: "Suc n < 2 ^ 64" and run: "fib_op env op s = Inr s'"
  shows "ids_ok (n + (if is_new op then 1 else 0)) s'"
proof (cases "is_new op")
  case True
  then obtain cb k where "op = FNew cb k" by (cases op) auto
  with ids_ok_new [OF ok n] run True show ?thesis by simp
next
  case False
  with ids_ok_keeps [OF ok ids_op [OF run]] show ?thesis by simp
qed

text \<open>The ids are shared by the threads.\<close>

lemma ids_ok_shared: "ids_ok n (mt_view t S) = ids_ok n (mt_view u S)" "ids_ok n (mt_view t (mt_put u s S)) = ids_ok n s"
  by (simp_all add: ids_ok_def)

lemma run_ids:
  "run_list (mt_op env) ops S = Inr S' \<Longrightarrow> ids_ok n (mt_view t S) \<Longrightarrow> n + length (filter (is_new \<circ> snd) ops) < 2 ^ 63 \<Longrightarrow>
   ids_ok (n + length (filter (is_new \<circ> snd) ops)) (mt_view t S')"
proof (induction ops arbitrary: n S)
  case (Cons p ops)
  then obtain S1 where S1: "mt_op env p S = Inr S1" "run_list (mt_op env) ops S1 = Inr S'" by (auto simp: rbind_eq_Inr)
  then obtain s where s: "fib_op env (snd p) (mt_view (fst p) S) = Inr s"
    "run_list (mt_op env) ops (mt_put (fst p) s S) = Inr S'" by (auto simp: rbind_eq_Inr mt_op_def)
  from Cons.prems(2) have "ids_ok n (mt_view (fst p) S)" by (simp add: ids_ok_shared(1) [of n "fst p" S t])
  from ids_step [OF this _ s(1)] Cons.prems(3)
  have "ids_ok (n + (if is_new (snd p) then 1 else 0)) (mt_view t (mt_put (fst p) s S))" by (simp add: ids_ok_shared(2))
  from Cons.IH [OF s(2) this] Cons.prems(3) show ?case by (simp split: if_splits)
qed simp

text \<open>
  C24: ids are unique, within bounds. Whatever the threads of a program do with its fibers, as long as
  they made fewer than \<open>2 ^ 32\<close> of them no two that exist have the same id, and \<open>GetFiberId\<close>,
  which keeps 32 bits of the 64, still tells them from each other and from code outside a fiber, for
  which it is 0.
\<close>

theorem fiber_ids_distinct:
  assumes "run_list (mt_op env) ops mt_start = Inr S" and "length (filter (is_new \<circ> snd) ops) < 2 ^ 32"
    and "mf_fibs S a = Some f" "f_stack f" "mf_fibs S b = Some g" "f_stack g" "a \<noteq> b"
  shows "f_id f \<noteq> f_id g \<and>
    GetFiberId ((mt_view t S)\<lparr>cur_fiber := Some a\<rparr>) \<noteq> GetFiberId ((mt_view u S)\<lparr>cur_fiber := Some b\<rparr>) \<and>
    GetFiberId ((mt_view t S)\<lparr>cur_fiber := Some a\<rparr>) \<noteq> Inr 0"
proof -
  let ?n = "length (filter (is_new \<circ> snd) ops)" and ?s = "mt_view t S"
  have "ids_ok 0 (mt_view t mt_start)" by (simp add: ids_ok_def mt_start_def)
  with run_ids [OF assms(1), of 0 t] assms(2) have ok: "ids_ok ?n ?s" by simp
  have id: "unat (ucast (f_id h) :: u32) = unat (f_id h)" "1 \<le> unat (f_id h)"
    if "mf_fibs S c = Some h" "f_stack h" for c h
  proof -
    from ok that have "1 \<le> unat (f_id h)" "unat (f_id h) \<le> ?n" by (auto simp: ids_ok_def)
    with assms(2) show "unat (ucast (f_id h) :: u32) = unat (f_id h)" "1 \<le> unat (f_id h)"
      by (simp_all add: unsigned_ucast_eq take_bit_nat_eq_self_iff)
  qed
  from ok assms(3-7) have "f_id f \<noteq> f_id g" by (auto simp: ids_ok_def)
  then have "(ucast (f_id f) :: u32) \<noteq> ucast (f_id g)" using id assms(3-6) by (metis unsigned_word_eqI)
  moreover have "(ucast (f_id f) :: u32) \<noteq> 0" using id [OF assms(3,4)] by auto
  ultimately show ?thesis
    using \<open>f_id f \<noteq> f_id g\<close> assms(3,5) by (simp add: GetFiberId_def GetCurFiberId_def with_fib_def)
qed

lemma fiber_ids_distinct_witness:
  "GetFiberId ((mt_view 1 (demo_multi two_fibers))\<lparr>cur_fiber := Some 1\<rparr>) \<noteq>
   GetFiberId ((mt_view 2 (demo_multi two_fibers))\<lparr>cur_fiber := Some 2\<rparr>)"
proof -
  let ?S = "demo_multi two_fibers"
  have S: "run_list (mt_op demo_fenv) two_fibers mt_start = Inr ?S" by (rule demo_multi_run) code_simp
  have "map_option f_stack (mf_fibs ?S 1) = Some True" "map_option f_stack (mf_fibs ?S 2) = Some True" by code_simp+
  then obtain f g where f: "mf_fibs ?S 1 = Some f" "f_stack f" and g: "mf_fibs ?S 2 = Some g" "f_stack g" by auto
  have "length (filter (is_new \<circ> snd) two_fibers) < 2 ^ 32" by (simp add: two_fibers_def)
  from fiber_ids_distinct [OF S this f g] show ?thesis by simp
qed

end
