(* ===== verification/Scheduler.thy ===== *)
theory Scheduler
  imports Sync Fiber
begin

section \<open>The scheduler's queue\<close>

text \<open>
  \<open>Scheduler\<close> of \<open>include/scheduler.hpp\<close>, as far as it is written: a queue of fibers and
  functions, the two \<open>schedule\<close> templates and \<open>scheduleNoBlock\<close>. The rest of the class has
  empty bodies, and \<open>tickle\<close> has none; whether it is called is part of the result. As it stands
  the header does not compile (\<open>scheduleNoBlock\<close> is declared \<open>void\<close> and returns
  \<open>need_tickle\<close>; the two templates have the same signature), so this models what the text says
  with the return type \<open>bool\<close>.
\<close>

text \<open>
  A task that is handed over: a \<open>Fiber::ptr\<close> or a \<open>std::function\<close> by value, or a pointer to
  a variable of the caller, whose content is swapped out. The references of fibers are not counted here.
\<close>

datatype fiber_or_cb =
    ByFiber "fib_addr option"
  | ByFiberPtr nat
  | ByFunc "nat option"
  | ByFuncPtr nat

record FiberOrFunc =
  ff_fiber :: "fib_addr option"
  ff_cb :: "nat option"
  ff_thread :: int

record scheduler =
  m_mutex :: "tid option"
  m_fibers :: "FiberOrFunc list"
  fiber_vars :: "nat \<Rightarrow> fib_addr option"
  func_vars :: "nat \<Rightarrow> nat option"

definition FiberOrFunc_empty :: FiberOrFunc where
  "FiberOrFunc_empty = \<lparr>ff_fiber = None, ff_cb = None, ff_thread = - 1\<rparr>"

definition FiberOrFunc_reset :: "FiberOrFunc \<Rightarrow> FiberOrFunc" where
  "FiberOrFunc_reset ft = ft\<lparr>ff_fiber := None, ff_cb := None, ff_thread := - 1\<rparr>"

fun FiberOrFunc_ctor :: "fiber_or_cb \<Rightarrow> int \<Rightarrow> scheduler \<Rightarrow> FiberOrFunc \<times> scheduler" where
  "FiberOrFunc_ctor (ByFiber f) thr s = (\<lparr>ff_fiber = f, ff_cb = None, ff_thread = thr\<rparr>, s)"
| "FiberOrFunc_ctor (ByFiberPtr x) thr s =
     (\<lparr>ff_fiber = fiber_vars s x, ff_cb = None, ff_thread = thr\<rparr>, s\<lparr>fiber_vars := (fiber_vars s)(x := None)\<rparr>)"
| "FiberOrFunc_ctor (ByFunc f) thr s = (\<lparr>ff_fiber = None, ff_cb = f, ff_thread = thr\<rparr>, s)"
| "FiberOrFunc_ctor (ByFuncPtr x) thr s =
     (\<lparr>ff_fiber = None, ff_cb = func_vars s x, ff_thread = thr\<rparr>, s\<lparr>func_vars := (func_vars s)(x := None)\<rparr>)"

definition scheduleNoBlock :: "fiber_or_cb \<Rightarrow> int \<Rightarrow> scheduler \<Rightarrow> bool \<times> scheduler" where
  "scheduleNoBlock fc thr s =
     (let need_tickle = (m_fibers s = []);
          (ft, s) = FiberOrFunc_ctor fc thr s
      in (need_tickle,
          if ff_fiber ft \<noteq> None \<or> ff_cb ft \<noteq> None then s\<lparr>m_fibers := m_fibers s @ [ft]\<rparr> else s))"

text \<open>\<open>MutexType::Lock lock(m_mutex)\<close>: the mutex of \<open>Sync\<close>, taken by thread \<open>t\<close>.\<close>

definition with_lock :: "tid \<Rightarrow> (scheduler \<Rightarrow> bool \<times> scheduler) \<Rightarrow> scheduler \<Rightarrow> (bool \<times> scheduler) result" where
  "with_lock t body s =
     rbind (guard_ctor mutex_lock t (m_mutex s)) (\<lambda>(locked, m).
       let (r, s) = body (s\<lparr>m_mutex := m\<rparr>) in
       rbind (guard_dtor mutex_unlock t (locked, m_mutex s)) (\<lambda>m. Inr (r, s\<lparr>m_mutex := m\<rparr>)))"

text \<open>Whether \<open>tickle\<close> is called at the end.\<close>

definition schedule :: "tid \<Rightarrow> fiber_or_cb \<Rightarrow> int \<Rightarrow> scheduler \<Rightarrow> (bool \<times> scheduler) result" where
  "schedule t fc thr s = with_lock t (scheduleNoBlock fc thr) s"

text \<open>The body of the loop: \<open>need_tickle |= scheduleNoBlock(fc, thr)\<close>.\<close>

definition batch_one :: "int \<Rightarrow> fiber_or_cb \<Rightarrow> bool \<times> scheduler \<Rightarrow> bool \<times> scheduler" where
  "batch_one thr fc = (\<lambda>(need_tickle, s). let (b, s) = scheduleNoBlock fc thr s in (need_tickle \<or> b, s))"

definition schedule_batch :: "tid \<Rightarrow> fiber_or_cb list \<Rightarrow> int \<Rightarrow> scheduler \<Rightarrow> (bool \<times> scheduler) result" where
  "schedule_batch t fcs thr s =
     with_lock t (\<lambda>s. fold (batch_one thr) fcs (False, s)) s"

subsection \<open>A queue of tasks\<close>

text \<open>
  The specification: a call appends its tasks, the empty ones left out, in order and once each.
\<close>

datatype sched_op = Schedule fiber_or_cb int | ScheduleBatch "fiber_or_cb list" int

fun sched_step :: "tid \<Rightarrow> sched_op \<Rightarrow> scheduler \<Rightarrow> scheduler result" where
  "sched_step t (Schedule fc thr) s = rbind (schedule t fc thr s) (\<lambda>(_, s). Inr s)"
| "sched_step t (ScheduleBatch fcs thr) s = rbind (schedule_batch t fcs thr s) (\<lambda>(_, s). Inr s)"

fun op_tasks :: "sched_op \<Rightarrow> fiber_or_cb list" where
  "op_tasks (Schedule fc thr) = [fc]"
| "op_tasks (ScheduleBatch fcs thr) = fcs"

fun op_thread :: "sched_op \<Rightarrow> int" where
  "op_thread (Schedule fc thr) = thr"
| "op_thread (ScheduleBatch fcs thr) = thr"

text \<open>The task a hand-over by value carries.\<close>

fun task_of :: "int \<Rightarrow> fiber_or_cb \<Rightarrow> FiberOrFunc list" where
  "task_of thr (ByFiber (Some f)) = [\<lparr>ff_fiber = Some f, ff_cb = None, ff_thread = thr\<rparr>]"
| "task_of thr (ByFunc (Some c)) = [\<lparr>ff_fiber = None, ff_cb = Some c, ff_thread = thr\<rparr>]"
| "task_of thr _ = []"

fun by_value :: "fiber_or_cb \<Rightarrow> bool" where
  "by_value (ByFiber f) = True"
| "by_value (ByFunc f) = True"
| "by_value _ = False"

inductive fifo_step :: "sched_op \<Rightarrow> FiberOrFunc list \<Rightarrow> FiberOrFunc list \<Rightarrow> bool" where
  fifo_append: "fifo_step op q (q @ concat (map (task_of (op_thread op)) (op_tasks op)))"

lemma noBlock_by_value:
  "by_value fc \<Longrightarrow> scheduleNoBlock fc thr s = (m_fibers s = [], s\<lparr>m_fibers := m_fibers s @ task_of thr fc\<rparr>)"
  by (cases "(thr, fc)" rule: task_of.cases) (auto simp: scheduleNoBlock_def)

lemma batch_by_value:
  "list_all by_value fcs \<Longrightarrow>
   fold (batch_one thr) fcs (k, s) =
   (k \<or> fcs \<noteq> [] \<and> m_fibers s = [], s\<lparr>m_fibers := m_fibers s @ concat (map (task_of thr) fcs)\<rparr>)"
  by (induction fcs arbitrary: k s) (auto simp: noBlock_by_value batch_one_def)

lemma with_lock_free:
  assumes "m_mutex s = None" and "body (s\<lparr>m_mutex := Some t\<rparr>) = (r, s')" and "m_mutex s' = Some t"
  shows "with_lock t body s = Inr (r, s'\<lparr>m_mutex := None\<rparr>)"
  using assms by (simp add: with_lock_def guard_ctor_def guard_dtor_def guard_unlock_def mutex_lock_def mutex_unlock_def)

lemma sched_step_free:
  assumes "m_mutex s = None" and "list_all by_value (op_tasks op)"
  shows "sched_step t op s =
    Inr (s\<lparr>m_fibers := m_fibers s @ concat (map (task_of (op_thread op)) (op_tasks op))\<rparr>)"
  using assms
  by (cases op) (auto simp: schedule_def schedule_batch_def noBlock_by_value batch_by_value
      with_lock_free [OF assms(1)] intro!: scheduler.equality)

interpretation queue: implementation "sched_step t" "\<lambda>op s. list_all by_value (op_tasks op)"
  "\<lambda>s. m_mutex s = None" m_fibers fifo_step for t
  by unfold_locales (simp add: sched_step_free fifo_append)



end
