(* ===== verification/SchedulerCtor.thy ===== *)
theory SchedulerCtor
  imports Scheduler Util Thread
begin

section \<open>The scheduler's constructor\<close>

text \<open>
  \<open>Scheduler::Scheduler\<close> of \<open>src/scheduler.cpp\<close>, and the functions with empty bodies. With
  \<open>use_caller\<close>, which is the default, it asserts that \<open>GetThis()\<close> is null; \<open>GetThis\<close> has
  no return statement, and using its result is undefined. What follows the assertion is modelled as it is
  written. (\<open>std::bind(Scheduler::run, this)\<close> lacks the \<open>&\<close> that would let it compile.)
\<close>

text \<open>The members besides the queue; a \<open>pthread_t\<close> is an unsigned 64-bit number.\<close>

record sched_obj =
  so_queue :: "FiberOrFunc list"
  so_name :: string
  so_mainFiber :: "fib_addr option"
  so_tids :: "u64 list"
  so_totThreadCount :: u64
  so_activeThreadCount :: u64
  so_idleThreadCount :: u64
  so_mainThread :: u64
  so_stopping :: bool
  so_autoStop :: bool

definition new_sched_obj :: "string \<Rightarrow> sched_obj" where
  "new_sched_obj name = \<lparr>so_queue = [], so_name = name, so_mainFiber = None, so_tids = [], so_totThreadCount = 0,
     so_activeThreadCount = 0, so_idleThreadCount = 0, so_mainThread = 0, so_stopping = True, so_autoStop = False\<rparr>"

text \<open>
  What the constructor works on: the calling thread's fibers, the loggers (assertions log), the threads, and
  the thread-local \<open>t_scheduler\<close> and \<open>t_fiber\<close>. Objects are named by addresses.
\<close>

record sched_world =
  sw_fibers :: fiber_sys
  sw_log :: log_sys
  sw_threads :: thread_sys
  t_scheduler :: "nat option"
  t_fiber :: "fib_addr option"

definition Scheduler_GetThis :: "sched_world \<Rightarrow> nat option result" where
  "Scheduler_GetThis w = Inl (Undefined ''no return statement'')"

definition Scheduler_GetMainFiber :: "sched_world \<Rightarrow> fib_addr option result" where
  "Scheduler_GetMainFiber w = Inl (Undefined ''no return statement'')"

definition Scheduler_dtor :: "sched_world \<Rightarrow> sched_world" where
  "Scheduler_dtor w = w"

definition Scheduler_start :: "sched_world \<Rightarrow> sched_world" where
  "Scheduler_start w = w"

definition Scheduler_stop :: "sched_world \<Rightarrow> sched_world" where
  "Scheduler_stop w = w"

definition Scheduler_run :: "sched_world \<Rightarrow> sched_world" where
  "Scheduler_run w = w"

text \<open>An assertion that fails logs and aborts.\<close>

definition sched_assert :: "env \<Rightarrow> trace_api \<Rightarrow> call_site \<Rightarrow> bool \<Rightarrow> string \<Rightarrow> sched_world \<Rightarrow> sched_world result" where
  "sched_assert env api c x expr w =
     (case YECC_ASSERT env api c x expr (sw_log w) of
        None \<Rightarrow> Inl (Blocked ''Logger::log'')
      | Some r \<Rightarrow> rbind r (\<lambda>out. case out of
            Aborts e st \<Rightarrow> Inl (AssertAbort e)
          | Continues st \<Rightarrow> Inr (w\<lparr>sw_log := st\<rparr>)))"

text \<open>
  \<open>this\<close> is the address of the new object, \<open>t\<close> the calling thread of handle \<open>h\<close>, \<open>gettid\<close>
  what the kernel says it is, and \<open>run_cb\<close> the bound function.
\<close>

definition Scheduler_ctor ::
  "env \<Rightarrow> trace_api \<Rightarrow> call_site \<Rightarrow> fiber_env \<Rightarrow> u64 \<Rightarrow> handle \<Rightarrow> os_thread \<Rightarrow> nat \<Rightarrow> nat \<Rightarrow>
     u64 \<Rightarrow> bool \<Rightarrow> string \<Rightarrow> sched_world \<Rightarrow> (sched_obj \<times> sched_world) result" where
  "Scheduler_ctor env api c fenv gettid h t run_cb this thread_num use_caller name w =
     rbind (sched_assert env api c (thread_num > 0) ''thread_num>0'' w) (\<lambda>w.
       let ob = new_sched_obj name in
       if use_caller then
         rbind (Fiber_GetThis fenv (sw_fibers w)) (\<lambda>(f, fs).
         rbind (drop_ref f fs) (\<lambda>fs.
         let thread_num = thread_num - 1; w = w\<lparr>sw_fibers := fs\<rparr> in
         rbind (Scheduler_GetThis w) (\<lambda>p.
         rbind (sched_assert env api c (p = None) ''GetThis() == nullptr'' w) (\<lambda>w.
         rbind (Fiber_ctor fenv (Some run_cb) 0 (sw_fibers w)) (\<lambda>(main, fs).
         rbind (Thread_SetName h name t (sw_threads w)) (\<lambda>ths.
         let tid = scast (GetThreadId gettid) in
           Inr (ob\<lparr>so_mainFiber := Some main, so_mainThread := tid, so_tids := so_tids ob @ [tid],
                   so_totThreadCount := thread_num\<rparr>,
                w\<lparr>sw_fibers := fs, sw_threads := ths, t_scheduler := Some this, t_fiber := Some main\<rparr>)))))))
       else Inr (ob\<lparr>so_mainThread := - 1, so_totThreadCount := thread_num\<rparr>, w))"


end
