(* ===== verification/Spec2Isabelle.thy ===== *)
theory Spec2Isabelle
  imports LogText LockViews ThreadProps FiberConf UtilProps SchedulerCtor
begin

text \<open>
  A model of the YeCC server library (C++, namespace \<open>yecc\<close>, files under \<open>include/\<close> and
  \<open>src/\<close>): a logging framework, a registry of configuration variables read from YAML, wrappers of
  POSIX threads and locks, fibers on \<open>ucontext\<close>, and the beginning of a scheduler.

  \<^bold>\<open>How the parts work together.\<close> The macros of \<open>log.hpp\<close> build an event from the source position
  and the calling thread and fiber (\<open>util.cpp\<close>), and give it to a logger; the logger hands it to its
  appenders or, when it has none, to the root logger; an appender formats it with the items its pattern was
  parsed into. The configuration registry holds typed variables; loading a document assigns them by name,
  and a variable tells its listeners. One listener, of the variable \<open>logs\<close>, configures the loggers;
  the variable \<open>fiber.stack_size\<close> sizes the stacks of fibers. Failed assertions are logged.

  \<^bold>\<open>Theories, in the order of the code.\<close>
  \<^item> \<open>Prelude\<close>: faults, the result type and its sequencing, strings, decimal numbers.
  \<^item> \<open>StdMap\<close>: \<open>std::map\<close> as a sorted association list, behind the locale
    \<open>ordered_map\<close>.
  \<^item> \<open>LogLevel\<close>, \<open>Pattern\<close>, \<open>Format\<close>, \<open>Appender\<close>, \<open>Logger\<close>: \<open>log.hpp\<close> and
    \<open>log.cpp\<close> up to the logger manager. A pattern is parsed by the loop of \<open>LogFormatter::init\<close>
    with its indices; loggers and appenders live in a heap (\<open>log_sys\<close>) with the console's output and
    the file system.
  \<^item> \<open>Lexical\<close>, \<open>ConfigVar\<close>, \<open>Config\<close>: \<open>config.hpp\<close> and \<open>config.cpp\<close>. The
    template \<open>LexicalCast\<close> is a pair of functions over the types it is specialised for (\<open>cty\<close>).
  \<^item> \<open>LogConf\<close>: the end of \<open>log.cpp\<close>, the listener of \<open>logs\<close> and \<open>ToYamlStr\<close>.
  \<^item> \<open>Sync\<close>, \<open>Thread\<close>: \<open>thread.hpp\<close> and \<open>thread.cpp\<close>: mutexes, guards, semaphores,
    and the life of a thread as a step relation.
  \<^item> \<open>LockActs\<close>: what the operations of \<open>log.cpp\<close>, \<open>config.hpp\<close> and \<open>config.cpp\<close> do to
    what threads share, as sequences of actions (locks, accesses to members, printed characters) that any
    interleaving of threads may mix (\<open>lock_step\<close>).
  \<^item> \<open>Simulation\<close>, \<open>Fiber\<close>, \<open>FiberThreads\<close>, \<open>FiberConf\<close>: \<open>fiber.hpp\<close> and
    \<open>fiber.cpp\<close>. The operations of the class act on the fibers and one thread's pointers, with reference
    counts and the place where each saved context continues; \<open>FiberThreads\<close> interleaves the operations
    of any number of threads.
  \<^item> \<open>Util\<close>: \<open>util.cpp\<close> and \<open>macro.hpp\<close>. \<open>Scheduler\<close>, \<open>SchedulerCtor\<close>: what there
    is of \<open>scheduler.hpp\<close> and \<open>scheduler.cpp\<close>.

  \<^bold>\<open>What the lemmas show.\<close>
  \<^item> \<open>PatternSpec\<close>, \<open>FormatterProps\<close>: the index loop equals a structural scanner, patterns printed
    from tokens are parsed back, constructing a formatter never throws, and the inputs where the loop
    departs from what a pattern means.
  \<^item> \<open>LoggerProps\<close>, \<open>LoggerThms\<close>: the invariant of the heap of loggers, that logging returns and
    follows no null pointer, what it prints, and how formatters are inherited.
  \<^item> \<open>LexicalProps\<close>, \<open>ConfigProps\<close>: casts return values of their type, which round trips hold
    and which do not, the invariant of the registry, and what a document assigns.
  \<^item> \<open>LogConfProps\<close>: the listener against its specification, the safety of loading any document with
    the listener installed, and that a logger switched off is silent. \<open>LogText\<close>: what a log statement
    prints after the text of \<open>logs\<close> was set.
  \<^item> \<open>LockOrder\<close>: the operations of logging and configuration take their locks in a fixed order and
    use guarded members under their locks, so that threads that use them never deadlock and race on the
    unguarded members only. \<open>LockRecords\<close>: records that are printed to a stream of one appender are whole.
    \<open>LockViews\<close>: the actions of \<open>Logger::log\<close> print what the model on the data prints, and with
    that what is left on a stream when many threads have logged.
  \<^item> \<open>Sync\<close> and \<open>ThreadProps\<close>: guards are balanced for every mutex class (locale \<open>lockable\<close>,
    interpreted for each), write guards exclude others in every interleaving, a constructor of a thread
    returns and what holds then.
  \<^item> \<open>FiberProps\<close>, \<open>FiberThreadsProps\<close>: fibers implement an abstract machine of coroutines (locale
    \<open>implementation\<close>) for programs that keep a discipline, on one thread and on many, and what happens to
    programs that do not. An operation is shown to touch only the fibers that its thread uses, so that the
    invariant of one thread carries over.
  \<^item> \<open>UtilProps\<close>, \<open>FiberConf\<close>, \<open>Scheduler\<close>, \<open>SchedulerCtor\<close> and this theory: ids and their
    width, assertions, the configured stack size, the queue, the scheduler's constructor, and what a log
    record says about its origin.

  \<^bold>\<open>Errors, loops and bounds.\<close> A fallible operation returns \<open>Inl\<close> of a fault (an exception, an
  abort, a null dereference, blocking, undefined behaviour, the end of the thread) or \<open>Inr\<close> of its
  result. No fuel is used: loops are structural or have a termination proof, and \<open>Logger::log\<close>, which
  follows root pointers, is a partial function whose result is shown to exist in every reachable state.
  Fiber ids and counters are 64-bit words; the bound on ids is \<open>2 ^ 32\<close>, the width that
  \<open>GetFiberId\<close> keeps. The date buffer of 50 bytes is in the model of \<open>strftime\<close>.

  \<^bold>\<open>Parameters.\<close> yaml-cpp and \<open>boost::lexical_cast\<close> (\<open>lex_api\<close>), \<open>typeid\<close> names, the
  clock, local time and the file system's answers (\<open>env\<close>), the kernel's thread ids, the results of
  \<open>getcontext\<close>, \<open>swapcontext\<close>, \<open>malloc\<close>, \<open>backtrace\<close> and \<open>backtrace_symbols\<close>. What a
  theorem needs of them is a named hypothesis, met by a concrete instance in its witness.

  \<^bold>\<open>Not modelled.\<close> \<open>tickle\<close> of \<open>Scheduler\<close>, which has no definition (these files do not
  compile as they are); \<open>yecc.hpp\<close>, the build file and the test programs. Of what is modelled: what a
  logger's operations do to its data is taken as atomic, while \<open>LockActs\<close> interleaves their actions
  without the data; a fiber's operation is one step of its thread; the buffering of file streams, and the log
  lines that \<open>MainFunc\<close> and \<open>BackTrace\<close> write on an error, are left out.
\<close>

section \<open>Across the components\<close>

text \<open>
  C13: a log record says where it was written. In a thread whose constructor returned, on whatever stack
  it runs, the event that a logging macro builds has the name the thread object has, the thread's kernel
  id, and the id of the running fiber, cut to 32 bits, or 0 outside a fiber.
\<close>

theorem record_names_fiber:
  assumes "thr_reach mx ktid ts" "p \<in> constructed ts" "objs ts p = Some th" "oss ts (th_handle th) = Some t"
    and "fib_run fenv i n0 ops fs" and "ktid (th_handle th) = sint gettid"
  shows "\<exists>c. macro_site file line gettid t fs = Inr c \<and>
    (let ev = macro_event env c l level in
      e_tname ev = th_name th \<and> e_threadId ev = word_of_int (th_id th) \<and>
      e_fiberId ev = (case stack_now fs of None \<Rightarrow> 0 | Some a \<Rightarrow> ucast (f_id (the (fibs fs a)))))"
proof -
  from constructed_thread [OF assms(1,2)] assms(3,4)
  have th: "th_id th = sint gettid" "Thread_GetName t = th_name th" using assms(6) by auto
  have tid: "GetThreadId gettid = word_of_int (sint gettid)"
    by (simp add: GetThreadId_def down_cast_same is_down)
  from counters_exact [OF assms(5)]
  have "GetFiberId fs = Inr (case stack_now fs of None \<Rightarrow> 0 | Some a \<Rightarrow> ucast (f_id (the (fibs fs a))))"
    by (cases "stack_now fs") (simp_all add: GetFiberId_def)
  with th tid show ?thesis by (simp add: macro_site_def macro_event_def mk_event_def Let_def)
qed

lemma record_names_fiber_witness:
  "\<exists>c. macro_site ''a.cpp'' 7 1001 (at_pc RunDone) (demo_state nested_ops) = Inr c \<and>
    e_fiberId (macro_event (env_at 1 True) c 0 WARN) = 2"
proof -
  let ?th = "\<lparr>th_id = 1001, th_handle = 1, th_cb = None, th_name = ''UNKNOWN'', th_sem = 0\<rparr>"
  have "4 \<in> constructed finished" "objs finished 4 = Some ?th" "oss finished (th_handle ?th) = Some (at_pc RunDone)"
    by (simp_all add: finished_def one_sys_def)
  note at = record_names_fiber [OF finished_reach this nested_run, of 1001 "''a.cpp''" 7 "env_at 1 True" 0 WARN]
  have "stack_now (demo_state nested_ops) = Some 2" "f_id (the (fibs (demo_state nested_ops) 2)) = 2" by code_simp+
  with at show ?thesis by (auto simp: demo_ktid_def Let_def)
qed

end
